(* ===== verification/Prelude.thy ===== *)
theory Prelude
  imports Main "HOL-Library.Word" "HOL-Library.Sublist"
begin

text \<open>
  What the components share: machine types, the result type of code that can leave defined
  behaviour or stop the process, typed heaps indexed by address, bounded byte buffers, and the
  network byte order of the two-byte integers the protocols carry. The host is the little-endian
  x86-64 the repository's bundled libraries are built for.
\<close>

unbundle bit_operations_syntax

named_theorems res_simps \<open>unfolding of the result type's operations\<close>
named_theorems buf_simps \<open>facts on bounded buffers\<close>

section \<open>Machine types\<close>

type_synonym byte = "8 word"
type_synonym short = "16 word"
type_synonym ptr = nat

abbreviation (input) NULL :: ptr where "NULL \<equiv> 0"

definition INT_MAX :: int where "INT_MAX = 2 ^ 31 - 1"

section \<open>Results of fallible code\<close>

text \<open>
  \<open>NullDeref\<close>, \<open>UseAfterFree\<close>, \<open>BadFree\<close>, \<open>OutOfBounds\<close>, \<open>SignedOverflow\<close>, \<open>EmptyFront\<close> and, for a
  library call the standard gives no meaning, \<open>Undefined\<close> are the undefined behaviours the sources
  can run into; \<open>Exit\<close>, \<open>Abort\<close>, \<open>AssertFail\<close> and \<open>Uncaught\<close> are
  the ways they end the process.
\<close>

datatype c_fault =
    NullDeref | UseAfterFree | BadFree | OutOfBounds | SignedOverflow | EmptyFront
  | Undefined
  | Exit int | Abort | AssertFail | Uncaught

type_synonym 'a res = "c_fault + 'a"

definition bindr :: "'a res \<Rightarrow> ('a \<Rightarrow> 'b res) \<Rightarrow> 'b res" where
  "bindr m f = (case m of Inl e \<Rightarrow> Inl e | Inr x \<Rightarrow> f x)"

lemma bindr_Inl [simp]: "bindr (Inl e) f = Inl e"
  and bindr_Inr [simp]: "bindr (Inr x) f = f x"
  by (simp_all add: bindr_def)

lemma bindr_eq_Inr: "bindr m f = Inr y \<longleftrightarrow> (\<exists>x. m = Inr x \<and> f x = Inr y)"
  by (cases m) simp_all

lemma bindr_assoc: "bindr (bindr m f) g = bindr m (\<lambda>x. bindr (f x) g)"
  by (cases m) simp_all

lemma bindr_cong [fundef_cong]:
  "m = m' \<Longrightarrow> (\<And>x. m' = Inr x \<Longrightarrow> f x = g x) \<Longrightarrow> bindr m f = bindr m' g"
  by (cases m') simp_all

section \<open>Typed heaps\<close>

text \<open>
  A heap holds the live objects of one type by address. Reading through a pointer faults on
  NULL and on an address that is not live; \<open>free\<close> accepts NULL and faults on anything that is
  not live.
\<close>

definition deref :: "(ptr \<rightharpoonup> 'v) \<Rightarrow> ptr \<Rightarrow> 'v res" where
  "deref H p = (if p = NULL then Inl NullDeref
     else case H p of None \<Rightarrow> Inl UseAfterFree | Some v \<Rightarrow> Inr v)"

definition free_at :: "(ptr \<rightharpoonup> 'v) \<Rightarrow> ptr \<Rightarrow> (ptr \<rightharpoonup> 'v) res" where
  "free_at H p = (if p = NULL then Inr H
     else case H p of None \<Rightarrow> Inl BadFree | Some _ \<Rightarrow> Inr (H(p := None)))"

lemma deref_NULL [simp]: "deref H NULL = Inl NullDeref"
  by (simp add: deref_def)

lemma deref_live [simp]: "p \<noteq> NULL \<Longrightarrow> H p = Some v \<Longrightarrow> deref H p = Inr v"
  by (simp add: deref_def)

lemma deref_Inr: "deref H p = Inr v \<longleftrightarrow> p \<noteq> NULL \<and> H p = Some v"
  by (auto simp: deref_def split: option.splits)

lemma free_at_live [simp]: "p \<noteq> NULL \<Longrightarrow> H p = Some v \<Longrightarrow> free_at H p = Inr (H(p := None))"
  by (simp add: free_at_def)

lemma free_at_NULL [simp]: "free_at H NULL = Inr H"
  by (simp add: free_at_def)

section \<open>Bounded buffers\<close>

definition get_at :: "byte list \<Rightarrow> nat \<Rightarrow> byte res" where
  "get_at b i = (if i < length b then Inr (b ! i) else Inl OutOfBounds)"

definition memcpy_at :: "byte list \<Rightarrow> nat \<Rightarrow> byte list \<Rightarrow> byte list res" where
  "memcpy_at dst i src =
     (if i + length src \<le> length dst then Inr (take i dst @ src @ drop (i + length src) dst)
      else Inl OutOfBounds)"

lemma memcpy_at_Inr: "memcpy_at dst i src = Inr d \<longleftrightarrow>
    i + length src \<le> length dst \<and> d = take i dst @ src @ drop (i + length src) dst"
  by (auto simp: memcpy_at_def)

lemma memcpy_at_length [buf_simps]: "memcpy_at dst i src = Inr d \<Longrightarrow> length d = length dst"
  by (auto simp: memcpy_at_Inr)

lemma memcpy_at_slice [buf_simps]:
  "memcpy_at dst i src = Inr d \<Longrightarrow> take (length src) (drop i d) = src"
  by (auto simp: memcpy_at_Inr)

lemma memcpy_at_append: "memcpy_at (pre @ rest) (length pre) src =
    (if length src \<le> length rest then Inr (pre @ src @ drop (length src) rest) else Inl OutOfBounds)"
  by (simp add: memcpy_at_def)

section \<open>Two-byte integers and their byte order\<close>

text \<open>How the host lays a \<open>short\<close> out in memory, and back.\<close>

definition short_bytes :: "short \<Rightarrow> byte list" where
  "short_bytes w = [ucast w, ucast (drop_bit 8 w)]"

definition short_at :: "byte list \<Rightarrow> nat \<Rightarrow> short res" where
  "short_at b i = bindr (get_at b i) (\<lambda>lo. bindr (get_at b (i + 1)) (\<lambda>hi.
     Inr (ucast lo OR push_bit 8 (ucast hi))))"

definition htons :: "short \<Rightarrow> short" where
  "htons w = push_bit 8 w OR drop_bit 8 w"

abbreviation (input) ntohs :: "short \<Rightarrow> short" where "ntohs \<equiv> htons"

text \<open>The big-endian reading of two bytes.\<close>

definition be16 :: "byte \<Rightarrow> byte \<Rightarrow> short" where
  "be16 hi lo = push_bit 8 (ucast hi) OR ucast lo"

lemma htons_htons [simp]: "htons (htons w) = w"
  by (rule bit_word_eqI) (auto simp: htons_def bit_simps)

lemma short_at_in: "i + 1 < length b \<Longrightarrow>
    short_at b i = Inr (ucast (b ! i) OR push_bit 8 (ucast (b ! (i + 1))))"
  by (simp add: short_at_def get_at_def)

lemma ntohs_be16: "htons (ucast (a :: byte) OR push_bit 8 (ucast (b :: byte))) = be16 a b"
  by (rule bit_word_eqI) (auto simp: htons_def be16_def bit_simps dest: bit_imp_le_length)

lemma short_bytes_htons: "short_bytes (htons w) = [ucast (drop_bit 8 w), ucast w]"
proof -
  have "(ucast (htons w) :: byte) = ucast (drop_bit 8 w)"
    by (rule bit_word_eqI) (auto simp: htons_def bit_simps)
  moreover have "(ucast (drop_bit 8 (htons w)) :: byte) = ucast w"
    by (rule bit_word_eqI) (auto simp: htons_def bit_simps)
  ultimately show ?thesis by (simp add: short_bytes_def)
qed

lemma be16_split [simp]: "be16 (ucast (drop_bit 8 w)) (ucast (w :: short)) = w"
  by (rule bit_word_eqI) (auto simp: be16_def bit_simps)

lemma be16_inject: "be16 a b = be16 c d \<longleftrightarrow> a = c \<and> b = d"
proof
  assume eq: "be16 a b = be16 c d"
  have hi: "ucast (drop_bit 8 (be16 x y)) = x" for x y
    by (rule bit_word_eqI) (auto simp: be16_def bit_simps dest: bit_imp_le_length)
  have lo: "ucast (be16 x y) = y" for x y
    by (rule bit_word_eqI) (auto simp: be16_def bit_simps dest: bit_imp_le_length)
  from eq show "a = c \<and> b = d" by (metis hi lo)
qed simp

section \<open>Printing numbers\<close>

text \<open>Decimal output of integers, as \<open>printf\<close> and the C++ streams produce it.\<close>

fun show_nat :: "nat \<Rightarrow> string" where
  "show_nat n = (if n < 10 then [char_of (48 + n)] else show_nat (n div 10) @ [char_of (48 + n mod 10)])"

declare show_nat.simps [simp del]

definition show_int :: "int \<Rightarrow> string" where
  "show_int i = (if i < 0 then CHR ''-'' # show_nat (nat (- i)) else show_nat (nat i))"

definition read_digits :: "string \<Rightarrow> nat" where
  "read_digits s = foldl (\<lambda>n c. 10 * n + (of_char c - 48)) 0 s"

lemma read_show_nat: "read_digits (show_nat n) = n"
proof (induction n rule: show_nat.induct)
  case (1 n)
  show ?case
  proof (cases "n < 10")
    case True
    then show ?thesis by (subst show_nat.simps) (simp add: read_digits_def)
  next
    case False
    with 1 show ?thesis by (subst show_nat.simps) (simp add: read_digits_def)
  qed
qed

lemma show_nat_inject: "show_nat m = show_nat n \<longleftrightarrow> m = n"
  by (metis read_show_nat)

lemma show_nat_nonempty [simp]: "show_nat n \<noteq> []"
  by (subst show_nat.simps) simp

end
