(* ===== verification/Session_List.thy ===== *)
theory Session_List
  imports Prelude
begin

text \<open>
  The TFTP server's session list (\<open>tftp/session.h\<close>, \<open>tftp/list.h\<close>, \<open>tftp/list.c\<close>) and its unit
  test (\<open>tftp/list_test.cc\<close>): a singly linked list with a head node that carries no session. The
  nodes, the sessions and the client addresses live in heaps indexed by address; what \<open>malloc\<close>
  returned (0 for NULL) is an argument of the operations that call it.
\<close>

section \<open>Data\<close>

record session =
  sock_fd :: int
  pFile :: ptr
  cli_addr :: ptr
  cli_addr_len :: int

record session_list =
  node_value :: ptr
  node_next :: ptr

record heap =
  list_nodes :: "ptr \<rightharpoonup> session_list"
  sessions :: "ptr \<rightharpoonup> session"
  addrs :: "ptr \<rightharpoonup> byte list"

definition live :: "heap \<Rightarrow> ptr \<Rightarrow> bool" where
  "live h p \<longleftrightarrow> list_nodes h p \<noteq> None \<or> sessions h p \<noteq> None \<or> addrs h p \<noteq> None"

text \<open>What the C standard promises of a successful \<open>malloc\<close>: a non-null address not in use.\<close>

definition fresh :: "heap \<Rightarrow> ptr \<Rightarrow> bool" where
  "fresh h p \<longleftrightarrow> p \<noteq> NULL \<and> \<not> live h p"

section \<open>Operations\<close>

definition create_session_list :: "ptr \<Rightarrow> heap \<Rightarrow> (ptr \<times> heap) res" where
  "create_session_list p h =
     (if p = NULL then Inl (Exit (-1))
      else Inr (p, h\<lparr>list_nodes := (list_nodes h)(p \<mapsto> \<lparr>node_value = NULL, node_next = NULL\<rparr>)\<rparr>))"

function length_loop :: "(ptr \<rightharpoonup> session_list) \<Rightarrow> ptr \<Rightarrow> int \<Rightarrow> int res" where
  "length_loop H pIndex len =
     (if pIndex = NULL then Inr len
      else if len \<ge> INT_MAX then Inl SignedOverflow
      else bindr (deref H pIndex) (\<lambda>n. length_loop H (node_next n) (len + 1)))"
  by pat_completeness auto
termination
  by (relation "measure (\<lambda>(H, p, len). nat (INT_MAX - len))") auto

declare length_loop.simps [simp del]

definition get_list_length :: "ptr \<Rightarrow> heap \<Rightarrow> int res" where
  "get_list_length head h =
     (if head = NULL then Inr 0
      else bindr (deref (list_nodes h) head) (\<lambda>n. length_loop (list_nodes h) (node_next n) 0))"

definition insert_to_session_list :: "ptr \<Rightarrow> ptr \<Rightarrow> ptr \<Rightarrow> heap \<Rightarrow> heap res" where
  "insert_to_session_list newitem head sess h =
     (if newitem = NULL then Inl NullDeref
      else bindr (deref (list_nodes h) head) (\<lambda>n.
        let H1 = (list_nodes h)(newitem \<mapsto> \<lparr>node_value = sess, node_next = node_next n\<rparr>)
        in bindr (deref H1 head) (\<lambda>n1.
             Inr (h\<lparr>list_nodes := H1(head \<mapsto> n1\<lparr>node_next := newitem\<rparr>)\<rparr>))))"

text \<open>
  The body of the \<open>if\<close> in \<open>remove_from_list\<close>: unlink the node, free its session, free the node.
\<close>

definition unlink_node :: "ptr \<Rightarrow> ptr \<Rightarrow> session_list \<Rightarrow> heap \<Rightarrow> heap res" where
  "unlink_node pprev pindex n h =
     bindr (deref (list_nodes h) pprev) (\<lambda>m.
       let H1 = (list_nodes h)(pprev \<mapsto> m\<lparr>node_next := node_next n\<rparr>)
       in bindr (free_at (sessions h) (node_value n)) (\<lambda>S.
          bindr (free_at H1 pindex) (\<lambda>H2. Inr (h\<lparr>list_nodes := H2, sessions := S\<rparr>))))"

partial_function (option) remove_loop :: "ptr \<Rightarrow> ptr \<Rightarrow> ptr \<Rightarrow> heap \<Rightarrow> heap res option" where
  "remove_loop sess pprev pindex h =
     (if pindex = NULL then Some (Inr h)
      else case deref (list_nodes h) pindex of
        Inl e \<Rightarrow> Some (Inl e)
      | Inr n \<Rightarrow> if node_value n = sess then Some (unlink_node pprev pindex n h)
                else remove_loop sess pindex (node_next n) h)"

definition remove_from_list :: "ptr \<Rightarrow> ptr \<Rightarrow> heap \<Rightarrow> heap res option" where
  "remove_from_list head sess h =
     (case deref (list_nodes h) head of
        Inl e \<Rightarrow> Some (Inl e)
      | Inr n \<Rightarrow> remove_loop sess head (node_next n) h)"

section \<open>The list a heap represents\<close>

fun chain :: "(ptr \<rightharpoonup> session_list) \<Rightarrow> ptr \<Rightarrow> ptr list \<Rightarrow> bool" where
  "chain H p [] \<longleftrightarrow> p = NULL"
| "chain H p (a # as) \<longleftrightarrow> p = a \<and> a \<noteq> NULL \<and>
     (case H a of None \<Rightarrow> False | Some n \<Rightarrow> chain H (node_next n) as)"

definition node_values :: "(ptr \<rightharpoonup> session_list) \<Rightarrow> ptr list \<Rightarrow> ptr list" where
  "node_values H as = map (\<lambda>a. node_value (the (H a))) as"

text \<open>
  \<open>session_rep h head vs\<close>: the nodes after \<open>head\<close> hold exactly the sessions \<open>vs\<close> in this order,
  each live and listed once.
\<close>

definition session_rep :: "heap \<Rightarrow> ptr \<Rightarrow> ptr list \<Rightarrow> bool" where
  "session_rep h head vs \<longleftrightarrow>
     (\<exists>as. chain (list_nodes h) head (head # as) \<and> node_values (list_nodes h) as = vs \<and> distinct vs \<and>
           (\<forall>v \<in> set vs. v \<noteq> NULL \<and> sessions h v \<noteq> None))"

lemma chain_upd [simp]: "u \<notin> set as \<Longrightarrow> chain (H(u := v)) p as = chain H p as"
  by (induction as arbitrary: p) (auto split: option.splits)

lemma node_values_upd [simp]: "u \<notin> set as \<Longrightarrow> node_values (H(u := v)) as = node_values H as"
  by (auto simp: node_values_def)

lemma node_values_simps [simp]: "node_values H [] = []"
    "node_values H (a # as) = node_value (the (H a)) # node_values H as"
    "node_values H (as @ bs) = node_values H as @ node_values H bs"
  by (simp_all add: node_values_def)

lemma chain_live: "chain H p as \<Longrightarrow> a \<in> set as \<Longrightarrow> a \<noteq> NULL \<and> H a \<noteq> None"
  by (induction as arbitrary: p) (auto split: option.splits)

lemma chain_unique: "chain H p as \<Longrightarrow> chain H p bs \<Longrightarrow> as = bs"
proof (induction as arbitrary: p bs)
  case Nil
  then show ?case by (cases bs) auto
next
  case (Cons a as)
  then show ?case by (cases bs) (auto split: option.splits)
qed

lemma chain_suffix: "chain H p (as @ a # bs) \<Longrightarrow> chain H a (a # bs)"
proof (induction as arbitrary: p)
  case Nil
  then show ?case by simp
next
  case (Cons c as)
  then show ?case by (cases "H c") (simp_all del: chain.simps(2), auto)
qed

lemma chain_distinct: "chain H p as \<Longrightarrow> distinct as"
proof (induction as arbitrary: p)
  case Nil
  then show ?case by simp
next
  case (Cons a as)
  then obtain n where n: "H a = Some n" and c: "chain H (node_next n) as"
    by (auto split: option.splits)
  have "a \<notin> set as"
  proof
    assume "a \<in> set as"
    then obtain xs ys where as: "as = xs @ a # ys" by (auto dest: split_list)
    have "chain H a (a # ys)" using c as chain_suffix by blast
    moreover have "chain H a (a # as)" using Cons.prems by auto
    ultimately have "a # ys = a # as" by (rule chain_unique)
    with as show False by simp
  qed
  with c Cons.IH show ?case by simp
qed

lemma chain_head: "chain H head (head # as) \<longleftrightarrow>
    head \<noteq> NULL \<and> (\<exists>n. H head = Some n \<and> chain H (node_next n) as)"
  by (auto split: option.splits)

lemma length_loop_chain:
  "chain H p as \<Longrightarrow> len + int (length as) \<le> INT_MAX \<Longrightarrow> length_loop H p len = Inr (len + int (length as))"
proof (induction as arbitrary: p len)
  case Nil
  then show ?case by (simp add: length_loop.simps)
next
  case (Cons a as)
  then obtain n where "a \<noteq> NULL" "p = a" "H a = Some n" "chain H (node_next n) as"
    by (auto split: option.splits)
  with Cons.IH [of "node_next n" "len + 1"] Cons.prems show ?case
    by (subst length_loop.simps) simp
qed

lemma length_loop_overflow:
  "chain H p as \<Longrightarrow> len \<le> INT_MAX \<Longrightarrow> INT_MAX < len + int (length as) \<Longrightarrow>
   length_loop H p len = Inl SignedOverflow"
proof (induction as arbitrary: p len)
  case Nil
  then show ?case by simp
next
  case (Cons a as)
  then obtain n where "a \<noteq> NULL" "p = a" "H a = Some n" "chain H (node_next n) as"
    by (auto split: option.splits)
  with Cons.IH [of "node_next n" "len + 1"] Cons.prems show ?case
    by (subst length_loop.simps) simp
qed

section \<open>Behaviour of the operations on a represented list\<close>

lemma create_rep: "fresh h p \<Longrightarrow>
    \<exists>h'. create_session_list p h = Inr (p, h') \<and> session_rep h' p [] \<and>
         sessions h' = sessions h \<and> addrs h' = addrs h"
  by (auto simp: create_session_list_def fresh_def session_rep_def intro!: exI [of _ "[]"])

lemma length_rep: "session_rep h head vs \<Longrightarrow> int (length vs) \<le> INT_MAX \<Longrightarrow>
    get_list_length head h = Inr (int (length vs))"
  unfolding session_rep_def get_list_length_def
  by (auto simp: node_values_def chain_head length_loop_chain simp del: chain.simps)

lemma insert_rep:
  assumes "session_rep h head vs" "fresh h p" "v \<noteq> NULL" "sessions h v \<noteq> None" "v \<notin> set vs"
  shows "\<exists>h'. insert_to_session_list p head v h = Inr h' \<and> session_rep h' head (v # vs) \<and>
              sessions h' = sessions h \<and> addrs h' = addrs h"
proof -
  from assms(1) obtain as n where as: "head \<noteq> NULL" "list_nodes h head = Some n"
      "chain (list_nodes h) (node_next n) as" "node_values (list_nodes h) as = vs" "distinct vs"
      "\<forall>v \<in> set vs. v \<noteq> NULL \<and> sessions h v \<noteq> None"
    and ch: "chain (list_nodes h) head (head # as)"
    by (auto simp: session_rep_def chain_head simp del: chain.simps)
  from chain_distinct [OF ch] have hd: "head \<notin> set as" by simp
  from assms(2) have p: "p \<noteq> NULL" "list_nodes h p = None" by (auto simp: fresh_def live_def)
  with as have "p \<noteq> head" "p \<notin> set as" by (auto dest: chain_live)
  with as p hd show ?thesis using assms(3-5)
    by (auto simp: insert_to_session_list_def session_rep_def Let_def intro!: exI [of _ "p # as"])
qed

lemma remove_loop_absent:
  "chain (list_nodes h) p as \<Longrightarrow> v \<notin> set (node_values (list_nodes h) as) \<Longrightarrow>
   remove_loop v q p h = Some (Inr h)"
proof (induction as arbitrary: p q)
  case Nil
  then show ?case by (simp add: remove_loop.simps)
next
  case (Cons a as)
  then show ?case by (subst remove_loop.simps) (auto split: option.splits)
qed

lemma remove_loop_found:
  "chain (list_nodes h) p (as @ b # bs) \<Longrightarrow> v \<notin> set (node_values (list_nodes h) as) \<Longrightarrow>
   list_nodes h b = Some n \<Longrightarrow> node_value n = v \<Longrightarrow>
   remove_loop v q p h = Some (unlink_node (last (q # as)) b n h)"
proof (induction as arbitrary: p q)
  case Nil
  then show ?case by (subst remove_loop.simps) auto
next
  case (Cons a as)
  then show ?case by (subst remove_loop.simps) (auto split: option.splits)
qed

lemma chain_unlink:
  "chain H p (as @ c # b # bs) \<Longrightarrow> H b = Some n \<Longrightarrow> H c = Some m \<Longrightarrow>
   chain (H(c \<mapsto> m\<lparr>node_next := node_next n\<rparr>, b := None)) p (as @ c # bs)"
proof (induction as arbitrary: p)
  case Nil
  from chain_distinct [OF Nil(1)] have "c \<notin> set bs" "b \<notin> set bs" "b \<noteq> c" by auto
  with Nil show ?case by (auto simp del: fun_upd_apply simp: fun_upd_same fun_upd_other)
next
  case (Cons a as)
  from chain_distinct [OF Cons.prems(1)] have "a \<noteq> c" "a \<noteq> b" by auto
  with Cons show ?case by (auto split: option.splits)
qed

lemma node_values_split:
  assumes "v \<in> set (node_values H as)"
  obtains xs b ys where "as = xs @ b # ys" "node_value (the (H b)) = v" "v \<notin> set (node_values H xs)"
proof -
  from assms have "\<exists>a \<in> set as. node_value (the (H a)) = v" by (auto simp: node_values_def)
  then obtain xs b ys where *: "as = xs @ b # ys" "node_value (the (H b)) = v"
      "\<forall>y \<in> set xs. node_value (the (H y)) \<noteq> v"
    using split_list_first_prop [of as "\<lambda>a. node_value (the (H a)) = v"] by blast
  then have "v \<notin> set (node_values H xs)" by (auto simp: node_values_def)
  with * that show thesis by blast
qed

text \<open>The node \<open>b\<close> whose session is \<open>v\<close> is unlinked from its predecessor \<open>last (head # xs)\<close>.\<close>

lemma remove_at:
  assumes ch: "chain (list_nodes h) head (head # xs @ b # ys)"
    and nx: "v \<notin> set (node_values (list_nodes h) xs)"
    and n: "list_nodes h b = Some n" "node_value n = v"
    and s: "v \<noteq> NULL" "sessions h v = Some s"
  shows "\<exists>H. remove_from_list head v h =
               Some (Inr (h\<lparr>list_nodes := H, sessions := (sessions h)(v := None)\<rparr>)) \<and>
             chain H head (head # xs @ ys) \<and> dom H = dom (list_nodes h) - {b} \<and>
             node_values H (xs @ ys) = node_values (list_nodes h) (xs @ ys)"
proof -
  define c where "c = last (head # xs)"
  have hx: "head # xs = butlast (head # xs) @ [c]" by (simp add: c_def)
  then have sp: "head # xs @ zs = butlast (head # xs) @ c # zs" for zs
    by (metis append_Cons append_assoc append_Nil)
  have "c \<in> set (head # xs @ b # ys)" unfolding sp by simp
  then obtain m where m: "list_nodes h c = Some m" "c \<noteq> NULL"
    using chain_live [OF ch] by blast
  from chain_distinct [OF ch] have d: "b \<noteq> c" unfolding sp by auto
  have b0: "b \<noteq> NULL" using chain_live [OF ch, of b] by simp
  let ?H = "(list_nodes h)(c \<mapsto> m\<lparr>node_next := node_next n\<rparr>, b := None)"
  have "remove_from_list head v h = Some (unlink_node c b n h)"
    using remove_loop_found [OF _ nx n] ch
    by (auto simp: remove_from_list_def c_def chain_head simp del: chain.simps)
  also have "unlink_node c b n h = Inr (h\<lparr>list_nodes := ?H, sessions := (sessions h)(v := None)\<rparr>)"
    using m n s b0 d by (simp add: unlink_node_def)
  finally have "remove_from_list head v h =
    Some (Inr (h\<lparr>list_nodes := ?H, sessions := (sessions h)(v := None)\<rparr>))" .
  moreover have "chain ?H head (head # xs @ ys)"
    using chain_unlink [OF _ n(1) m(1)] ch unfolding sp by blast
  moreover have "node_values ?H (xs @ ys) = node_values (list_nodes h) (xs @ ys)"
    using chain_distinct [OF ch] m by (auto simp: node_values_def)
  moreover have "dom ?H = dom (list_nodes h) - {b}" using m(1) by auto
  ultimately show ?thesis by blast
qed

lemma remove_rep:
  assumes rep: "session_rep h head vs" and v: "v \<in> set vs"
  shows "\<exists>h'. remove_from_list head v h = Some (Inr h') \<and> session_rep h' head (remove1 v vs) \<and>
              sessions h' = (sessions h)(v := None) \<and> addrs h' = addrs h \<and>
              (\<exists>b n. list_nodes h b = Some n \<and> node_value n = v \<and>
                     dom (list_nodes h') = dom (list_nodes h) - {b})"
proof -
  from rep obtain as where ch: "chain (list_nodes h) head (head # as)"
    and vs: "node_values (list_nodes h) as = vs" "distinct vs"
    and lv: "\<forall>v \<in> set vs. v \<noteq> NULL \<and> sessions h v \<noteq> None"
    by (auto simp: session_rep_def simp del: chain.simps)
  from v vs(1) obtain xs b ys where as: "as = xs @ b # ys"
    and bv: "node_value (the (list_nodes h b)) = v" and nx: "v \<notin> set (node_values (list_nodes h) xs)"
    using node_values_split by metis
  obtain n where n: "list_nodes h b = Some n" "node_value n = v"
    using chain_live [OF ch, of b] bv as by auto
  from lv v obtain s where "v \<noteq> NULL" "sessions h v = Some s" by blast
  with remove_at ch nx n obtain H where
      H: "remove_from_list head v h = Some (Inr (h\<lparr>list_nodes := H, sessions := (sessions h)(v := None)\<rparr>))"
      "chain H head (head # xs @ ys)" "node_values H (xs @ ys) = node_values (list_nodes h) (xs @ ys)"
      "dom H = dom (list_nodes h) - {b}"
    unfolding as by blast
  have "remove1 v vs = node_values (list_nodes h) (xs @ ys)"
    unfolding vs(1) [symmetric] as using nx n by (simp add: remove1_append)
  with H(3) have "node_values H (xs @ ys) = remove1 v vs" by simp
  moreover have "distinct (remove1 v vs)"
      "\<forall>w \<in> set (remove1 v vs). w \<noteq> NULL \<and> ((sessions h)(v := None)) w \<noteq> None"
    using vs(2) lv by auto
  ultimately have "session_rep (h\<lparr>list_nodes := H, sessions := (sessions h)(v := None)\<rparr>) head (remove1 v vs)"
    unfolding session_rep_def using H(2) by (intro exI [of _ "xs @ ys"]) simp
  with H(1,4) n show ?thesis by auto
qed

lemma remove_absent_rep:
  "session_rep h head vs \<Longrightarrow> v \<notin> set vs \<Longrightarrow> remove_from_list head v h = Some (Inr h)"
  by (auto simp: session_rep_def remove_from_list_def chain_head remove_loop_absent
      simp del: chain.simps)

section \<open>The interface the list offers\<close>

text \<open>
  What a client may rely on: \<open>rep\<close> relates a list to its sessions, newest first; inserting puts a
  session in front, removing takes it out and ends its life, the length is the number of
  sessions, and removing what is not listed changes nothing.
\<close>

locale session_container =
  fixes rep :: "'h \<Rightarrow> ptr \<Rightarrow> ptr list \<Rightarrow> bool"
    and usable :: "'h \<Rightarrow> ptr \<Rightarrow> bool"
    and alive :: "'h \<Rightarrow> ptr \<Rightarrow> bool"
    and ins :: "ptr \<Rightarrow> ptr \<Rightarrow> ptr \<Rightarrow> 'h \<Rightarrow> 'h res"
    and rem :: "ptr \<Rightarrow> ptr \<Rightarrow> 'h \<Rightarrow> 'h res option"
    and len :: "ptr \<Rightarrow> 'h \<Rightarrow> int res"
  assumes ins_law: "rep h l vs \<Longrightarrow> usable h p \<Longrightarrow> alive h v \<Longrightarrow> v \<notin> set vs \<Longrightarrow>
      \<exists>h'. ins p l v h = Inr h' \<and> rep h' l (v # vs) \<and> alive h' = alive h"
    and rem_law: "rep h l vs \<Longrightarrow> v \<in> set vs \<Longrightarrow>
      \<exists>h'. rem l v h = Some (Inr h') \<and> rep h' l (remove1 v vs) \<and> alive h' = (alive h)(v := False)"
    and rem_absent_law: "rep h l vs \<Longrightarrow> v \<notin> set vs \<Longrightarrow> rem l v h = Some (Inr h)"
    and len_law: "rep h l vs \<Longrightarrow> int (length vs) \<le> INT_MAX \<Longrightarrow> len l h = Inr (int (length vs))"
begin

lemma ins_rem_cancels:
  assumes "rep h l vs" "usable h p" "alive h v" "v \<notin> set vs"
  shows "\<exists>h1 h2. ins p l v h = Inr h1 \<and> rem l v h1 = Some (Inr h2) \<and> rep h2 l vs \<and>
                 alive h2 = (alive h)(v := False)"
proof -
  from ins_law [OF assms] obtain h1 where h1: "ins p l v h = Inr h1" "rep h1 l (v # vs)"
      "alive h1 = alive h" by blast
  from rem_law [OF h1(2), of v] obtain h2 where
      "rem l v h1 = Some (Inr h2)" "rep h2 l vs" "alive h2 = (alive h1)(v := False)"
    by auto
  with h1 show ?thesis by auto
qed

text \<open>
  A session may be removed at most once: when \<open>rem\<close> ended its life and \<open>rep\<close> only lists live
  sessions, a second \<open>rem\<close> finds nothing and leaves the heap alone.
\<close>

lemma rem_idempotent:
  assumes "rep h l vs" "distinct vs" "rem l v h = Some (Inr h1)"
  shows "rem l v h1 = Some (Inr h1)"
proof (cases "v \<in> set vs")
  case True
  with rem_law [OF assms(1)] assms(3) have "rep h1 l (remove1 v vs)" by fastforce
  then show ?thesis by (rule rem_absent_law) (use assms(2) in simp)
next
  case False
  with rem_absent_law assms show ?thesis by fastforce
qed

lemma len_after_ins:
  assumes "rep h l vs" "usable h p" "alive h v" "v \<notin> set vs" "int (length vs) < INT_MAX"
    and "ins p l v h = Inr h1"
  shows "len l h1 = Inr (int (length vs) + 1)"
  using ins_law [OF assms(1-4)] len_law [of h1 l "v # vs"] assms(5,6) by auto

end

definition session_alive :: "heap \<Rightarrow> ptr \<Rightarrow> bool" where
  "session_alive h v \<longleftrightarrow> v \<noteq> NULL \<and> sessions h v \<noteq> None"

interpretation sl: session_container session_rep fresh session_alive
  insert_to_session_list remove_from_list get_list_length
proof unfold_locales
  fix h l vs p v
  assume "session_rep h l vs" "fresh h p" "session_alive h v" "v \<notin> set vs"
  then show "\<exists>h'. insert_to_session_list p l v h = Inr h' \<and> session_rep h' l (v # vs) \<and>
      session_alive h' = session_alive h"
    using insert_rep [of h l vs p v] by (auto simp: session_alive_def [abs_def])
next
  fix h l vs v
  assume *: "session_rep h l vs" "v \<in> set vs"
  then show "\<exists>h'. remove_from_list l v h = Some (Inr h') \<and> session_rep h' l (remove1 v vs) \<and>
      session_alive h' = (session_alive h)(v := False)"
    using remove_rep [of h l vs v] by (force simp: session_alive_def [abs_def] fun_eq_iff)
qed (simp_all add: remove_absent_rep length_rep)

lemma session_rep_distinct: "session_rep h head vs \<Longrightarrow> distinct vs"
  by (auto simp: session_rep_def)

section \<open>The unit test of the list\<close>

text \<open>
  \<open>TEST(list_test, operate_list)\<close>: the outcomes of its three \<open>ASSERT_EQ\<close>s. An assertion that
  fails returns from the test. \<open>p1\<close>, \<open>p2\<close>, \<open>p3\<close> are the addresses \<open>malloc\<close> returns for the list,
  the session and the node; \<open>s0\<close> is the indeterminate content of the session.
\<close>

definition operate_list_test :: "ptr \<Rightarrow> ptr \<Rightarrow> ptr \<Rightarrow> session \<Rightarrow> heap \<Rightarrow> bool list res option" where
  "operate_list_test p1 p2 p3 s0 h =
     (case create_session_list p1 h of
        Inl e \<Rightarrow> Some (Inl e)
      | Inr (plist, h1) \<Rightarrow> (case get_list_length plist h1 of
          Inl e \<Rightarrow> Some (Inl e)
        | Inr n0 \<Rightarrow> if n0 \<noteq> 0 then Some (Inr [False]) else
          let h2 = (if p2 = NULL then h1 else h1\<lparr>sessions := (sessions h1)(p2 \<mapsto> s0)\<rparr>) in
          (case insert_to_session_list p3 plist p2 h2 of
             Inl e \<Rightarrow> Some (Inl e)
           | Inr h3 \<Rightarrow> (case get_list_length plist h3 of
               Inl e \<Rightarrow> Some (Inl e)
             | Inr n1 \<Rightarrow> if n1 \<noteq> 1 then Some (Inr [True, False]) else
               (case remove_from_list plist p2 h3 of
                  None \<Rightarrow> None
                | Some (Inl e) \<Rightarrow> Some (Inl e)
                | Some (Inr h4) \<Rightarrow> (case get_list_length plist h4 of
                    Inl e \<Rightarrow> Some (Inl e)
                  | Inr n2 \<Rightarrow> Some (Inr [True, True, n2 = 0])))))))"

definition create_session_list_test :: "ptr \<Rightarrow> heap \<Rightarrow> bool list res" where
  "create_session_list_test p h =
     bindr (create_session_list p h) (\<lambda>(plist, h1).
     bindr (deref (list_nodes h1) plist) (\<lambda>n.
       Inr [plist \<noteq> NULL, node_next n = NULL, node_value n = NULL]))"

section \<open>Histories of operations\<close>

datatype list_op = Insert ptr ptr | Remove ptr

fun run_ops :: "list_op list \<Rightarrow> ptr \<Rightarrow> heap \<Rightarrow> heap res option" where
  "run_ops [] head h = Some (Inr h)"
| "run_ops (Insert p v # ops) head h = (case insert_to_session_list p head v h of
     Inl e \<Rightarrow> Some (Inl e) | Inr h' \<Rightarrow> run_ops ops head h')"
| "run_ops (Remove v # ops) head h = (case remove_from_list head v h of
     None \<Rightarrow> None | Some (Inl e) \<Rightarrow> Some (Inl e) | Some (Inr h') \<Rightarrow> run_ops ops head h')"

text \<open>The specification: a stack of sessions from which any one may be taken out.\<close>

fun abs_ops :: "list_op list \<Rightarrow> ptr list \<Rightarrow> ptr list" where
  "abs_ops [] vs = vs"
| "abs_ops (Insert p v # ops) vs = abs_ops ops (v # vs)"
| "abs_ops (Remove v # ops) vs = abs_ops ops (remove1 v vs)"

text \<open>
  The caller's side: \<open>malloc\<close> succeeds in every insertion, and only a live session that is not
  already listed is inserted.
\<close>

fun ops_ok :: "list_op list \<Rightarrow> ptr \<Rightarrow> heap \<Rightarrow> ptr list \<Rightarrow> bool" where
  "ops_ok [] head h vs \<longleftrightarrow> True"
| "ops_ok (Insert p v # ops) head h vs \<longleftrightarrow> fresh h p \<and> session_alive h v \<and> v \<notin> set vs \<and>
     (case insert_to_session_list p head v h of Inl e \<Rightarrow> True | Inr h' \<Rightarrow> ops_ok ops head h' (v # vs))"
| "ops_ok (Remove v # ops) head h vs \<longleftrightarrow> (case remove_from_list head v h of
     Some (Inr h') \<Rightarrow> ops_ok ops head h' (remove1 v vs) | _ \<Rightarrow> True)"

lemma remove_any_rep: "session_rep h head vs \<Longrightarrow>
    \<exists>h'. remove_from_list head v h = Some (Inr h') \<and> session_rep h' head (remove1 v vs)"
  using remove_rep [of h head vs v] remove_absent_rep [of h head vs v]
  by (cases "v \<in> set vs") (auto simp: remove1_idem)

lemma run_ops_rep: "session_rep h head vs \<Longrightarrow> ops_ok ops head h vs \<Longrightarrow>
    \<exists>h'. run_ops ops head h = Some (Inr h') \<and> session_rep h' head (abs_ops ops vs)"
proof (induction ops arbitrary: h vs)
  case Nil
  then show ?case by simp
next
  case (Cons x ops)
  show ?case
  proof (cases x)
    case (Insert p v)
    with Cons.prems sl.ins_law [of h head vs p v] show ?thesis by (auto intro: Cons.IH)
  next
    case (Remove v)
    with Cons.prems remove_any_rep [of h head vs v] show ?thesis by (auto intro: Cons.IH)
  qed
qed

section \<open>Properties\<close>

text \<open>C3: from the heap of a list that holds the sessions \<open>vs\<close>, every history of insertions and
  removals that satisfies the caller's side \<open>ops_ok\<close> (at each insertion \<open>malloc\<close> has delivered a fresh
  node, and the session inserted is allocated and not in the list at that moment; removals are
  unrestricted) runs to its end without a fault, and the list then holds exactly what the
  specification stack holds: the heap code refines the functional stack.\<close>

theorem list_history_refines:
  assumes "session_rep h head vs" and "ops_ok ops head h vs"
  shows "\<exists>h'. run_ops ops head h = Some (Inr h') \<and> session_rep h' head (abs_ops ops vs)"
  using assms by (rule run_ops_rep)

definition demo_session :: session where
  "demo_session = \<lparr>sock_fd = 5, pFile = 0, cli_addr = 0, cli_addr_len = 16\<rparr>"

definition demo_heap :: heap where
  "demo_heap = \<lparr>list_nodes = [1 \<mapsto> \<lparr>node_value = 0, node_next = 0\<rparr>],
                sessions = [7 \<mapsto> demo_session, 8 \<mapsto> demo_session], addrs = Map.empty\<rparr>"

lemma demo_heap_rep: "session_rep demo_heap 1 []"
  by (auto simp: session_rep_def demo_heap_def intro!: exI [of _ "[]"])

lemmas list_eval = demo_heap_def fresh_def live_def session_alive_def insert_to_session_list_def
  remove_from_list_def remove_loop.simps unlink_node_def deref_def free_at_def Let_def

theorem list_history_refines_witness:
  "\<exists>h'. run_ops [Insert 2 7, Insert 3 8, Remove 7] 1 demo_heap = Some (Inr h') \<and> session_rep h' 1 [8]"
proof -
  have "ops_ok [Insert 2 7, Insert 3 8, Remove 7] 1 demo_heap []"
    by (simp add: list_eval)
  from list_history_refines [OF demo_heap_rep this] show ?thesis by simp
qed

text \<open>C10: removing a listed session returns, leaves the other sessions in their order, frees
  exactly that session and the one node that held it, and leaves every client address block
  allocated, the removed session's included.\<close>

theorem remove_frees_exactly:
  assumes "session_rep h head vs" and "v \<in> set vs"
  shows "\<exists>h'. remove_from_list head v h = Some (Inr h') \<and> session_rep h' head (remove1 v vs) \<and>
              sessions h' = (sessions h)(v := None) \<and> addrs h' = addrs h \<and>
              (\<exists>b n. list_nodes h b = Some n \<and> node_value n = v \<and>
                     dom (list_nodes h') = dom (list_nodes h) - {b})"
  using assms by (rule remove_rep)

definition demo_heap2 :: heap where
  "demo_heap2 = \<lparr>list_nodes = [1 \<mapsto> \<lparr>node_value = 0, node_next = 2\<rparr>,
      2 \<mapsto> \<lparr>node_value = 7, node_next = 0\<rparr>], sessions = [7 \<mapsto> demo_session], addrs = [9 \<mapsto> [2, 0]]\<rparr>"

lemma demo_heap2_rep: "session_rep demo_heap2 1 [7]"
  by (auto simp: session_rep_def demo_heap2_def intro!: exI [of _ "[2]"])

theorem remove_frees_exactly_witness:
  "\<exists>h'. remove_from_list 1 7 demo_heap2 = Some (Inr h') \<and> session_rep h' 1 [] \<and>
        sessions h' = (sessions demo_heap2)(7 := None) \<and> addrs h' = addrs demo_heap2"
  using remove_frees_exactly [OF demo_heap2_rep, of 7] by auto

text \<open>On a null-terminated list, of any length, \<open>get_list_length\<close> returns: the number of
  nodes after the head when an \<open>int\<close> can hold it, and otherwise it runs into the overflow of its
  \<open>int\<close> counter.\<close>

theorem get_list_length_counts:
  assumes "chain (list_nodes h) head (head # as)"
  shows "get_list_length head h =
    (if int (length as) \<le> INT_MAX then Inr (int (length as)) else Inl SignedOverflow)"
proof -
  from assms obtain n where "head \<noteq> NULL" "list_nodes h head = Some n"
    and c: "chain (list_nodes h) (node_next n) as" by (auto simp: chain_head simp del: chain.simps)
  then show ?thesis
    using length_loop_chain [OF c, of 0] length_loop_overflow [OF c, of 0]
    by (simp add: get_list_length_def INT_MAX_def)
qed

theorem get_list_length_counts_witness: "get_list_length 1 demo_heap2 = Inr 1"
proof -
  have "chain (list_nodes demo_heap2) 1 [1, 2]" by (simp add: demo_heap2_def)
  from get_list_length_counts [OF this] show ?thesis by (simp add: INT_MAX_def)
qed

text \<open>The unit test \<open>operate_list\<close> passes whatever distinct unused addresses \<open>malloc\<close> hands
  out: none of its calls faults and each of its three assertions holds.\<close>

theorem operate_list_test_passes:
  assumes "fresh h p1" "fresh h p2" "fresh h p3" "distinct [p1, p2, p3]"
  shows "operate_list_test p1 p2 p3 s0 h = Some (Inr [True, True, True])"
proof -
  from create_rep [OF assms(1)] obtain h1 where h1: "create_session_list p1 h = Inr (p1, h1)"
      "session_rep h1 p1 []" by blast
  have h1d: "h1 = h\<lparr>list_nodes := (list_nodes h)(p1 \<mapsto> \<lparr>node_value = NULL, node_next = NULL\<rparr>)\<rparr>"
    using h1(1) assms(1) by (auto simp: create_session_list_def fresh_def)
  let ?h2 = "h1\<lparr>sessions := (sessions h1)(p2 \<mapsto> s0)\<rparr>"
  have r2: "session_rep ?h2 p1 []" using h1(2) by (simp add: session_rep_def)
  have "fresh ?h2 p3" "session_alive ?h2 p2"
    using assms by (auto simp: h1d fresh_def live_def session_alive_def)
  from sl.ins_rem_cancels [OF r2 this] sl.ins_law [OF r2 this]
  obtain h3 h4 where "insert_to_session_list p3 p1 p2 ?h2 = Inr h3" "session_rep h3 p1 [p2]"
      "remove_from_list p1 p2 h3 = Some (Inr h4)" "session_rep h4 p1 []" by auto
  with h1 assms(2) show ?thesis
    using length_rep [of h1 p1 "[]"] length_rep [of h3 p1 "[p2]"] length_rep [of h4 p1 "[]"]
    by (simp add: operate_list_test_def Let_def fresh_def INT_MAX_def)
qed

theorem operate_list_test_passes_witness:
  "operate_list_test 10 11 12 demo_session demo_heap = Some (Inr [True, True, True])"
  by (rule operate_list_test_passes) (simp_all add: list_eval)

end
