(* ===== verification/Tftp_Server.thy ===== *)
theory Tftp_Server
  imports Session_List
begin

text \<open>
  The TFTP server (\<open>tftp/tftp_server.c\<close>). The global \<open>file\<close>, the open streams, the heap of
  sessions, what was printed and the state of the outside world form the server's state; the
  system calls are the functions of a record \<open>tftp_os\<close> on a world of any type, so a theorem
  holds for every behaviour of the system that its hypotheses allow. C's own library (\<open>fread\<close>,
  \<open>fseek\<close>, \<open>fclose\<close>, \<open>memcpy\<close>, \<open>malloc\<close>'s result as NULL or an address) is modelled.
\<close>

unbundle bit_operations_syntax

section \<open>Data\<close>

definition RRQ :: short where "RRQ = 1"
definition WRQ :: short where "WRQ = 2"
definition DATA :: short where "DATA = 3"
definition ACK :: short where "ACK = 4"
definition ERROR :: short where "ERROR = 5"

lemmas opcode_defs = RRQ_def WRQ_def DATA_def ACK_def ERROR_def

record FILE =
  f_content :: "byte list"
  f_pos :: nat

datatype log_msg =
    RRQ_file_log "byte list" nat
  | RRQ_mode_log "byte list"
  | Open_error_log "byte list" "byte list"
  | Fclose_log
  | Data_log int
  | Ack_log int
  | Error_log nat "byte list"
  | Unknown_req_log nat
  | Warning_req_log nat

text \<open>
  \<open>os_fopen\<close> yields the address of the new stream and the content of the file (NULL when the
  open fails); \<open>os_recvfrom\<close> the returned length, the datagram and the sender's address;
  \<open>os_epoll_wait\<close> the returned count and the \<open>data.fd\<close> of the reported events.
\<close>

record 'w tftp_os =
  os_fopen :: "byte list \<Rightarrow> 'w \<Rightarrow> (ptr \<times> byte list) \<times> 'w"
  os_getcwd :: "'w \<Rightarrow> byte list \<times> 'w"
  os_malloc :: "nat \<Rightarrow> 'w \<Rightarrow> ptr \<times> 'w"
  os_socket :: "'w \<Rightarrow> int \<times> 'w"
  os_bind :: "int \<Rightarrow> nat \<Rightarrow> 'w \<Rightarrow> int \<times> 'w"
  os_sendto :: "int \<Rightarrow> byte list \<Rightarrow> byte list \<Rightarrow> 'w \<Rightarrow> int \<times> 'w"
  os_recvfrom :: "int \<Rightarrow> nat \<Rightarrow> 'w \<Rightarrow> (int \<times> byte list \<times> byte list) \<times> 'w"
  os_epoll_create1 :: "'w \<Rightarrow> int \<times> 'w"
  os_epoll_ctl_add :: "int \<Rightarrow> int \<Rightarrow> int \<Rightarrow> 'w \<Rightarrow> int \<times> 'w"
  os_epoll_wait :: "int \<Rightarrow> nat \<Rightarrow> 'w \<Rightarrow> (int \<times> int list) \<times> 'w"

record 'w server =
  file_g :: ptr
  streams :: "ptr \<rightharpoonup> FILE"
  mem :: heap
  log :: "log_msg list"
  world :: 'w

definition put_log :: "log_msg \<Rightarrow> 'w server \<Rightarrow> 'w server" where
  "put_log m s = s\<lparr>log := log s @ [m]\<rparr>"

section \<open>Streams\<close>

definition fread :: "(ptr \<rightharpoonup> FILE) \<Rightarrow> ptr \<Rightarrow> nat \<Rightarrow> (byte list \<times> (ptr \<rightharpoonup> FILE)) res" where
  "fread S p n = bindr (deref S p) (\<lambda>f.
     let d = take n (drop (f_pos f) (f_content f))
     in Inr (d, S(p \<mapsto> f\<lparr>f_pos := f_pos f + length d\<rparr>)))"

text \<open>\<open>fseek(file, off, SEEK_SET)\<close> fails without moving on a negative offset.\<close>

definition fseek_set :: "(ptr \<rightharpoonup> FILE) \<Rightarrow> ptr \<Rightarrow> int \<Rightarrow> (ptr \<rightharpoonup> FILE) res" where
  "fseek_set S p off = bindr (deref S p) (\<lambda>f.
     Inr (if off < 0 then S else S(p \<mapsto> f\<lparr>f_pos := nat off\<rparr>)))"

section \<open>Building a data packet\<close>

text \<open>The error reply is a stub: it sends nothing.\<close>

definition send_error :: "int \<Rightarrow> byte list \<Rightarrow> 'w server \<Rightarrow> 'w server" where
  "send_error error_code error_msg s = s"

definition make_data :: "byte list \<Rightarrow> short \<Rightarrow> byte list \<Rightarrow> nat \<Rightarrow> (byte list \<times> nat) res" where
  "make_data dst_buf block src_data_buf data_len =
     bindr (memcpy_at dst_buf 0 (short_bytes (htons DATA))) (\<lambda>d1.
     bindr (memcpy_at d1 2 (short_bytes (htons block))) (\<lambda>d2.
     if length src_data_buf < data_len then Inl OutOfBounds
     else bindr (memcpy_at d2 4 (take data_len src_data_buf)) (\<lambda>d3. Inr (d3, 4 + data_len))))"

section \<open>Sessions\<close>

definition sizeof_SESSION :: nat where "sizeof_SESSION = 32"

definition create_new_session ::
  "'w tftp_os \<Rightarrow> ptr \<Rightarrow> byte list \<Rightarrow> nat \<Rightarrow> 'w server \<Rightarrow> (ptr \<times> 'w server) res" where
  "create_new_session os f addr addr_len s =
     (let (sess, w1) = os_malloc os sizeof_SESSION (world s) in
      if sess = NULL then Inl NullDeref else
      let (fd, w2) = os_socket os w1; (a, w3) = os_malloc os addr_len w2 in
      if a = NULL then Inl NullDeref
      else if length addr < addr_len then Inl OutOfBounds
      else Inr (sess, s\<lparr>world := w3, mem := (mem s)\<lparr>
             addrs := (addrs (mem s))(a \<mapsto> take addr_len addr),
             sessions := (sessions (mem s))(sess \<mapsto>
               \<lparr>sock_fd = fd, pFile = f, cli_addr = a, cli_addr_len = int addr_len\<rparr>)\<rparr>\<rparr>))"

definition free_session :: "ptr \<Rightarrow> heap \<Rightarrow> heap res" where
  "free_session sess h =
     (if sess = NULL then Inr h
      else bindr (deref (sessions h) sess) (\<lambda>x.
           bindr (free_at (addrs h) (cli_addr x)) (\<lambda>A.
           bindr (free_at (sessions h) sess) (\<lambda>S. Inr (h\<lparr>addrs := A, sessions := S\<rparr>)))))"

section \<open>Requests\<close>

text \<open>\<open>while (*pIndex != 0) *pDst++ = *pIndex++;\<close> over bounded arrays.\<close>

function copy_cstr :: "byte list \<Rightarrow> nat \<Rightarrow> byte list \<Rightarrow> nat \<Rightarrow> (nat \<times> byte list) res" where
  "copy_cstr b i dst j =
     (if i \<ge> length b then Inl OutOfBounds
      else if b ! i = 0 then Inr (i, dst)
      else if j \<ge> length dst then Inl OutOfBounds
      else copy_cstr b (i + 1) (dst[j := b ! i]) (j + 1))"
  by pat_completeness auto
termination
  by (relation "measure (\<lambda>(b, i, dst, j). length b - i)") auto

declare copy_cstr.simps [simp del]

definition cstr :: "byte list \<Rightarrow> byte list" where
  "cstr b = takeWhile (\<lambda>x. x \<noteq> 0) b"

definition handle_WRQ :: "byte list \<Rightarrow> int" where
  "handle_WRQ in_buf = 0"

definition zeros :: "nat \<Rightarrow> byte list" where "zeros n = replicate n 0"

text \<open>Reading a block into the zeroed 512-byte \<open>buf\<close>.\<close>

definition read_block :: "ptr \<Rightarrow> 'w server \<Rightarrow> (byte list \<times> nat \<times> 'w server) res" where
  "read_block p s = bindr (fread (streams s) p 512) (\<lambda>(d, S).
     Inr (d @ zeros (512 - length d), length d, s\<lparr>streams := S\<rparr>))"

text \<open>The two strings of a read request and the two lines printed about them.\<close>

definition parse_RRQ :: "byte list \<Rightarrow> 'w server \<Rightarrow> (byte list \<times> 'w server) res" where
  "parse_RRQ in_buf s =
     bindr (copy_cstr in_buf 2 (zeros 512) 0) (\<lambda>(i, file_name).
     bindr (copy_cstr in_buf (i + 1) (zeros 512) 0) (\<lambda>(_, mode).
       Inr (cstr file_name, put_log (RRQ_mode_log (cstr mode))
              (put_log (RRQ_file_log (cstr file_name) (length (cstr file_name))) s))))"

text \<open>The answer to a read request once \<open>file\<close> is open: first block, session, send.\<close>

definition answer_RRQ :: "'w tftp_os \<Rightarrow> byte list \<Rightarrow> nat \<Rightarrow> 'w server \<Rightarrow> (ptr \<times> 'w server) res" where
  "answer_RRQ os addr addr_len s =
     bindr (read_block (file_g s) s) (\<lambda>(buf, read_len, s1).
     bindr (make_data (zeros 512) 1 buf read_len) (\<lambda>(out_buf, len).
     bindr (create_new_session os (file_g s1) addr addr_len s1) (\<lambda>(sess, s2).
     bindr (deref (sessions (mem s2)) sess) (\<lambda>x.
     bindr (deref (addrs (mem s2)) (cli_addr x)) (\<lambda>a.
       let (r, w) = os_sendto os (sock_fd x) (take len out_buf) a (world s2)
       in Inr (sess, s2\<lparr>world := w\<rparr>))))))"

definition handle_RRQ ::
  "'w tftp_os \<Rightarrow> byte list \<Rightarrow> nat \<Rightarrow> byte list \<Rightarrow> 'w server \<Rightarrow> (ptr \<times> 'w server) res" where
  "handle_RRQ os addr addr_len in_buf s =
     bindr (parse_RRQ in_buf s) (\<lambda>(file_name, s1).
       let ((p, content), w1) = os_fopen os file_name (world s1);
           s2 = s1\<lparr>file_g := p, world := w1\<rparr>
       in if p = NULL then
            let (path, w2) = os_getcwd os w1
            in Inr (NULL, put_log (Open_error_log file_name path) (s2\<lparr>world := w2\<rparr>))
          else answer_RRQ os addr addr_len
                 (s2\<lparr>streams := (streams s2)(p \<mapsto> \<lparr>f_content = content, f_pos = 0\<rparr>)\<rparr>))"

definition handle_new_connection ::
  "'w tftp_os \<Rightarrow> byte list \<Rightarrow> nat \<Rightarrow> byte list \<Rightarrow> 'w server \<Rightarrow> (ptr \<times> 'w server) res" where
  "handle_new_connection os addr addr_len in_buf s =
     bindr (short_at in_buf 0) (\<lambda>w. let req = ntohs w in
       if req = RRQ then
         bindr (handle_RRQ os addr addr_len in_buf s) (\<lambda>(sess, s1).
           let _ = handle_WRQ in_buf in Inr (sess, s1))
       else if req = WRQ then let _ = handle_WRQ in_buf in Inr (NULL, s)
       else Inr (NULL, put_log (Warning_req_log (unat req)) s))"

definition handle_ACK ::
  "byte list \<Rightarrow> byte list \<Rightarrow> 'w server \<Rightarrow> (byte list \<times> nat \<times> 'w server) res" where
  "handle_ACK in_buf out_buf s =
     (if file_g s = NULL then Inr (out_buf, 0, s)
      else bindr (short_at in_buf 2) (\<lambda>w. let block = ntohs w in
           bindr (fseek_set (streams s) (file_g s) (512 * sint block)) (\<lambda>S.
           bindr (read_block (file_g s) (s\<lparr>streams := S\<rparr>)) (\<lambda>(buf, read_len, s1).
             let s2 = (if read_len < 512
                       then (put_log Fclose_log s1)\<lparr>streams := (streams s1)(file_g s1 := None), file_g := NULL\<rparr>
                       else s1)
             in bindr (make_data out_buf (block + 1) buf read_len) (\<lambda>(out, len). Inr (out, len, s2))))))"

text \<open>The two-byte integer and the string that the log lines of \<open>handle_req\<close> print.\<close>

definition logged_short :: "byte list \<Rightarrow> short res" where
  "logged_short in_buf = bindr (short_at in_buf 1) (\<lambda>w. Inr (htons w))"

definition logged_string :: "byte list \<Rightarrow> byte list res" where
  "logged_string in_buf = (if 0 \<in> set (drop 3 in_buf) then Inr (cstr (drop 3 in_buf)) else Inl OutOfBounds)"

definition handle_req ::
  "byte list \<Rightarrow> byte list \<Rightarrow> 'w server \<Rightarrow> (byte list \<times> nat \<times> 'w server) res" where
  "handle_req in_buf out_buf s =
     bindr (short_at in_buf 0) (\<lambda>w. let req = ntohs w in
       if req = DATA then
         bindr (logged_short in_buf) (\<lambda>seq. Inr (out_buf, 0, put_log (Data_log (sint seq)) s))
       else if req = ACK then
         bindr (logged_short in_buf) (\<lambda>seq.
         bindr (handle_ACK in_buf out_buf s) (\<lambda>(out, index, s1).
           Inr (out, index, put_log (Ack_log (sint seq)) s1)))
       else if req = ERROR then
         bindr (logged_short in_buf) (\<lambda>errcode.
         bindr (logged_string in_buf) (\<lambda>msg.
           Inr (out_buf, 0, put_log (Error_log (unat errcode) msg) s)))
       else Inr (out_buf, 0, put_log (Unknown_req_log (unat req)) s))"

section \<open>The main program\<close>

record 'w main_state =
  in_buf :: "byte list"
  cliaddr :: "byte list"
  cli_len :: nat
  srv :: "'w server"

text \<open>Socket, bind, epoll instance and registration, each failure an exit.\<close>

definition main_setup :: "'w tftp_os \<Rightarrow> 'w \<Rightarrow> ((int \<times> int) \<times> 'w) res" where
  "main_setup os w =
     (let (serverfd, w1) = os_socket os w in
      if serverfd < 0 then Inl (Exit 1) else
      let (b, w2) = os_bind os serverfd 69 w1 in
      if b < 0 then Inl (Exit 1) else
      let (epollfd, w3) = os_epoll_create1 os w2 in
      if epollfd = -1 then Inl (Exit 1) else
      let (c, w4) = os_epoll_ctl_add os epollfd serverfd serverfd w3 in
      if c \<noteq> 0 then Inl (Exit 1) else Inr ((serverfd, epollfd), w4))"

text \<open>\<open>recvfrom\<close> into \<open>in_buf\<close>: the bytes beyond the datagram keep their old content.\<close>

definition receive :: "'w tftp_os \<Rightarrow> int \<Rightarrow> 'w main_state \<Rightarrow> 'w main_state" where
  "receive os serverfd m =
     (let ((n, d, a), w) = os_recvfrom os serverfd (length (in_buf m)) (world (srv m));
          m1 = m\<lparr>srv := (srv m)\<lparr>world := w\<rparr>\<rparr>
      in if n < 0 then m1
         else let k = min (nat n) (length (in_buf m))
              in m1\<lparr>in_buf := take k d @ drop (length (take k d)) (in_buf m),
                    cliaddr := a, cli_len := length a\<rparr>)"

definition serve_event :: "'w tftp_os \<Rightarrow> int \<Rightarrow> int \<Rightarrow> int \<Rightarrow> 'w main_state \<Rightarrow> 'w main_state res" where
  "serve_event os serverfd epollfd fd m =
     (if fd \<noteq> serverfd then Inr m
      else let m1 = receive os serverfd m in
        bindr (handle_new_connection os (cliaddr m1) (cli_len m1) (in_buf m1) (srv m1)) (\<lambda>(sess, s).
          if sess = NULL then Inr (m1\<lparr>srv := s\<rparr>)
          else bindr (deref (sessions (mem s)) sess) (\<lambda>x.
            let (c, w) = os_epoll_ctl_add os epollfd serverfd (sock_fd x) (world s)
            in if c \<noteq> 0 then Inl (Exit 1) else Inr (m1\<lparr>srv := s\<lparr>world := w\<rparr>\<rparr>))))"

fun serve_events :: "'w tftp_os \<Rightarrow> int \<Rightarrow> int \<Rightarrow> int list \<Rightarrow> 'w main_state \<Rightarrow> 'w main_state res" where
  "serve_events os serverfd epollfd [] m = Inr m"
| "serve_events os serverfd epollfd (fd # fds) m =
     bindr (serve_event os serverfd epollfd fd m) (serve_events os serverfd epollfd fds)"

definition main_iteration :: "'w tftp_os \<Rightarrow> int \<Rightarrow> int \<Rightarrow> 'w main_state \<Rightarrow> 'w main_state res" where
  "main_iteration os serverfd epollfd m =
     (let ((nfds, evs), w) = os_epoll_wait os epollfd 10 (world (srv m)) in
      if nfds = -1 then Inl (Exit 1)
      else serve_events os serverfd epollfd (take (nat nfds) evs) (m\<lparr>srv := (srv m)\<lparr>world := w\<rparr>\<rparr>))"

text \<open>The endless loop, cut after \<open>n\<close> iterations.\<close>

fun main_loop :: "nat \<Rightarrow> 'w tftp_os \<Rightarrow> int \<Rightarrow> int \<Rightarrow> 'w main_state \<Rightarrow> 'w main_state res" where
  "main_loop 0 os serverfd epollfd m = Inr m"
| "main_loop (Suc n) os serverfd epollfd m =
     bindr (main_iteration os serverfd epollfd m) (main_loop n os serverfd epollfd)"

section \<open>Copying strings out of the request\<close>

lemma cstr_length: "length (cstr b) \<le> length b"
  by (simp add: cstr_def length_takeWhile_le)

lemma copy_cstr_spec:
  assumes "i \<le> length b" "j \<le> length dst"
  shows "copy_cstr b i dst j =
    (if i + length (cstr (drop i b)) < length b \<and> j + length (cstr (drop i b)) \<le> length dst
     then Inr (i + length (cstr (drop i b)),
               take j dst @ cstr (drop i b) @ drop (j + length (cstr (drop i b))) dst)
     else Inl OutOfBounds)"
    (is "_ = ?R i dst j")
  using assms
proof (induction b i dst j rule: copy_cstr.induct)
  case (1 b i dst j)
  show ?case
  proof (cases "i < length b \<and> b ! i \<noteq> 0 \<and> j < length dst")
    case True
    then have d: "cstr (drop i b) = b ! i # cstr (drop (i + 1) b)"
      by (simp add: cstr_def flip: Cons_nth_drop_Suc)
    have "copy_cstr b i dst j = copy_cstr b (i + 1) (dst[j := b ! i]) (j + 1)"
      using True by (subst copy_cstr.simps) simp
    with "1.IH" True show ?thesis
      by (simp add: d take_Suc_conv_app_nth add.assoc)
  next
    case False
    then consider "i = length b" | "i < length b" "b ! i = 0"
      | "i < length b" "b ! i \<noteq> 0" "length dst \<le> j"
      using "1.prems" by linarith
    then show ?thesis
      using "1.prems" by cases (subst copy_cstr.simps, simp add: cstr_def flip: Cons_nth_drop_Suc)+
  qed
qed

lemma cstr_nonzero: "x \<in> set (cstr b) \<Longrightarrow> x \<noteq> 0"
  by (auto simp: cstr_def dest: set_takeWhileD)

lemma cstr_pad [simp]: "(\<And>x. x \<in> set d \<Longrightarrow> x \<noteq> 0) \<Longrightarrow> cstr (d @ zeros n) = d"
  by (induction d) (auto simp: cstr_def zeros_def)

lemma length_zeros [simp]: "length (zeros n) = n"
  by (simp add: zeros_def)

lemma drop_zeros [simp]: "drop k (zeros n) = zeros (n - k)"
  by (simp add: zeros_def)

text \<open>
  The strings a request carries: the file name starts at offset 2 and ends at a NUL inside the
  512-byte buffer, the mode starts after that NUL and ends at another.
\<close>

definition rrq_name :: "byte list \<Rightarrow> byte list" where
  "rrq_name b = cstr (drop 2 b)"

definition rrq_mode :: "byte list \<Rightarrow> byte list" where
  "rrq_mode b = cstr (drop (3 + length (rrq_name b)) b)"

definition rrq_terminated :: "byte list \<Rightarrow> bool" where
  "rrq_terminated b \<longleftrightarrow> 3 + length (rrq_name b) + length (rrq_mode b) < length b"

definition log_RRQ :: "byte list \<Rightarrow> 'w server \<Rightarrow> 'w server" where
  "log_RRQ b s = put_log (RRQ_mode_log (rrq_mode b))
     (put_log (RRQ_file_log (rrq_name b) (length (rrq_name b))) s)"

lemma parse_RRQ_spec:
  assumes len: "length b = 512"
  shows "parse_RRQ b s =
    (if rrq_terminated b then Inr (rrq_name b, log_RRQ b s) else Inl OutOfBounds)"
proof (cases "2 + length (rrq_name b) < 512")
  case True
  have cp: "copy_cstr b 2 (zeros 512) 0 =
      Inr (2 + length (rrq_name b), rrq_name b @ zeros (512 - length (rrq_name b)))"
    using True len by (subst copy_cstr_spec) (auto simp: rrq_name_def)
  have dr: "3 + length (rrq_name b) \<le> 512" using True by simp
  have cm: "copy_cstr b (3 + length (rrq_name b)) (zeros 512) 0 =
      (if rrq_terminated b
       then Inr (3 + length (rrq_name b) + length (rrq_mode b), rrq_mode b @ zeros (512 - length (rrq_mode b)))
       else Inl OutOfBounds)"
    using dr len by (subst copy_cstr_spec) (auto simp: rrq_mode_def rrq_terminated_def)
  have cm': "copy_cstr b (Suc (Suc (Suc (length (rrq_name b))))) (zeros 512) 0 =
      (if rrq_terminated b
       then Inr (3 + length (rrq_name b) + length (rrq_mode b), rrq_mode b @ zeros (512 - length (rrq_mode b)))
       else Inl OutOfBounds)"
    using cm by (simp add: numeral_3_eq_3)
  have nz: "cstr (rrq_name b @ zeros k) = rrq_name b" "cstr (rrq_mode b @ zeros k) = rrq_mode b" for k
    using cstr_nonzero by (simp_all add: rrq_name_def rrq_mode_def)
  show ?thesis
    by (simp add: parse_RRQ_def cp cm' log_RRQ_def nz)
next
  case False
  then have "copy_cstr b 2 (zeros 512) 0 = Inl OutOfBounds" "\<not> rrq_terminated b"
    using len by (auto simp: copy_cstr_spec rrq_name_def rrq_terminated_def)
  then show ?thesis by (simp add: parse_RRQ_def)
qed

section \<open>Data packets\<close>

lemma make_data_spec:
  "make_data dst block src n =
    (if n \<le> length src \<and> n + 4 \<le> length dst
     then Inr ([0, 3, ucast (drop_bit 8 block), ucast block] @ take n src @ drop (n + 4) dst, n + 4)
     else Inl OutOfBounds)"
proof -
  have op: "short_bytes (htons DATA) = [0, 3]"
    by (simp add: short_bytes_htons DATA_def)
  have m1: "memcpy_at dst 0 [a, b] = (if 2 \<le> length dst then Inr ([a, b] @ drop 2 dst) else Inl OutOfBounds)"
    for a b using memcpy_at_append [of "[]" dst "[a, b]"] by (simp add: numeral_2_eq_2)
  have m2: "memcpy_at ([a, b] @ r) 2 [c, d] = (if 2 \<le> length r then Inr ([a, b, c, d] @ drop 2 r) else Inl OutOfBounds)"
    for a b c d r using memcpy_at_append [of "[a, b]" r "[c, d]"] by (simp add: numeral_2_eq_2)
  have m3: "memcpy_at ([a, b, c, d] @ r) 4 x = (if length x \<le> length r then Inr ([a, b, c, d] @ x @ drop (length x) r) else Inl OutOfBounds)"
    for a b c d r x using memcpy_at_append [of "[a, b, c, d]" r x] by (simp add: numeral_eq_Suc)
  show ?thesis
    unfolding make_data_def op short_bytes_htons [of block]
    by (cases "4 \<le> length dst") (auto simp: m1 m2 m3 min_def simp del: append.simps split: if_splits)
qed

text \<open>A DATA packet as the receiver takes it apart.\<close>

definition data_packet :: "short \<Rightarrow> byte list \<Rightarrow> byte list" where
  "data_packet block d = [0, 3, ucast (drop_bit 8 block), ucast block] @ d"

definition parse_data :: "byte list \<Rightarrow> (short \<times> byte list) option" where
  "parse_data pk = (case pk of a # b # c # d # rest \<Rightarrow>
     if be16 a b = DATA then Some (be16 c d, rest) else None | _ \<Rightarrow> None)"

lemma parse_data_packet [simp]: "parse_data (data_packet block d) = Some (block, d)"
proof -
  have "be16 0 3 = DATA" by (simp add: be16_def DATA_def)
  then show ?thesis by (simp add: parse_data_def data_packet_def)
qed

lemma length_data_packet [simp]: "length (data_packet block d) = length d + 4"
  by (simp add: data_packet_def)

lemma make_data_packet:
  "make_data dst block src n =
    (if n \<le> length src \<and> n + 4 \<le> length dst
     then Inr (data_packet block (take n src) @ drop (n + 4) dst, n + 4) else Inl OutOfBounds)"
  by (simp add: make_data_spec data_packet_def)

section \<open>Blocks of a file\<close>

definition file_block :: "byte list \<Rightarrow> nat \<Rightarrow> byte list" where
  "file_block c k = take 512 (drop (512 * k) c)"

lemma length_file_block: "length (file_block c k) = min 512 (length c - 512 * k)"
  by (simp add: file_block_def min.commute)

lemma file_block_short: "length (file_block c k) < 512 \<longleftrightarrow> length c div 512 \<le> k"
  by (simp add: length_file_block min_def) linarith

lemma concat_file_blocks:
  "j \<le> n \<Longrightarrow> concat (map (file_block c) [j..<n]) = take (512 * (n - j)) (drop (512 * j) c)"
proof (induction n)
  case 0
  then show ?case by simp
next
  case (Suc n)
  show ?case
  proof (cases "j = Suc n")
    case False
    with Suc have "concat (map (file_block c) [j..<n]) = take (512 * (n - j)) (drop (512 * j) c)"
      and "j \<le> n" by auto
    moreover have "file_block c n = take 512 (drop (512 * (n - j)) (drop (512 * j) c))"
      using \<open>j \<le> n\<close> by (simp add: file_block_def flip: distrib_left)
    moreover have "512 * (Suc n - j) = 512 * (n - j) + 512" using \<open>j \<le> n\<close> by simp
    ultimately show ?thesis using \<open>j \<le> n\<close> by (simp add: take_add)
  qed simp
qed

lemma concat_file_blocks_all:
  "j \<le> length c div 512 \<Longrightarrow>
   concat (map (file_block c) [j..<Suc (length c div 512)]) = drop (512 * j) c"
  by (subst concat_file_blocks) (auto intro!: take_all)

section \<open>The stream behind the global file pointer\<close>

text \<open>\<open>file\<close> is NULL or an open stream.\<close>

definition server_inv :: "'w server \<Rightarrow> bool" where
  "server_inv s \<longleftrightarrow> file_g s = NULL \<or> streams s (file_g s) \<noteq> None"

lemma put_log_simps [simp]:
  "file_g (put_log m s) = file_g s" "streams (put_log m s) = streams s" "mem (put_log m s) = mem s"
  "world (put_log m s) = world s" "log (put_log m s) = log s @ [m]"
  "server_inv (put_log m s) = server_inv s"
  by (simp_all add: put_log_def server_inv_def)

lemma read_block_open:
  assumes "p \<noteq> NULL" "streams s p = Some f"
  shows "read_block p s = (let d = take 512 (drop (f_pos f) (f_content f)) in
    Inr (d @ zeros (512 - length d), length d, s\<lparr>streams := (streams s)(p \<mapsto> f\<lparr>f_pos := f_pos f + length d\<rparr>)\<rparr>))"
  using assms by (simp add: read_block_def fread_def Let_def)

text \<open>Where an acknowledgement of \<open>block\<close> makes the next read start.\<close>

definition seek_pos :: "FILE \<Rightarrow> short \<Rightarrow> nat" where
  "seek_pos f block = (if sint block < 0 then f_pos f else 512 * nat (sint block))"

definition ack_data :: "FILE \<Rightarrow> short \<Rightarrow> byte list" where
  "ack_data f block = take 512 (drop (seek_pos f block) (f_content f))"

definition after_ack :: "FILE \<Rightarrow> short \<Rightarrow> 'w server \<Rightarrow> 'w server" where
  "after_ack f block s =
     (if length (ack_data f block) < 512
      then (put_log Fclose_log s)\<lparr>streams := (streams s)(file_g s := None), file_g := NULL\<rparr>
      else s\<lparr>streams := (streams s)(file_g s \<mapsto>
             f\<lparr>f_pos := seek_pos f block + length (ack_data f block)\<rparr>)\<rparr>)"

lemma short_at_be16: "i + 1 < length b \<Longrightarrow> bindr (short_at b i) (\<lambda>w. F (ntohs w)) = F (be16 (b ! i) (b ! (i + 1)))"
  by (simp add: short_at_in ntohs_be16)

lemma handle_ACK_open:
  assumes f: "file_g s \<noteq> NULL" "streams s (file_g s) = Some f"
    and len: "3 < length b" "516 \<le> length out"
  defines "block \<equiv> be16 (b ! 2) (b ! 3)"
  shows "handle_ACK b out s = (let d = ack_data f block in
    Inr (data_packet (block + 1) d @ drop (length d + 4) out, length d + 4, after_ack f block s))"
proof -
  let ?d = "ack_data f block"
  have sk: "fseek_set (streams s) (file_g s) (512 * sint block) =
      Inr ((streams s)(file_g s \<mapsto> f\<lparr>f_pos := seek_pos f block\<rparr>))"
    using f by (simp add: fseek_set_def seek_pos_def nat_mult_distrib fun_upd_idem)
  have rb: "read_block (file_g s) (s\<lparr>streams := (streams s)(file_g s \<mapsto> f\<lparr>f_pos := seek_pos f block\<rparr>)\<rparr>) =
      Inr (?d @ zeros (512 - length ?d), length ?d,
           s\<lparr>streams := (streams s)(file_g s \<mapsto> f\<lparr>f_pos := seek_pos f block + length ?d\<rparr>)\<rparr>)"
    using f by (subst read_block_open [where f = "f\<lparr>f_pos := seek_pos f block\<rparr>"])
      (simp_all add: ack_data_def Let_def)
  have "length ?d \<le> 512" by (simp add: ack_data_def)
  then have md: "make_data out (block + 1) (?d @ zeros (512 - length ?d)) (length ?d) =
      Inr (data_packet (block + 1) ?d @ drop (length ?d + 4) out, length ?d + 4)"
    using len(2) by (simp add: make_data_packet)
  have "handle_ACK b out s = bindr (short_at b 2) (\<lambda>w. let block = ntohs w in
           bindr (fseek_set (streams s) (file_g s) (512 * sint block)) (\<lambda>S.
           bindr (read_block (file_g s) (s\<lparr>streams := S\<rparr>)) (\<lambda>(buf, read_len, s1).
             let s2 = (if read_len < 512
                       then (put_log Fclose_log s1)\<lparr>streams := (streams s1)(file_g s1 := None), file_g := NULL\<rparr>
                       else s1)
             in bindr (make_data out (block + 1) buf read_len) (\<lambda>(out, len). Inr (out, len, s2)))))"
    using f by (simp add: handle_ACK_def)
  also have "\<dots> = Inr (data_packet (block + 1) ?d @ drop (length ?d + 4) out, length ?d + 4, after_ack f block s)"
    using len(1) by (simp add: short_at_in ntohs_be16 block_def [symmetric] Let_def sk rb md after_ack_def put_log_def)
  finally show ?thesis by (simp add: Let_def)
qed

lemma handle_ACK_closed [simp]: "file_g s = NULL \<Longrightarrow> handle_ACK b out s = Inr (out, 0, s)"
  by (simp add: handle_ACK_def)

lemma after_ack_inv [simp]: "server_inv (after_ack f block s)"
  by (simp add: after_ack_def server_inv_def)

lemma handle_req_ACK:
  assumes "4 \<le> length b" "be16 (b ! 0) (b ! 1) = ACK"
  shows "handle_req b out s = bindr (handle_ACK b out s) (\<lambda>(o1, n, s1).
    Inr (o1, n, put_log (Ack_log (sint (be16 (b ! 1) (b ! 2)))) s1))"
  using assms by (simp add: handle_req_def logged_short_def short_at_in ntohs_be16 opcode_defs numeral_2_eq_2)

text \<open>Every request but an unterminated ERROR is handled without a fault.\<close>

lemma handle_ACK_safe:
  assumes "server_inv s" "3 < length b" "length out = 600"
  shows "\<exists>o1 n s1. handle_ACK b out s = Inr (o1, n, s1) \<and> length o1 = 600 \<and> n \<le> 516 \<and> server_inv s1"
proof (cases "file_g s = NULL")
  case True
  with assms show ?thesis by simp
next
  case False
  with assms(1) obtain f where "streams s (file_g s) = Some f" by (auto simp: server_inv_def)
  moreover have "length (ack_data f w) \<le> 512" "length (ack_data f w) \<le> 596" for w
    by (simp_all add: ack_data_def)
  ultimately show ?thesis using False assms(2,3)
    by (simp add: handle_ACK_open Let_def)
qed

lemma handle_req_cases:
  assumes "4 \<le> length b"
  defines "req \<equiv> be16 (b ! 0) (b ! 1)" and "k \<equiv> be16 (b ! 1) (b ! 2)"
  shows "handle_req b out s =
    (if req = DATA then Inr (out, 0, put_log (Data_log (sint k)) s)
     else if req = ACK then bindr (handle_ACK b out s) (\<lambda>(o1, n, s1). Inr (o1, n, put_log (Ack_log (sint k)) s1))
     else if req = ERROR then bindr (logged_string b) (\<lambda>msg. Inr (out, 0, put_log (Error_log (unat k) msg) s))
     else Inr (out, 0, put_log (Unknown_req_log (unat req)) s))"
  using assms by (simp add: handle_req_def logged_short_def short_at_in ntohs_be16 numeral_2_eq_2)

section \<open>Answering a read request\<close>

lemma read_first_block:
  assumes "p \<noteq> NULL" "streams s p = Some \<lparr>f_content = c, f_pos = 0\<rparr>"
  shows "read_block p s = Inr (take 512 c @ zeros (512 - length (take 512 c)), length (take 512 c),
    s\<lparr>streams := (streams s)(p \<mapsto> \<lparr>f_content = c, f_pos = length (take 512 c)\<rparr>)\<rparr>)"
  using assms by (subst read_block_open [where f = "\<lparr>f_content = c, f_pos = 0\<rparr>"]) (simp_all add: Let_def)

lemma answer_RRQ_overflow:
  assumes "p \<noteq> NULL" "file_g s = p" "streams s p = Some \<lparr>f_content = c, f_pos = 0\<rparr>" "508 < length c"
  shows "answer_RRQ os addr n s = Inl OutOfBounds"
  using assms by (simp add: answer_RRQ_def read_first_block [OF assms(1,3)] make_data_packet min_def)

lemma create_new_session_ok:
  assumes "os_malloc os sizeof_SESSION (world s) = (sess, w1)" "sess \<noteq> NULL"
    and "os_socket os w1 = (fd, w2)" "os_malloc os n w2 = (a, w3)" "a \<noteq> NULL" "n \<le> length addr"
  shows "create_new_session os f addr n s = Inr (sess, s\<lparr>world := w3, mem := (mem s)\<lparr>
             addrs := (addrs (mem s))(a \<mapsto> take n addr),
             sessions := (sessions (mem s))(sess \<mapsto>
               \<lparr>sock_fd = fd, pFile = f, cli_addr = a, cli_addr_len = int n\<rparr>)\<rparr>\<rparr>)"
  using assms by (simp add: create_new_session_def)

lemma answer_RRQ_small:
  assumes p: "p \<noteq> NULL" "file_g s = p" "streams s p = Some \<lparr>f_content = c, f_pos = 0\<rparr>"
    and c: "length c \<le> 508"
    and os: "os_malloc os sizeof_SESSION (world s) = (sess, w1)" "sess \<noteq> NULL"
      "os_socket os w1 = (fd, w2)" "os_malloc os n w2 = (a, w3)" "a \<noteq> NULL" "n \<le> length addr"
      "os_sendto os fd (data_packet 1 c) (take n addr) w3 = (r, w4)"
  shows "\<exists>s'. answer_RRQ os addr n s = Inr (sess, s') \<and> world s' = w4 \<and> file_g s' = p \<and>
    streams s' = (streams s)(p \<mapsto> \<lparr>f_content = c, f_pos = length c\<rparr>) \<and>
    sessions (mem s') sess = Some \<lparr>sock_fd = fd, pFile = p, cli_addr = a, cli_addr_len = int n\<rparr> \<and>
    addrs (mem s') a = Some (take n addr)"
proof -
  have rb: "read_block p s = Inr (c @ zeros (512 - length c), length c,
      s\<lparr>streams := (streams s)(p \<mapsto> \<lparr>f_content = c, f_pos = length c\<rparr>)\<rparr>)"
    using read_first_block [OF p(1,3)] c by (simp add: min_def)
  have md: "make_data (zeros 512) 1 (c @ zeros (512 - length c)) (length c) =
      Inr (data_packet 1 c @ zeros (508 - length c), length c + 4)"
    using c by (simp add: make_data_packet)
  show ?thesis
    using os p by (simp add: answer_RRQ_def rb md create_new_session_ok [OF _ os(2) os(3) os(4) os(5) os(6)])
qed

lemma handle_RRQ_open:
  assumes "length b = 512" "rrq_terminated b"
    and "os_fopen os (rrq_name b) (world s) = ((p, c), w1)" "p \<noteq> NULL"
  shows "handle_RRQ os addr n b s = answer_RRQ os addr n ((log_RRQ b s)\<lparr>file_g := p, world := w1,
    streams := (streams s)(p \<mapsto> \<lparr>f_content = c, f_pos = 0\<rparr>)\<rparr>)"
  using assms by (simp add: handle_RRQ_def parse_RRQ_spec log_RRQ_def Let_def)

lemma handle_RRQ_no_file:
  assumes "length b = 512" "rrq_terminated b"
    and "os_fopen os (rrq_name b) (world s) = ((NULL, c), w1)" "os_getcwd os w1 = (path, w2)"
  shows "handle_RRQ os addr n b s = Inr (NULL, put_log (Open_error_log (rrq_name b) path)
    ((log_RRQ b s)\<lparr>file_g := NULL, world := w2\<rparr>))"
  using assms by (simp add: handle_RRQ_def parse_RRQ_spec log_RRQ_def Let_def)

end
