(* ===== verification/Tftp_Properties.thy ===== *)
theory Tftp_Properties
  imports Tftp_Server
begin

text \<open>
  The properties of the TFTP server: the packets it builds and the file transfer they add up to,
  the safety of its request handlers, the overflow in its answer to a read request, and what its
  main loop does once a session exists.
\<close>

section \<open>Transfers driven by acknowledgements\<close>

definition ack_packet :: "short \<Rightarrow> byte list" where
  "ack_packet k = [0, 4, ucast (drop_bit 8 k), ucast k] @ zeros 508"

text \<open>The packets sent in answer to a sequence of acknowledgements, in order.\<close>

fun serve_acks :: "short list \<Rightarrow> byte list \<Rightarrow> 'w server \<Rightarrow> (byte list list \<times> 'w server) res" where
  "serve_acks [] out s = Inr ([], s)"
| "serve_acks (k # ks) out s = bindr (handle_req (ack_packet k) out s) (\<lambda>(out1, n, s1).
     bindr (serve_acks ks out1 s1) (\<lambda>(ps, s2). Inr (take n out1 # ps, s2)))"

lemma ack_packet_fields: "length (ack_packet k) = 512" "be16 (ack_packet k ! 0) (ack_packet k ! 1) = ACK"
    "be16 (ack_packet k ! 2) (ack_packet k ! 3) = k"
proof -
  have "be16 0 4 = ACK" by (simp add: be16_def ACK_def)
  then show "length (ack_packet k) = 512" "be16 (ack_packet k ! 0) (ack_packet k ! 1) = ACK"
    "be16 (ack_packet k ! 2) (ack_packet k ! 3) = k"
    by (simp_all add: ack_packet_def)
qed

lemma sint_of_nat_short: "k \<le> 32767 \<Longrightarrow> sint (of_nat k :: short) = int k"
  by (simp add: sint_uint unsigned_of_nat take_bit_nat_eq_self signed_take_bit_int_eq_self)

lemma ack_data_block: "k \<le> 32767 \<Longrightarrow> ack_data f (of_nat k) = file_block (f_content f) k"
  by (simp add: ack_data_def seek_pos_def file_block_def sint_of_nat_short)

lemma serve_ack_step:
  assumes f: "file_g s \<noteq> NULL" "streams s (file_g s) = Some f" and out: "length out = 600"
    and k: "k \<le> 32767"
  shows "\<exists>out1. handle_req (ack_packet (of_nat k)) out s =
      Inr (out1, length (file_block (f_content f) k) + 4,
           put_log (Ack_log (sint (be16 4 (ucast (drop_bit 8 (of_nat k :: short)))))) (after_ack f (of_nat k) s)) \<and>
    take (length (file_block (f_content f) k) + 4) out1 =
      data_packet (of_nat (Suc k)) (file_block (f_content f) k) \<and> length out1 = 600"
proof -
  have "handle_ACK (ack_packet (of_nat k)) out s = (let d = file_block (f_content f) k in
      Inr (data_packet (of_nat k + 1) d @ drop (length d + 4) out, length d + 4, after_ack f (of_nat k) s))"
    using f out k by (subst handle_ACK_open) (simp_all add: ack_packet_fields ack_data_block)
  moreover have "length (file_block (f_content f) k) \<le> 512" by (simp add: file_block_def)
  moreover have "ack_packet (of_nat k) ! 1 = 4"
      "ack_packet (of_nat k) ! 2 = ucast (drop_bit 8 (of_nat k :: short))"
    by (simp_all add: ack_packet_def)
  ultimately show ?thesis
    using out handle_req_ACK [of "ack_packet (of_nat k)" out s] ack_packet_fields [of "of_nat k"]
    by (simp add: Let_def add.commute)
qed

text \<open>After block \<open>k\<close> was acknowledged the stream is still open exactly if a full block was read.\<close>

lemma after_ack_open:
  assumes "512 \<le> length (ack_data f w)"
  shows "file_g (after_ack f w s) = file_g s"
    "\<exists>g. streams (after_ack f w s) (file_g s) = Some g \<and> f_content g = f_content f"
  using assms by (auto simp: after_ack_def)

lemma serve_acks_blocks:
  assumes "file_g s \<noteq> NULL" "streams s (file_g s) = Some f" "f_content f = c" "length out = 600"
    and "j \<le> length c div 512" "length c div 512 \<le> 32767"
  shows "\<exists>s'. serve_acks (map of_nat [j..<Suc (length c div 512)]) out s =
      Inr (map (\<lambda>k. data_packet (of_nat (Suc k)) (file_block c k)) [j..<Suc (length c div 512)], s') \<and>
    file_g s' = NULL"
  using assms
proof (induction "length c div 512 - j" arbitrary: j s f out)
  case 0
  then have j: "j = length c div 512" by simp
  with 0 obtain out1 where "handle_req (ack_packet (of_nat j)) out s =
      Inr (out1, length (file_block c j) + 4, put_log (Ack_log (sint (be16 4 (ucast (drop_bit 8 (of_nat j :: short))))))
        (after_ack f (of_nat j) s))"
      "take (length (file_block c j) + 4) out1 = data_packet (of_nat (Suc j)) (file_block c j)"
    using serve_ack_step [of s f out j] by auto
  moreover have "file_g (after_ack f (of_nat j) s) = NULL"
    using 0 j file_block_short [of c j] by (simp add: after_ack_def ack_data_block)
  ultimately show ?case using j by simp
next
  case (Suc x)
  then have j: "j < length c div 512" and j': "j \<le> 32767" by simp_all
  from serve_ack_step [OF Suc.prems(1,2,4) j'] obtain out1 where h: "handle_req (ack_packet (of_nat j)) out s =
      Inr (out1, length (file_block c j) + 4, put_log (Ack_log (sint (be16 4 (ucast (drop_bit 8 (of_nat j :: short))))))
        (after_ack f (of_nat j) s))"
      "take (length (file_block c j) + 4) out1 = data_packet (of_nat (Suc j)) (file_block c j)" "length out1 = 600"
    using Suc.prems(3) by auto
  let ?s1 = "put_log (Ack_log (sint (be16 4 (ucast (drop_bit 8 (of_nat j :: short)))))) (after_ack f (of_nat j) s)"
  have "512 \<le> length (ack_data f (of_nat j))"
    using j j' Suc.prems(3) file_block_short [of c j] by (simp add: ack_data_block)
  from after_ack_open [OF this, of s] obtain g where
    g: "file_g ?s1 = file_g s" "streams ?s1 (file_g ?s1) = Some g" "f_content g = c"
    using Suc.prems(3) by auto
  have x: "x = length c div 512 - Suc j" using Suc.hyps(2) by simp
  obtain s' where "serve_acks (map of_nat [Suc j..<Suc (length c div 512)]) out1 ?s1 =
      Inr (map (\<lambda>k. data_packet (of_nat (Suc k)) (file_block c k)) [Suc j..<Suc (length c div 512)], s')"
      "file_g s' = NULL"
    using Suc.hyps(1) [OF x _ g(2,3) h(3)] g(1) Suc.prems(1,6) j by auto
  moreover have "[j..<Suc (length c div 512)] = j # [Suc j..<Suc (length c div 512)]"
    using j by (simp add: upt_conv_Cons)
  ultimately show ?case using h by simp
qed

section \<open>The kernel's interest list\<close>

text \<open>
  What \<open>epoll_ctl(2)\<close> documents of \<open>EPOLL_CTL_ADD\<close>, for a predicate \<open>reg w e fd\<close> ("in world \<open>w\<close>
  the descriptor \<open>fd\<close> is on the interest list of \<open>e\<close>"): a successful addition registers the
  descriptor, adding a registered descriptor fails (\<open>EEXIST\<close>), and none of the calls the server
  makes takes a descriptor off the list.
\<close>

definition epoll_contract :: "'w tftp_os \<Rightarrow> ('w \<Rightarrow> int \<Rightarrow> int \<Rightarrow> bool) \<Rightarrow> bool" where
  "epoll_contract os reg \<longleftrightarrow>
     (\<forall>e fd d w. fst (os_epoll_ctl_add os e fd d w) = 0 \<longrightarrow> reg (snd (os_epoll_ctl_add os e fd d w)) e fd) \<and>
     (\<forall>e fd d w. reg w e fd \<longrightarrow> fst (os_epoll_ctl_add os e fd d w) \<noteq> 0) \<and>
     (\<forall>e fd w. reg w e fd \<longrightarrow>
        (\<forall>nm. reg (snd (os_fopen os nm w)) e fd) \<and> reg (snd (os_getcwd os w)) e fd \<and>
        (\<forall>n. reg (snd (os_malloc os n w)) e fd) \<and> reg (snd (os_socket os w)) e fd \<and>
        (\<forall>k d a. reg (snd (os_sendto os k d a w)) e fd) \<and>
        (\<forall>k n. reg (snd (os_recvfrom os k n w)) e fd) \<and>
        (\<forall>k n. reg (snd (os_epoll_wait os k n w)) e fd))"

lemma epoll_contractD:
  assumes "epoll_contract os reg"
  shows "fst (os_epoll_ctl_add os e fd d w) = 0 \<Longrightarrow> reg (snd (os_epoll_ctl_add os e fd d w)) e fd"
    and "reg w e fd \<Longrightarrow> fst (os_epoll_ctl_add os e fd d w) \<noteq> 0"
    and "reg w e fd \<Longrightarrow> reg (snd (os_fopen os nm w)) e fd"
    and "reg w e fd \<Longrightarrow> reg (snd (os_getcwd os w)) e fd"
    and "reg w e fd \<Longrightarrow> reg (snd (os_malloc os n w)) e fd"
    and "reg w e fd \<Longrightarrow> reg (snd (os_socket os w)) e fd"
    and "reg w e fd \<Longrightarrow> reg (snd (os_sendto os k da ad w)) e fd"
    and "reg w e fd \<Longrightarrow> reg (snd (os_recvfrom os k n w)) e fd"
    and "reg w e fd \<Longrightarrow> reg (snd (os_epoll_wait os k n w)) e fd"
  using assms unfolding epoll_contract_def by blast+

lemma create_new_session_reg:
  assumes "epoll_contract os reg" "reg (world s) e fd" "create_new_session os f addr n s = Inr (sess, s')"
  shows "sess \<noteq> NULL \<and> reg (world s') e fd"
  using assms(2,3)
  by (auto simp: create_new_session_def case_prod_beta Let_def epoll_contractD [OF assms(1)] split: if_splits)

lemma answer_RRQ_reg:
  assumes c: "epoll_contract os reg" and "reg (world s) e fd" "answer_RRQ os addr n s = Inr (sess, s')"
  shows "sess \<noteq> NULL \<and> reg (world s') e fd"
proof -
  from assms(3) obtain buf k s1 s2 a d and x :: session where rb: "read_block (file_g s) s = Inr (buf, k, s1)"
    and cs: "create_new_session os (file_g s1) addr n s1 = Inr (sess, s2)"
    and s': "s' = s2\<lparr>world := snd (os_sendto os (sock_fd x) d a (world s2))\<rparr>"
    by (auto simp: answer_RRQ_def bindr_eq_Inr Let_def case_prod_beta)
  from rb have "world s1 = world s" by (auto simp: read_block_def bindr_eq_Inr)
  with create_new_session_reg [OF c _ cs, of e fd] assms(2) have "sess \<noteq> NULL" "reg (world s2) e fd"
    by auto
  with s' show ?thesis using epoll_contractD(7) [OF c] by auto
qed

lemma handle_RRQ_reg:
  assumes c: "epoll_contract os reg" and "reg (world s) e fd" "handle_RRQ os addr n b s = Inr (sess, s')"
  shows "reg (world s') e fd \<and> (sess = NULL \<longrightarrow> mem s' = mem s)"
proof -
  from assms(3) obtain nm s1 where pr: "parse_RRQ b s = Inr (nm, s1)"
    by (auto simp: handle_RRQ_def bindr_eq_Inr)
  from pr have s1: "world s1 = world s" "mem s1 = mem s"
    by (auto simp: parse_RRQ_def bindr_eq_Inr)
  obtain p ct w1 where fo: "os_fopen os nm (world s1) = ((p, ct), w1)" by (metis surj_pair)
  from epoll_contractD(3) [OF c assms(2), of nm] fo s1 have w1: "reg w1 e fd" by simp
  show ?thesis
  proof (cases "p = NULL")
    case True
    with assms(3) pr fo s1 w1 show ?thesis
      by (auto simp: handle_RRQ_def case_prod_beta epoll_contractD [OF c])
  next
    case False
    with assms(3) pr fo have "answer_RRQ os addr n (s1\<lparr>file_g := p, world := w1,
        streams := (streams s1)(p \<mapsto> \<lparr>f_content = ct, f_pos = 0\<rparr>)\<rparr>) = Inr (sess, s')"
      by (simp add: handle_RRQ_def)
    from answer_RRQ_reg [OF c _ this, of e fd] w1 show ?thesis by auto
  qed
qed

lemma handle_new_connection_reg:
  assumes c: "epoll_contract os reg" and "reg (world s) e fd"
    and "handle_new_connection os addr n b s = Inr (sess, s')"
  shows "reg (world s') e fd \<and> (sess = NULL \<longrightarrow> mem s' = mem s)"
  using assms handle_RRQ_reg [OF c, of s e fd addr n b]
  by (auto simp: handle_new_connection_def bindr_eq_Inr Let_def split: if_splits)

lemma receive_reg:
  assumes c: "epoll_contract os reg" and "reg (world (srv m)) e fd"
  shows "reg (world (srv (receive os k m))) e fd" "mem (srv (receive os k m)) = mem (srv m)"
  using assms by (auto simp: receive_def Let_def case_prod_beta epoll_contractD [OF c])

text \<open>An event of the listening socket that produced a session ends the process.\<close>

lemma serve_event_session:
  assumes c: "epoll_contract os reg" and r: "reg (world (srv m)) epfd sfd"
  defines "m1 \<equiv> receive os sfd m"
  assumes h: "handle_new_connection os (cliaddr m1) (cli_len m1) (in_buf m1) (srv m1) = Inr (sess, s)"
    and x: "sess \<noteq> NULL" "sessions (mem s) sess = Some x"
  shows "serve_event os sfd epfd sfd m = Inl (Exit 1)"
proof -
  have "reg (world s) epfd sfd"
    using handle_new_connection_reg [OF c _ h] receive_reg(1) [OF c r] unfolding m1_def by auto
  with epoll_contractD(2) [OF c this] h x show ?thesis
    by (simp add: serve_event_def Let_def m1_def case_prod_beta)
qed

lemma serve_event_reg:
  assumes c: "epoll_contract os reg" and r: "reg (world (srv m)) epfd sfd"
    and ok: "serve_event os sfd epfd fd m = Inr m'"
  shows "reg (world (srv m')) epfd sfd \<and> mem (srv m') = mem (srv m)"
proof (cases "fd = sfd")
  case True
  let ?m1 = "receive os sfd m"
  from ok True obtain sess s where
    h: "handle_new_connection os (cliaddr ?m1) (cli_len ?m1) (in_buf ?m1) (srv ?m1) = Inr (sess, s)"
    by (auto simp: serve_event_def Let_def bindr_eq_Inr)
  from handle_new_connection_reg [OF c receive_reg(1) [OF c r] h] receive_reg [OF c r, of sfd]
  have *: "reg (world s) epfd sfd" "sess = NULL \<Longrightarrow> mem s = mem (srv m)" by auto
  from serve_event_session [OF c r h] ok True h have "sess = NULL"
    by (auto simp: serve_event_def Let_def bindr_eq_Inr deref_Inr split: if_splits)
  with ok True h * show ?thesis by (auto simp: serve_event_def Let_def)
next
  case False
  with ok r show ?thesis by (simp add: serve_event_def)
qed

lemma serve_events_reg:
  assumes c: "epoll_contract os reg"
  shows "reg (world (srv m)) epfd sfd \<Longrightarrow> serve_events os sfd epfd fds m = Inr m' \<Longrightarrow>
    reg (world (srv m')) epfd sfd \<and> mem (srv m') = mem (srv m)"
proof (induction fds arbitrary: m)
  case (Cons fd fds)
  then show ?case using serve_event_reg [OF c] by (fastforce simp: bindr_eq_Inr)
qed simp

lemma main_loop_reg:
  assumes c: "epoll_contract os reg"
  shows "reg (world (srv m)) epfd sfd \<Longrightarrow> main_loop n os sfd epfd m = Inr m' \<Longrightarrow>
    reg (world (srv m')) epfd sfd \<and> mem (srv m') = mem (srv m)"
proof (induction n arbitrary: m)
  case (Suc n)
  then obtain m1 where m1: "main_iteration os sfd epfd m = Inr m1" "main_loop n os sfd epfd m1 = Inr m'"
    by (auto simp: bindr_eq_Inr)
  let ?w = "snd (os_epoll_wait os epfd 10 (world (srv m)))"
  have "reg ?w epfd sfd" by (rule epoll_contractD(9) [OF c Suc.prems(1)])
  with serve_events_reg [OF c, of "m\<lparr>srv := (srv m)\<lparr>world := ?w\<rparr>\<rparr>"] m1(1)
  have "reg (world (srv m1)) epfd sfd \<and> mem (srv m1) = mem (srv m)"
    by (auto simp: main_iteration_def case_prod_beta split: if_splits)
  with Suc.IH m1(2) show ?case by metis
qed simp

lemma main_setup_reg:
  assumes c: "epoll_contract os reg" and "main_setup os w = Inr ((sfd, epfd), w')"
  shows "reg w' epfd sfd"
  using assms(2) epoll_contractD(1) [OF c]
  by (auto simp: main_setup_def case_prod_beta Let_def split: if_splits)

section \<open>Properties\<close>

text \<open>C11: a DATA packet is built exactly when the payload fits (four bytes of header in front of
  it in the destination, enough bytes in the source); the bytes sent then parse back to the block
  number and the payload, and the rest of the destination is untouched.\<close>

theorem make_data_roundtrip:
  "(if n \<le> length src \<and> n + 4 \<le> length dst
    then \<exists>d. make_data dst block src n = Inr (d, n + 4) \<and> length d = length dst \<and>
             parse_data (take (n + 4) d) = Some (block, take n src) \<and> drop (n + 4) d = drop (n + 4) dst
    else make_data dst block src n = Inl OutOfBounds)"
  by (simp add: make_data_packet)

text \<open>C1: in a transfer that starts after \<open>j\<close> blocks, acknowledging the blocks in order, up to the
  last, sends for each block \<open>k\<close> the DATA packet with number \<open>k + 1\<close>; the payloads joined together
  are exactly the rest of the file, the last one is shorter than 512 bytes, and the file is closed
  after it. The file may have up to 32767 full blocks.\<close>

theorem ack_transfer_delivers_file:
  assumes "file_g s \<noteq> NULL" "streams s (file_g s) = Some f" "f_content f = c" "length out = 600"
    and "j \<le> length c div 512" "length c div 512 \<le> 32767"
  shows "\<exists>ps s'. serve_acks (map of_nat [j..<Suc (length c div 512)]) out s = Inr (ps, s') \<and>
    file_g s' = NULL \<and>
    map parse_data ps = map (\<lambda>k. Some (of_nat (Suc k), file_block c k)) [j..<Suc (length c div 512)] \<and>
    concat (map (drop 4) ps) = drop (512 * j) c \<and> length (last ps) < 516"
proof -
  let ?ks = "[j..<Suc (length c div 512)]"
  let ?ps = "map (\<lambda>k. data_packet (of_nat (Suc k)) (file_block c k)) ?ks"
  from serve_acks_blocks [OF assms] obtain s' where
    s': "serve_acks (map of_nat ?ks) out s = Inr (?ps, s')" "file_g s' = NULL" by blast
  have "map (drop 4) ?ps = map (file_block c) ?ks" by (simp add: data_packet_def)
  then have "concat (map (drop 4) ?ps) = drop (512 * j) c"
    using concat_file_blocks_all [OF assms(5)] by (simp only:)
  moreover have "last ?ps = data_packet (of_nat (Suc (length c div 512))) (file_block c (length c div 512))"
    using assms(5) by simp
  moreover have "map parse_data ?ps = map (\<lambda>k. Some (of_nat (Suc k), file_block c k)) ?ks" by simp
  ultimately show ?thesis
    using s' file_block_short [of c "length c div 512"] by (intro exI [of _ ?ps] exI [of _ s']) simp
qed

definition demo_server :: "byte list \<Rightarrow> 'w \<Rightarrow> 'w server" where
  "demo_server c w = \<lparr>file_g = 16, streams = [16 \<mapsto> \<lparr>f_content = c, f_pos = 0\<rparr>],
     mem = \<lparr>list_nodes = Map.empty, sessions = Map.empty, addrs = Map.empty\<rparr>, log = [], world = w\<rparr>"

theorem ack_transfer_delivers_file_witness:
  "\<exists>ps s'. serve_acks (map of_nat [0..<Suc (length (replicate 600 (65 :: byte)) div 512)]) (zeros 600)
      (demo_server (replicate 600 65) ()) = Inr (ps, s') \<and> concat (map (drop 4) ps) = replicate 600 65"
  using ack_transfer_delivers_file [of "demo_server (replicate 600 65) ()" _ "replicate 600 65" "zeros 600" 0]
  by (fastforce simp: demo_server_def)

text \<open>C5: with the global file pointer NULL or open, and buffers of the sizes \<open>main\<close> declares, a
  request is handled without a fault: at most 516 of the 600 bytes of the output buffer are used
  and the pointer stays NULL or open. The one exception is an ERROR request whose message has no
  NUL in the buffer, which is printed past the end of the buffer.\<close>

theorem handle_req_safe:
  assumes "server_inv s" "length b = 512" "length out = 600"
  shows "(\<exists>o1 n s1. handle_req b out s = Inr (o1, n, s1) \<and> length o1 = 600 \<and> n \<le> 516 \<and> server_inv s1) \<or>
    (be16 (b ! 0) (b ! 1) = ERROR \<and> 0 \<notin> set (drop 3 b) \<and> handle_req b out s = Inl OutOfBounds)"
  using assms handle_ACK_safe [of s b out]
  by (auto simp: handle_req_cases logged_string_def)

theorem handle_req_safe_witness:
  "(\<exists>o1 n s1. handle_req (ack_packet 1) (zeros 600) (demo_server [65] ()) = Inr (o1, n, s1) \<and>
      length o1 = 600 \<and> n \<le> 516 \<and> server_inv s1) \<or>
    (be16 (ack_packet 1 ! 0) (ack_packet 1 ! 1) = ERROR \<and> 0 \<notin> set (drop 3 (ack_packet 1)) \<and>
      handle_req (ack_packet 1) (zeros 600) (demo_server [65] ()) = Inl OutOfBounds)"
  by (rule handle_req_safe) (simp_all add: server_inv_def demo_server_def ack_packet_fields)

text \<open>C12: what an acknowledgement does to an open transfer, for every block number: the answer
  carries the number plus one (modulo \<open>2 ^ 16\<close>) and up to 512 bytes from offset 512 times the
  number, when the number is not negative as a \<open>short\<close>; otherwise the seek fails and the answer
  carries whatever follows the last block read. The stream is closed exactly when fewer than 512
  bytes were left.\<close>

theorem handle_ACK_block:
  assumes "file_g s \<noteq> NULL" "streams s (file_g s) = Some f" "3 < length b" "516 \<le> length out"
  defines "block \<equiv> be16 (b ! 2) (b ! 3)"
  defines "pos \<equiv> (if sint block < 0 then f_pos f else 512 * nat (sint block))"
  defines "d \<equiv> take 512 (drop pos (f_content f))"
  shows "\<exists>o1 s1. handle_ACK b out s = Inr (o1, length d + 4, s1) \<and>
    parse_data (take (length d + 4) o1) = Some (block + 1, d) \<and>
    (if length d < 512 then file_g s1 = NULL \<and> streams s1 = (streams s)(file_g s := None)
     else file_g s1 = file_g s \<and> streams s1 = (streams s)(file_g s \<mapsto> f\<lparr>f_pos := pos + 512\<rparr>))"
proof -
  have d: "d = ack_data f block" by (simp add: d_def pos_def ack_data_def seek_pos_def)
  have "length d \<le> 512" by (simp add: d_def)
  then show ?thesis
    using handle_ACK_open [OF assms(1-4)]
    by (auto simp: Let_def d block_def after_ack_def pos_def seek_pos_def)
qed

theorem handle_ACK_block_witness:
  "\<exists>o1 s1. handle_ACK (ack_packet 0) (zeros 600) (demo_server [65, 66] ()) = Inr (o1, 6, s1) \<and>
    parse_data (take 6 o1) = Some (1, [65, 66]) \<and> file_g s1 = NULL"
  using handle_ACK_block [of "demo_server [65, 66] ()" "\<lparr>f_content = [65, 66], f_pos = 0\<rparr>" "ack_packet 0" "zeros 600"]
  by (auto simp: demo_server_def ack_packet_fields)

text \<open>The number logged for an acknowledgement is not its block number: it is read one byte
  too early, so it is 1024 plus the high byte of the block number and does not depend on the low
  byte.\<close>

theorem ack_log_misread:
  assumes "be16 (b ! 0) (b ! 1) = ACK" "4 \<le> length b" "handle_req b out s = Inr (o1, n, s1)"
  shows "last (log s1) = Ack_log (1024 + int (unat (b ! 2)))"
proof -
  have "be16 (b ! 0) (b ! 1) = be16 0 4" using assms(1) by (simp add: be16_def [of 0 4] ACK_def)
  then have b1: "b ! 1 = 4" by (simp only: be16_inject)
  have be: "be16 4 y = 1024 + ucast y" for y
  proof -
    have "bit (1024 :: short) n \<Longrightarrow> n = 10" for n
      using bit_exp_iff [of 10 n, where 'a = short] by simp
    moreover have "\<not> bit (ucast y :: short) 10"
      using bit_imp_le_length [of y 10] by (auto simp: bit_simps)
    ultimately have "\<not> bit (1024 :: short) n \<or> \<not> bit (ucast y :: short) n" for n by blast
    then have "(1024 :: short) + ucast y = 1024 OR ucast y" by (rule disjunctive_add)
    then show ?thesis by (simp add: be16_def)
  qed
  have "sint (be16 4 y) = 1024 + int (unat y)" for y
  proof -
    have "unat y < 2 ^ LENGTH(8)" by (rule unsigned_less)
    then have "unat y < 256" by simp
    have "be16 4 y = of_nat (1024 + unat y)" by (simp add: be)
    then show ?thesis using \<open>unat y < 256\<close> by (simp only: sint_of_nat_short)
  qed
  with assms b1 show ?thesis by (auto simp: handle_req_ACK bindr_eq_Inr)
qed

theorem ack_log_misread_witness:
  "\<exists>o1 n s1. handle_req (ack_packet 7) (zeros 600) (demo_server [65] ()) = Inr (o1, n, s1) \<and>
     last (log s1) = Ack_log 1024"
proof -
  obtain o1 n s1 where h: "handle_req (ack_packet 7) (zeros 600) (demo_server [65] ()) = Inr (o1, n, s1)"
    using serve_ack_step [of "demo_server [65] ()" "\<lparr>f_content = [65], f_pos = 0\<rparr>" "zeros 600" 7]
    by (auto simp: demo_server_def)
  from ack_log_misread [OF ack_packet_fields(2) _ h] h show ?thesis
    by (auto simp: ack_packet_fields) (simp add: ack_packet_def)
qed

text \<open>C7: a read request whose name and mode end inside the buffer, for a file of at most 508 bytes
  that opens, and with both allocations succeeding, is answered: one datagram, the DATA packet
  number 1 with the whole file, goes to the client's address from a new socket; the session
  records socket, stream and a copy of the address; the stream stays open at its end.\<close>

theorem handle_RRQ_serves_small_file:
  assumes "length b = 512" "rrq_terminated b"
    and "os_fopen os (rrq_name b) (world s) = ((p, c), w0)" "p \<noteq> NULL" "length c \<le> 508"
    and "os_malloc os sizeof_SESSION w0 = (sess, w1)" "sess \<noteq> NULL" "os_socket os w1 = (fd, w2)"
    and "os_malloc os n w2 = (a, w3)" "a \<noteq> NULL" "n \<le> length addr"
    and "os_sendto os fd (data_packet 1 c) (take n addr) w3 = (r, w4)"
  shows "\<exists>s'. handle_RRQ os addr n b s = Inr (sess, s') \<and> world s' = w4 \<and> file_g s' = p \<and>
    streams s' = (streams s)(p \<mapsto> \<lparr>f_content = c, f_pos = length c\<rparr>) \<and>
    sessions (mem s') sess = Some \<lparr>sock_fd = fd, pFile = p, cli_addr = a, cli_addr_len = int n\<rparr> \<and>
    addrs (mem s') a = Some (take n addr)"
proof -
  let ?s = "(log_RRQ b s)\<lparr>file_g := p, world := w0, streams := (streams s)(p \<mapsto> \<lparr>f_content = c, f_pos = 0\<rparr>)\<rparr>"
  have "os_malloc os sizeof_SESSION (world ?s) = (sess, w1)" using assms(6) by simp
  from answer_RRQ_small [OF assms(4) _ _ assms(5) this assms(7-12)]
  show ?thesis using assms(4) by (auto simp: handle_RRQ_open [OF assms(1-4)])
qed

text \<open>A system in which one 2-byte file exists and everything succeeds.\<close>

definition demo_request :: "byte list" where
  "demo_request = [0, 1, 97, 0, 111, 0] @ zeros 506"

definition demo_os :: "byte list \<Rightarrow> (int \<times> int) set tftp_os" where
  "demo_os c = \<lparr>os_fopen = (\<lambda>nm w. ((16, c), w)), os_getcwd = (\<lambda>w. ([47], w)),
     os_malloc = (\<lambda>n w. (if n = 32 then 64 else 96, w)), os_socket = (\<lambda>w. (3, w)), os_bind = (\<lambda>k n w. (0, w)),
     os_sendto = (\<lambda>k d a w. (int (length d), w)),
     os_recvfrom = (\<lambda>k n w. ((6, [0, 1, 97, 0, 111, 0], zeros 16), w)),
     os_epoll_create1 = (\<lambda>w. (4, w)),
     os_epoll_ctl_add = (\<lambda>e k d w. if (e, k) \<in> w then (-1, w) else (0, insert (e, k) w)),
     os_epoll_wait = (\<lambda>e n w. ((1, [3]), w))\<rparr>"

lemma demo_request_parts: "length demo_request = 512" "rrq_terminated demo_request"
    "be16 (demo_request ! 0) (demo_request ! 1) = RRQ"
proof -
  have n: "rrq_name demo_request = [97]" by (simp add: rrq_name_def demo_request_def cstr_def)
  then have "rrq_mode demo_request = [111]"
    by (simp add: rrq_mode_def) (simp add: demo_request_def cstr_def)
  with n show "length demo_request = 512" "rrq_terminated demo_request"
    "be16 (demo_request ! 0) (demo_request ! 1) = RRQ"
    by (simp_all add: rrq_terminated_def) (simp_all add: demo_request_def be16_def RRQ_def)
qed

theorem handle_RRQ_serves_small_file_witness:
  "\<exists>s'. handle_RRQ (demo_os [72, 105]) (zeros 16) 16 demo_request (demo_server [] {}) = Inr (64, s') \<and>
     sessions (mem s') 64 = Some \<lparr>sock_fd = 3, pFile = 16, cli_addr = 96, cli_addr_len = 16\<rparr>"
  using handle_RRQ_serves_small_file [OF demo_request_parts(1,2), of "demo_os [72, 105]" "demo_server [] {}"
      16 "[72, 105]" "{}" 64 "{}" 3 "{}" 16 96 "{}" "zeros 16" 6 "{}"]
  by (auto simp: demo_os_def demo_server_def sizeof_SESSION_def)

text \<open>C8: the answer to a read request overflows its 512-byte output buffer for every file of more
  than 508 bytes: the four bytes of header do not fit beside a block of 509 to 512 bytes.\<close>

theorem handle_RRQ_overflows:
  assumes "length b = 512" "rrq_terminated b"
    and "os_fopen os (rrq_name b) (world s) = ((p, c), w0)" "p \<noteq> NULL" "508 < length c"
  shows "handle_RRQ os addr n b s = Inl OutOfBounds"
  unfolding handle_RRQ_open [OF assms(1-4)]
  by (rule answer_RRQ_overflow [OF assms(4) _ _ assms(5)]) simp_all

theorem handle_RRQ_overflows_witness:
  "handle_RRQ (demo_os (zeros 509)) (zeros 16) 16 demo_request (demo_server [] {}) = Inl OutOfBounds"
  by (rule handle_RRQ_overflows [OF demo_request_parts(1,2), of _ _ 16 "zeros 509" "{}"])
    (simp_all add: demo_os_def demo_server_def)

text \<open>C6: whatever datagrams arrive, as long as \<open>main\<close> is still in its loop no session has ever
  been created: with an epoll that refuses to add a descriptor twice, answering a read request
  ends the process, because the listening socket is added again instead of the session's.\<close>

theorem main_never_survives_a_session:
  assumes "epoll_contract os reg" "main_setup os w = Inr ((serverfd, epollfd), w')"
    and "world (srv m) = w'" "main_loop n os serverfd epollfd m = Inr m'"
  shows "mem (srv m') = mem (srv m)"
  using main_loop_reg [OF assms(1) _ assms(4)] main_setup_reg [OF assms(1,2)] assms(3) by simp

lemma demo_os_contract: "epoll_contract (demo_os c) (\<lambda>w e fd. (e, fd) \<in> w)"
  by (simp add: epoll_contract_def demo_os_def)

definition demo_main :: "(int \<times> int) set main_state" where
  "demo_main = \<lparr>in_buf = zeros 512, cliaddr = zeros 16, cli_len = 16, srv = demo_server [] {(4, 3)}\<rparr>"

text \<open>The same system without the file: every request is refused and the loop goes on.\<close>

definition demo_os_empty :: "(int \<times> int) set tftp_os" where
  "demo_os_empty = (demo_os [])\<lparr>os_fopen := (\<lambda>nm w. ((NULL, []), w))\<rparr>"

lemma demo_receive: "receive (demo_os c) 3 demo_main = demo_main\<lparr>in_buf := demo_request\<rparr>"
    "receive demo_os_empty 3 demo_main = demo_main\<lparr>in_buf := demo_request\<rparr>"
  by (simp_all add: receive_def demo_os_empty_def demo_os_def demo_main_def demo_server_def demo_request_def)

theorem main_never_survives_a_session_witness:
  "\<exists>m'. main_loop 1 demo_os_empty 3 4 demo_main = Inr m' \<and> mem (srv m') = mem (srv demo_main)"
proof -
  have c: "epoll_contract demo_os_empty (\<lambda>w e fd. (e, fd) \<in> w)"
    by (simp add: epoll_contract_def demo_os_empty_def demo_os_def)
  have s: "main_setup demo_os_empty {} = Inr ((3, 4), {(4, 3)})"
    by (simp add: main_setup_def demo_os_empty_def demo_os_def)
  have w: "world (srv demo_main) = {(4, 3)}" by (simp add: demo_main_def demo_server_def)
  have "handle_RRQ demo_os_empty (zeros 16) 16 demo_request (demo_server [] {(4, 3)}) =
      Inr (NULL, put_log (Open_error_log (rrq_name demo_request) [47])
        ((log_RRQ demo_request (demo_server [] {(4, 3)}))\<lparr>file_g := NULL, world := {(4, 3)}\<rparr>))"
    by (rule handle_RRQ_no_file [OF demo_request_parts(1,2)])
      (simp_all add: demo_os_empty_def demo_os_def demo_server_def)
  then have "\<exists>s'. handle_new_connection demo_os_empty (zeros 16) 16 demo_request (demo_server [] {(4, 3)}) = Inr (NULL, s')"
    using demo_request_parts by (simp add: handle_new_connection_def short_at_in ntohs_be16)
  then have "\<exists>m'. serve_event demo_os_empty 3 4 3 demo_main = Inr m'"
    by (auto simp: serve_event_def demo_receive) (simp add: demo_main_def)
  moreover have "os_epoll_wait demo_os_empty 4 10 (world (srv demo_main)) = ((1, [3]), world (srv demo_main))"
    by (simp add: demo_os_empty_def demo_os_def)
  ultimately obtain m' where "main_loop 1 demo_os_empty 3 4 demo_main = Inr m'"
    by (auto simp: main_iteration_def)
  with main_never_survives_a_session [OF c s w this] show ?thesis by blast
qed

text \<open>The other side of the same defect: a datagram that makes the handler create a session
  makes \<open>main\<close> exit with failure.\<close>

theorem answered_request_exits:
  assumes "epoll_contract os reg" "reg (world (srv m)) epollfd serverfd"
    and "handle_new_connection os (cliaddr (receive os serverfd m)) (cli_len (receive os serverfd m))
           (in_buf (receive os serverfd m)) (srv (receive os serverfd m)) = Inr (sess, s)"
    and "sess \<noteq> NULL" "sessions (mem s) sess = Some x"
  shows "serve_event os serverfd epollfd serverfd m = Inl (Exit 1)"
  using serve_event_session [OF assms(1,2)] assms(3-5) by blast

theorem answered_request_exits_witness:
  "serve_event (demo_os [72, 105]) 3 4 3 demo_main = Inl (Exit 1)"
proof -
  let ?m = "receive (demo_os [72, 105]) 3 demo_main"
  have rcv: "in_buf ?m = demo_request" "cliaddr ?m = zeros 16" "cli_len ?m = 16"
      "srv ?m = demo_server [] {(4, 3)}"
    by (simp_all add: demo_receive) (simp_all add: demo_main_def)
  obtain s' where h: "handle_RRQ (demo_os [72, 105]) (zeros 16) 16 demo_request (demo_server [] {(4, 3)}) = Inr (64, s')"
      and x: "sessions (mem s') 64 = Some \<lparr>sock_fd = 3, pFile = 16, cli_addr = 96, cli_addr_len = 16\<rparr>"
    using handle_RRQ_open [OF demo_request_parts(1,2), of "demo_os [72, 105]" "demo_server [] {(4, 3)}" 16 "[72, 105]" "{(4, 3)}"]
      answer_RRQ_small [of 16 "(log_RRQ demo_request (demo_server [] {(4, 3)}))\<lparr>file_g := 16, world := {(4, 3)},
        streams := (streams (demo_server [] {(4, 3)}))(16 \<mapsto> \<lparr>f_content = [72, 105], f_pos = 0\<rparr>)\<rparr>"
        "[72, 105]" "demo_os [72, 105]" 64 "{(4, 3)}" 3 "{(4, 3)}" 16 96 "{(4, 3)}" "zeros 16" 6 "{(4, 3)}"]
    by (auto simp: demo_os_def demo_server_def sizeof_SESSION_def)
  have "handle_new_connection (demo_os [72, 105]) (cliaddr ?m) (cli_len ?m) (in_buf ?m) (srv ?m) = Inr (64, s')"
    using h demo_request_parts by (simp add: handle_new_connection_def rcv short_at_in ntohs_be16)
  from answered_request_exits [OF demo_os_contract _ this _ x] show ?thesis
    by (simp add: demo_main_def demo_server_def)
qed

end
