(* ===== verification/Gtest_Printers.thy ===== *)
theory Gtest_Printers
  imports Prelude
begin

text \<open>
  The universal value printer of gtest-printers.h. The C++ overloads and template
  specialisations are chosen by the static type of the value, so the printers here take that
  type as an argument and recurse on it; the value is data of the shape the type describes.
  A stream is the text written to it so far, and \<open>None\<close> is the undefined behaviour of reading
  past an array or reading an object as one of another type.

  The theorem of this theory is the soundness of that dispatch: a value of the type is always
  printed, and what is printed is the reference text, in which a container shows its first 32
  elements, an array of more than 18 its first and last 8, and a tuple all its fields.
\<close>

section \<open>Static types and the values of a type\<close>

text \<open>
  What the overload resolution asks of a class: does it have its own \<open><<\<close>, is it a protocol
  message, does it convert to \<open>BiggestInt\<close>.
\<close>

record class_traits =
  has_stream :: bool
  IsAProtocolMessage :: bool
  ConvertibleToInteger :: bool

text \<open>
  \<open>TScalar\<close> is an arithmetic type with a built-in \<open><<\<close> and no \<open>PrintTo\<close> of its own;
  \<open>TBytePtr\<close> a pointer to signed or unsigned char; \<open>TContainer r t k\<close> an STL-style container
  with elements of type \<open>t\<close>, recursive when \<open>r\<close>.
\<close>

datatype cpp_type =
    TBool | TChar | TSignedChar | TScalar | TString | TCharPtr | TBytePtr | TPtr | TFunPtr
  | TArray cpp_type nat | TCharArray nat | TRef cpp_type
  | TPair cpp_type cpp_type | TTuple "cpp_type list"
  | TContainer bool cpp_type class_traits | TClass class_traits

text \<open>What an object of a class shows through each of the ways to print it.\<close>

record object_view =
  ov_streamed :: string
  ShortDebugString :: string
  DebugString :: string
  ov_integer :: int
  ov_bytes :: "byte list"

datatype cpp_value =
    VBool bool | VChar byte | VScalar int | VString string | VCharPtr ptr string
  | VAddress ptr | VArray ptr "cpp_value list" | VCharArray ptr string | VRef ptr cpp_value
  | VPair cpp_value cpp_value | VTuple "cpp_value list"
  | VContainer "cpp_value list" object_view | VObject object_view

fun has_type :: "cpp_type \<Rightarrow> cpp_value \<Rightarrow> bool" where
  "has_type TBool v = (case v of VBool b \<Rightarrow> True | _ \<Rightarrow> False)"
| "has_type TChar v = (case v of VChar c \<Rightarrow> True | _ \<Rightarrow> False)"
| "has_type TSignedChar v = (case v of VChar c \<Rightarrow> True | _ \<Rightarrow> False)"
| "has_type TScalar v = (case v of VScalar i \<Rightarrow> True | _ \<Rightarrow> False)"
| "has_type TString v = (case v of VString s \<Rightarrow> True | _ \<Rightarrow> False)"
| "has_type TCharPtr v = (case v of VCharPtr p s \<Rightarrow> True | _ \<Rightarrow> False)"
| "has_type TBytePtr v = (case v of VAddress p \<Rightarrow> True | _ \<Rightarrow> False)"
| "has_type TPtr v = (case v of VAddress p \<Rightarrow> True | _ \<Rightarrow> False)"
| "has_type TFunPtr v = (case v of VAddress p \<Rightarrow> True | _ \<Rightarrow> False)"
| "has_type (TArray t n) v =
     (case v of VArray p vs \<Rightarrow> length vs = n \<and> list_all (\<lambda>v. has_type t v) vs | _ \<Rightarrow> False)"
| "has_type (TCharArray n) v = (case v of VCharArray p s \<Rightarrow> length s = n | _ \<Rightarrow> False)"
| "has_type (TRef t) v = (case v of VRef p v \<Rightarrow> has_type t v | _ \<Rightarrow> False)"
| "has_type (TPair t u) v =
     (case v of VPair v w \<Rightarrow> has_type t v \<and> has_type u w | _ \<Rightarrow> False)"
| "has_type (TTuple ts) v =
     (case v of VTuple vs \<Rightarrow> list_all2 (\<lambda>f v. f v) (map (\<lambda>t. has_type t) ts) vs | _ \<Rightarrow> False)"
| "has_type (TContainer r t k) v =
     (case v of VContainer vs ob \<Rightarrow> list_all (\<lambda>v. has_type t v) vs | _ \<Rightarrow> False)"
| "has_type (TClass k) v = (case v of VObject ob \<Rightarrow> True | _ \<Rightarrow> False)"

section \<open>The printers outside the headers\<close>

text \<open>
  What the printers append to the stream that the headers only declare (their bodies are in
  gtest-printers.cc) and what the standard \<open><<\<close> writes for an address and for an integer.
\<close>

record print_env =
  pe_uchar :: "byte \<Rightarrow> string"
  pe_schar :: "byte \<Rightarrow> string"
  pe_cstring :: "ptr \<Rightarrow> string \<Rightarrow> string"
  pe_string :: "string \<Rightarrow> string"
  pe_char_array :: "string \<Rightarrow> string"
  pe_bytes :: "byte list \<Rightarrow> string"
  pe_address :: "ptr \<Rightarrow> string"
  pe_scalar :: "int \<Rightarrow> string"

type_synonym printer = "cpp_value \<Rightarrow> string \<Rightarrow> string option"

section \<open>Values without a formatter\<close>

datatype TypeKind = kProtobuf | kConvertibleToInteger | kOtherType

definition type_kind :: "class_traits \<Rightarrow> TypeKind" where
  "type_kind k = (if IsAProtocolMessage k then kProtobuf
     else if ConvertibleToInteger k then kConvertibleToInteger else kOtherType)"

definition kProtobufOneLinerMaxLength :: nat where
  "kProtobufOneLinerMaxLength = 50"

definition newline :: string where
  "newline = [CHR 0x0A]"

definition TypeWithoutFormatter :: "print_env \<Rightarrow> TypeKind \<Rightarrow> object_view \<Rightarrow> string \<Rightarrow> string" where
  "TypeWithoutFormatter E kind ob os = (case kind of
     kOtherType \<Rightarrow> os @ pe_bytes E (ov_bytes ob)
   | kProtobuf \<Rightarrow>
       (let pretty_str = ShortDebugString ob;
            pretty_str = (if length pretty_str > kProtobufOneLinerMaxLength
                          then newline @ DebugString ob else pretty_str)
        in os @ (''<'' @ pretty_str @ ''>''))
   | kConvertibleToInteger \<Rightarrow> os @ pe_scalar E (ov_integer ob))"

text \<open>A class's own \<open><<\<close> is picked before the one of \<open>internal2\<close>.\<close>

definition DefaultPrintNonContainerTo ::
  "print_env \<Rightarrow> class_traits \<Rightarrow> object_view \<Rightarrow> string \<Rightarrow> string" where
  "DefaultPrintNonContainerTo E k ob os =
     (if has_stream k then os @ ov_streamed ob
      else TypeWithoutFormatter E (type_kind k) ob os)"

section \<open>Containers, pointers, arrays and tuples\<close>

definition kMaxCount :: nat where "kMaxCount = 32"

fun container_loop :: "printer \<Rightarrow> nat \<Rightarrow> cpp_value list \<Rightarrow> string \<Rightarrow> (nat \<times> string) option" where
  "container_loop pr count [] os = Some (count, os)"
| "container_loop pr count (v # vs) os =
     (let os = (if count > 0 then os @ '','' else os) in
      if count > 0 \<and> count = kMaxCount then Some (count, os @ '' ...'')
      else Option.bind (pr v (os @ '' '')) (\<lambda>os. container_loop pr (Suc count) vs os))"

definition DefaultPrintTo_container :: "printer \<Rightarrow> cpp_value list \<Rightarrow> string \<Rightarrow> string option" where
  "DefaultPrintTo_container pr vs os =
     Option.bind (container_loop pr 0 vs (os @ ''{'')) (\<lambda>(count, os).
       Some ((if count > 0 then os @ '' '' else os) @ ''}''))"

text \<open>Object and function pointers differ in the conversion before \<open><<\<close>, not in the address.\<close>

definition DefaultPrintTo_pointer :: "print_env \<Rightarrow> ptr \<Rightarrow> string \<Rightarrow> string" where
  "DefaultPrintTo_pointer E p os = (if p = NULL then os @ ''NULL'' else os @ pe_address E p)"

text \<open>\<open>a[b + i]\<close> for \<open>i = 1\<close> on, until \<open>i == count\<close>; reading past the array is undefined.\<close>

function raw_array_loop ::
  "printer \<Rightarrow> cpp_value list \<Rightarrow> nat \<Rightarrow> nat \<Rightarrow> nat \<Rightarrow> string \<Rightarrow> string option" where
  "raw_array_loop pr a b i count os =
     (if i = count then Some os
      else if b + i < length a
      then Option.bind (pr (a ! (b + i)) (os @ '', ''))
             (\<lambda>os. raw_array_loop pr a b (Suc i) count os)
      else None)"
  by pat_completeness auto
termination by (relation "measure (\<lambda>(pr, a, b, i, count, os). length a - (b + i))") auto

definition PrintRawArrayTo ::
  "printer \<Rightarrow> cpp_value list \<Rightarrow> nat \<Rightarrow> nat \<Rightarrow> string \<Rightarrow> string option" where
  "PrintRawArrayTo pr a b count os =
     (if b < length a
      then Option.bind (pr (a ! b) os) (\<lambda>os. raw_array_loop pr a b 1 count os)
      else None)"

definition kThreshold :: nat where "kThreshold = 18"
definition kChunkSize :: nat where "kChunkSize = 8"

definition UniversalPrintArray ::
  "printer \<Rightarrow> cpp_value list \<Rightarrow> nat \<Rightarrow> string \<Rightarrow> string option" where
  "UniversalPrintArray pr a len os =
     (if len = 0 then Some (os @ ''{}'')
      else Option.bind
        (if len \<le> kThreshold then PrintRawArrayTo pr a 0 len (os @ ''{ '')
         else Option.bind (PrintRawArrayTo pr a 0 kChunkSize (os @ ''{ ''))
                (\<lambda>os. PrintRawArrayTo pr a (len - kChunkSize) kChunkSize (os @ '', ..., '')))
        (\<lambda>os. Some (os @ '' }'')))"

text \<open>\<open>TuplePrefixPrinter<N>\<close>: the printers of the fields' types and the fields.\<close>

fun PrintPrefixTo :: "printer list \<Rightarrow> nat \<Rightarrow> cpp_value list \<Rightarrow> string \<Rightarrow> string option" where
  "PrintPrefixTo prs 0 t os = Some os"
| "PrintPrefixTo prs (Suc n) t os = Option.bind (PrintPrefixTo prs n t os) (\<lambda>os.
     if n < length prs \<and> n < length t
     then (prs ! n) (t ! n) (if Suc n > 1 then os @ '', '' else os) else None)"

definition PrintTupleTo :: "printer list \<Rightarrow> cpp_value list \<Rightarrow> string \<Rightarrow> string option" where
  "PrintTupleTo prs t os =
     Option.bind (PrintPrefixTo prs (length prs) t (os @ ''('')) (\<lambda>os. Some (os @ '')''))"

section \<open>The universal printer\<close>

datatype DefaultPrinterType = kPrintContainer | kPrintPointer | kPrintFunctionPointer | kPrintOther

fun is_pointer :: "cpp_type \<Rightarrow> bool" where
  "is_pointer t = (t \<in> {TCharPtr, TBytePtr, TPtr, TFunPtr})"

fun is_container :: "cpp_type \<Rightarrow> bool" where
  "is_container (TContainer r t k) = True"
| "is_container _ = False"

fun IsRecursiveContainer :: "cpp_type \<Rightarrow> bool" where
  "IsRecursiveContainer (TContainer r t k) = r"
| "IsRecursiveContainer _ = False"

definition default_printer_type :: "cpp_type \<Rightarrow> DefaultPrinterType" where
  "default_printer_type t =
     (if is_container t \<and> \<not> IsRecursiveContainer t then kPrintContainer
      else if \<not> is_pointer t then kPrintOther
      else if t = TFunPtr then kPrintFunctionPointer else kPrintPointer)"

text \<open>Template argument deduction from a \<open>const T&\<close> parameter drops the reference.\<close>

fun deduced :: "cpp_type \<Rightarrow> cpp_type" where
  "deduced (TRef t) = deduced t"
| "deduced t = t"

fun referred :: "cpp_type \<Rightarrow> cpp_value \<Rightarrow> cpp_value" where
  "referred (TRef t) v = (case v of VRef p v \<Rightarrow> referred t v | _ \<Rightarrow> v)"
| "referred t v = v"

lemma size_deduced [termination_simp]: "size (deduced t) \<le> size t"
  by (induction t) auto

text \<open>
  The measure counts three calls for one type constructor: \<open>UniversalPrint\<close> goes to
  \<open>UniversalPrinter\<close> and that to \<open>PrintTo\<close> at the same type.
\<close>

function (sequential) PrintTo ::
    "print_env \<Rightarrow> cpp_type \<Rightarrow> cpp_value \<Rightarrow> string \<Rightarrow> string option"
  and UniversalPrinter :: "print_env \<Rightarrow> cpp_type \<Rightarrow> cpp_value \<Rightarrow> string \<Rightarrow> string option"
  and UniversalPrint :: "print_env \<Rightarrow> cpp_type \<Rightarrow> cpp_value \<Rightarrow> string \<Rightarrow> string option" where
  "PrintTo E TBool v os = (case v of
     VBool x \<Rightarrow> Some (os @ (if x then ''true'' else ''false'')) | _ \<Rightarrow> None)"
| "PrintTo E TChar v os = (case v of VChar c \<Rightarrow> Some (os @ pe_uchar E c) | _ \<Rightarrow> None)"
| "PrintTo E TSignedChar v os = (case v of VChar c \<Rightarrow> Some (os @ pe_schar E c) | _ \<Rightarrow> None)"
| "PrintTo E TString v os = (case v of VString s \<Rightarrow> Some (os @ pe_string E s) | _ \<Rightarrow> None)"
| "PrintTo E TCharPtr v os = (case v of
     VCharPtr p s \<Rightarrow> Some (os @ pe_cstring E p s) | _ \<Rightarrow> None)"
| "PrintTo E TBytePtr v os = PrintTo E TPtr v os"
| "PrintTo E (TTuple ts) v os = (case v of
     VTuple vs \<Rightarrow> PrintTupleTo (map (\<lambda>t v os. UniversalPrinter E t v os) ts) vs os | _ \<Rightarrow> None)"
| "PrintTo E (TPair t u) v os = (case v of
     VPair x y \<Rightarrow> Option.bind (UniversalPrinter E t x (os @ ''('')) (\<lambda>os.
       Option.bind (UniversalPrinter E u y (os @ '', '')) (\<lambda>os. Some (os @ '')'')))
   | _ \<Rightarrow> None)"
| "PrintTo E (TContainer r t k) v os = (case v of
     VContainer vs ob \<Rightarrow> (case default_printer_type (TContainer r t k) of
         kPrintContainer \<Rightarrow> DefaultPrintTo_container (\<lambda>v os. UniversalPrint E t v os) vs os
       | _ \<Rightarrow> Some (DefaultPrintNonContainerTo E k ob os))
   | _ \<Rightarrow> None)"
| "PrintTo E (TClass k) v os = (case v of
     VObject ob \<Rightarrow> Some (DefaultPrintNonContainerTo E k ob os) | _ \<Rightarrow> None)"
| "PrintTo E t v os = (case default_printer_type t of
     kPrintOther \<Rightarrow> (case v of VScalar i \<Rightarrow> Some (os @ pe_scalar E i) | _ \<Rightarrow> None)
   | _ \<Rightarrow> (case v of VAddress p \<Rightarrow> Some (DefaultPrintTo_pointer E p os) | _ \<Rightarrow> None))"
| "UniversalPrinter E (TArray t n) v os = (case v of
     VArray p vs \<Rightarrow> UniversalPrintArray (\<lambda>v os. UniversalPrint E t v os) vs n os | _ \<Rightarrow> None)"
| "UniversalPrinter E (TCharArray n) v os = (case v of
     VCharArray p s \<Rightarrow> Some (os @ pe_char_array E s) | _ \<Rightarrow> None)"
| "UniversalPrinter E (TRef t) v os = (case v of
     VRef p x \<Rightarrow> UniversalPrint E t x (os @ ''@'' @ pe_address E p @ '' '') | _ \<Rightarrow> None)"
| "UniversalPrinter E t v os = PrintTo E t v os"
| "UniversalPrint E t v os = UniversalPrinter E (deduced t) (referred t v) os"
  by pat_completeness auto
termination
  by (relation "measure (\<lambda>x. case x of
     Inl (E, t, v, os) \<Rightarrow> 4 * size t + (if t = TBytePtr then 1 else 0)
   | Inr (Inl (E, t, v, os)) \<Rightarrow> 4 * size t + 2
   | Inr (Inr (E, t, v, os)) \<Rightarrow> 4 * size t + 3)")
    (auto simp: less_Suc_eq_le size_deduced
      dest!: size_list_estimation' [OF _ order_refl, where f = size])

text \<open>\<open>UniversalTersePrinter\<close>: a char pointer prints as the string it points to.\<close>

definition UniversalTersePrinter ::
  "print_env \<Rightarrow> cpp_type \<Rightarrow> cpp_value \<Rightarrow> string \<Rightarrow> string option" where
  "UniversalTersePrinter E t v os = (case t of
     TRef t' \<Rightarrow> (case v of VRef p x \<Rightarrow> UniversalPrint E t' x os | _ \<Rightarrow> None)
   | TArray t' n \<Rightarrow> UniversalPrinter E t v os
   | TCharArray n \<Rightarrow> UniversalPrinter E t v os
   | TCharPtr \<Rightarrow> (case v of
        VCharPtr p s \<Rightarrow> if p = NULL then Some (os @ ''NULL'') else UniversalPrint E TString (VString s) os
      | _ \<Rightarrow> None)
   | _ \<Rightarrow> UniversalPrint E t v os)"

definition UniversalTersePrint ::
  "print_env \<Rightarrow> cpp_type \<Rightarrow> cpp_value \<Rightarrow> string \<Rightarrow> string option" where
  "UniversalTersePrint E t v os = UniversalTersePrinter E (deduced t) (referred t v) os"

definition PrintToString :: "print_env \<Rightarrow> cpp_type \<Rightarrow> cpp_value \<Rightarrow> string option" where
  "PrintToString E t v = UniversalTersePrinter E (deduced t) (referred t v) []"

fun TersePrintPrefixToStrings ::
  "print_env \<Rightarrow> cpp_type list \<Rightarrow> nat \<Rightarrow> cpp_value list \<Rightarrow> string list \<Rightarrow> string list option" where
  "TersePrintPrefixToStrings E ts 0 t strings = Some strings"
| "TersePrintPrefixToStrings E ts (Suc n) t strings =
     Option.bind (TersePrintPrefixToStrings E ts n t strings) (\<lambda>strings.
       if n < length ts \<and> n < length t
       then Option.bind (UniversalTersePrint E (ts ! n) (t ! n) []) (\<lambda>ss. Some (strings @ [ss]))
       else None)"

definition UniversalTersePrintTupleFieldsToStrings ::
  "print_env \<Rightarrow> cpp_type list \<Rightarrow> cpp_value list \<Rightarrow> string list option" where
  "UniversalTersePrintTupleFieldsToStrings E ts t =
     TersePrintPrefixToStrings E ts (length ts) t []"

section \<open>Operands of comparison assertions\<close>

text \<open>The C string an array decays to: its characters up to the NUL it has to hold.\<close>

definition c_string :: "string \<Rightarrow> string option" where
  "c_string s = (if CHR 0x00 \<in> set s then Some (takeWhile (\<lambda>c. c \<noteq> CHR 0x00) s) else None)"

text \<open>
  \<open>FormatForComparison<ToPrint, OtherOperand>::Format\<close>: an array is formatted as the pointer
  it decays to; a char pointer as its string against a \<open>std::string\<close> and as an address
  against anything else.
\<close>

definition FormatForComparison ::
  "print_env \<Rightarrow> cpp_type \<Rightarrow> cpp_type \<Rightarrow> cpp_value \<Rightarrow> string option" where
  "FormatForComparison E to_print other v = (case to_print of
     TArray t n \<Rightarrow> (case v of VArray p vs \<Rightarrow> PrintToString E TPtr (VAddress p) | _ \<Rightarrow> None)
   | TCharArray n \<Rightarrow> (case v of
        VCharArray p s \<Rightarrow>
          if other = TString
          then Option.bind (c_string s) (\<lambda>s. PrintToString E TCharPtr (VCharPtr p s))
          else PrintToString E TPtr (VAddress p)
      | _ \<Rightarrow> None)
   | TCharPtr \<Rightarrow> (case v of
        VCharPtr p s \<Rightarrow>
          if other = TString then PrintToString E TCharPtr (VCharPtr p s)
          else PrintToString E TPtr (VAddress p)
      | _ \<Rightarrow> None)
   | _ \<Rightarrow> PrintToString E to_print v)"

definition FormatForComparisonFailureMessage ::
  "print_env \<Rightarrow> cpp_type \<Rightarrow> cpp_value \<Rightarrow> cpp_type \<Rightarrow> string option" where
  "FormatForComparisonFailureMessage E t1 value1 t2 =
     FormatForComparison E (deduced t1) (deduced t2) (referred t1 value1)"

section \<open>The reference text\<close>

fun join :: "string \<Rightarrow> string list \<Rightarrow> string" where
  "join sep [] = []"
| "join sep [x] = x"
| "join sep (x # y # ys) = x @ sep @ join sep (y # ys)"

definition container_text :: "string list \<Rightarrow> string" where
  "container_text ts = (if ts = [] then ''{}''
     else ''{ '' @ join '', '' (take 32 ts @ (if length ts > 32 then [''...''] else [])) @ '' }'')"

definition array_text :: "string list \<Rightarrow> string" where
  "array_text ts = (if ts = [] then ''{}''
     else ''{ '' @ join '', '' (if length ts \<le> 18 then ts
            else take 8 ts @ [''...''] @ drop (length ts - 8) ts) @ '' }'')"

definition tuple_text :: "string list \<Rightarrow> string" where
  "tuple_text ts = ''('' @ join '', '' ts @ '')''"

definition pointer_text :: "print_env \<Rightarrow> ptr \<Rightarrow> string" where
  "pointer_text E p = (if p = NULL then ''NULL'' else pe_address E p)"

definition class_text :: "print_env \<Rightarrow> class_traits \<Rightarrow> object_view \<Rightarrow> string" where
  "class_text E k ob =
     (if has_stream k then ov_streamed ob
      else if IsAProtocolMessage k
      then ''<'' @ (if length (ShortDebugString ob) \<le> 50 then ShortDebugString ob
                   else newline @ DebugString ob) @ ''>''
      else if ConvertibleToInteger k then pe_scalar E (ov_integer ob)
      else pe_bytes E (ov_bytes ob))"

text \<open>\<open>value_text E True t v\<close> shows the address of a reference, \<open>value_text E False t v\<close> does not.\<close>

fun value_text :: "print_env \<Rightarrow> bool \<Rightarrow> cpp_type \<Rightarrow> cpp_value \<Rightarrow> string" where
  "value_text E a TBool v = (case v of VBool True \<Rightarrow> ''true'' | _ \<Rightarrow> ''false'')"
| "value_text E a TChar v = (case v of VChar c \<Rightarrow> pe_uchar E c | _ \<Rightarrow> [])"
| "value_text E a TSignedChar v = (case v of VChar c \<Rightarrow> pe_schar E c | _ \<Rightarrow> [])"
| "value_text E a TScalar v = (case v of VScalar i \<Rightarrow> pe_scalar E i | _ \<Rightarrow> [])"
| "value_text E a TString v = (case v of VString s \<Rightarrow> pe_string E s | _ \<Rightarrow> [])"
| "value_text E a TCharPtr v = (case v of VCharPtr p s \<Rightarrow> pe_cstring E p s | _ \<Rightarrow> [])"
| "value_text E a TBytePtr v = (case v of VAddress p \<Rightarrow> pointer_text E p | _ \<Rightarrow> [])"
| "value_text E a TPtr v = (case v of VAddress p \<Rightarrow> pointer_text E p | _ \<Rightarrow> [])"
| "value_text E a TFunPtr v = (case v of VAddress p \<Rightarrow> pointer_text E p | _ \<Rightarrow> [])"
| "value_text E a (TArray t n) v = (case v of
     VArray p vs \<Rightarrow> array_text (map (\<lambda>v. value_text E False t v) vs) | _ \<Rightarrow> [])"
| "value_text E a (TCharArray n) v = (case v of VCharArray p s \<Rightarrow> pe_char_array E s | _ \<Rightarrow> [])"
| "value_text E a (TRef t) v = (case v of
     VRef p v \<Rightarrow> (if a then ''@'' @ pe_address E p @ '' '' else []) @ value_text E False t v | _ \<Rightarrow> [])"
| "value_text E a (TPair t u) v = (case v of
     VPair x y \<Rightarrow> tuple_text [value_text E True t x, value_text E True u y] | _ \<Rightarrow> [])"
| "value_text E a (TTuple ts) v = (case v of
     VTuple vs \<Rightarrow> tuple_text (map2 (\<lambda>f v. f v) (map (\<lambda>t. value_text E True t) ts) vs) | _ \<Rightarrow> [])"
| "value_text E a (TContainer r t k) v = (case v of
     VContainer vs ob \<Rightarrow>
       if r then class_text E k ob
       else container_text (map (\<lambda>v. value_text E False t v) vs)
   | _ \<Rightarrow> [])"
| "value_text E a (TClass k) v = (case v of VObject ob \<Rightarrow> class_text E k ob | _ \<Rightarrow> [])"

section \<open>The loops write the reference text\<close>

lemma join_Cons: "join sep (x # xs) = x @ concat (map (\<lambda>y. sep @ y) xs)"
proof (induction xs arbitrary: x)
  case (Cons y ys)
  then show ?case by simp
qed simp

lemma join_snoc: "join sep (xs @ [x]) = (if xs = [] then x else join sep xs @ sep @ x)"
  by (cases xs) (simp_all add: join_Cons)

text \<open>\<open>pr\<close> appends \<open>f v\<close> for each of the values.\<close>

definition appends :: "printer \<Rightarrow> (cpp_value \<Rightarrow> string) \<Rightarrow> cpp_value set \<Rightarrow> bool" where
  "appends pr f V \<longleftrightarrow> (\<forall>v \<in> V. \<forall>os. pr v os = Some (os @ f v))"

lemma appendsD: "appends pr f V \<Longrightarrow> v \<in> V \<Longrightarrow> pr v os = Some (os @ f v)"
  by (simp add: appends_def)

lemma container_loop_text:
  assumes "appends pr f (set vs)" and "0 < count" and "count \<le> 32"
  shows "container_loop pr count vs os = Some (min 32 (count + length vs),
     os @ concat (map (\<lambda>y. '', '' @ y)
       (take (32 - count) (map f vs) @ (if count + length vs > 32 then [''...''] else []))))"
  using assms
proof (induction vs arbitrary: count os)
  case (Cons v vs)
  from Cons.prems have hd: "pr v s = Some (s @ f v)" for s
    by (simp add: appends_def)
  from Cons.prems have tl: "appends pr f (set vs)"
    by (simp add: appends_def)
  show ?case
  proof (cases "count = 32")
    case True
    then show ?thesis by (simp add: kMaxCount_def)
  next
    case False
    with Cons.prems have lt: "count < 32" by simp
    then obtain m where m: "32 - count = Suc m" "32 - Suc count = m"
      by (cases "32 - count") auto
    show ?thesis
      using Cons.IH [OF tl, of "Suc count"] Cons.prems lt m
      by (simp add: kMaxCount_def hd)
  qed
qed simp

lemma DefaultPrintTo_container_text:
  assumes "appends pr f (set vs)"
  shows "DefaultPrintTo_container pr vs os = Some (os @ container_text (map f vs))"
proof (cases vs)
  case Nil
  then show ?thesis by (simp add: DefaultPrintTo_container_def container_text_def)
next
  case (Cons v ws)
  from assms Cons have hd: "pr v s = Some (s @ f v)" for s
    by (simp add: appends_def)
  from assms Cons have tl: "appends pr f (set ws)"
    by (simp add: appends_def)
  have "take 32 (map f (v # ws)) = f v # take 31 (map f ws)"
    by (simp add: numeral_eq_Suc)
  with Cons container_loop_text [OF tl, of 1] show ?thesis
    by (simp add: DefaultPrintTo_container_def container_text_def hd join_Cons)
qed

lemma raw_array_loop_text:
  assumes "appends pr f (set a)" and "i \<le> count" and "b + count \<le> length a"
  shows "raw_array_loop pr a b i count os =
    Some (os @ concat (map (\<lambda>v. '', '' @ f v) (take (count - i) (drop (b + i) a))))"
  using assms(2)
proof (induction "count - i" arbitrary: i os)
  case 0
  then show ?case by (subst raw_array_loop.simps) simp
next
  case (Suc k)
  then have i: "i < count" "b + i < length a" using assms(3) by linarith+
  then have "take (count - i) (drop (b + i) a)
      = a ! (b + i) # take (count - Suc i) (drop (b + Suc i) a)"
    by (simp add: Cons_nth_drop_Suc [symmetric] take_Cons' )
  with i Suc.hyps(1) [of "Suc i"] Suc.hyps(2) show ?case
    by (subst raw_array_loop.simps) (simp add: appendsD [OF assms(1)])
qed

lemma PrintRawArrayTo_text:
  assumes "appends pr f (set a)" and "0 < count" and "b + count \<le> length a"
  shows "PrintRawArrayTo pr a b count os = Some (os @ join '', '' (map f (take count (drop b a))))"
proof -
  from assms have b: "b < length a" by simp
  obtain n where n: "count = Suc n" using assms(2) by (cases count) auto
  have "take count (drop b a) = a ! b # take (count - 1) (drop (b + 1) a)"
    using b n by (simp add: Cons_nth_drop_Suc [symmetric])
  with b raw_array_loop_text [OF assms(1) _ assms(3), of 1] n show ?thesis
    by (simp add: PrintRawArrayTo_def appendsD [OF assms(1)] join_Cons o_def)
qed

lemma UniversalPrintArray_text:
  assumes "appends pr f (set a)"
  shows "UniversalPrintArray pr a (length a) os = Some (os @ array_text (map f a))"
proof (cases "length a \<le> 18")
  case True
  then show ?thesis
    using PrintRawArrayTo_text [OF assms, of "length a" 0]
    by (auto simp: UniversalPrintArray_def array_text_def kThreshold_def)
next
  case False
  then have a: "a \<noteq> []" "take 8 a \<noteq> []" by auto
  have "join '', '' (xs @ [''...''] @ ys) = join '', '' xs @ '', ..., '' @ join '', '' ys"
    if "xs \<noteq> []" "ys \<noteq> []" for xs ys
    using that by (cases xs; cases ys) (simp_all add: join_Cons)
  from this [of "map f (take 8 a)" "map f (drop (length a - 8) a)"] False a
    PrintRawArrayTo_text [OF assms, of 8 0] PrintRawArrayTo_text [OF assms, of 8 "length a - 8"]
  show ?thesis
    by (simp add: UniversalPrintArray_def array_text_def kThreshold_def kChunkSize_def
          take_map drop_map)
qed

lemma PrintPrefixTo_text:
  assumes "length prs = length t" and "\<And>i os. i < length t \<Longrightarrow> (prs ! i) (t ! i) os = Some (os @ ss ! i)"
    and "length ss = length t" and "n \<le> length t"
  shows "PrintPrefixTo prs n t os = Some (os @ join '', '' (take n ss))"
  using assms(4)
proof (induction n)
  case (Suc n)
  then have "take (Suc n) ss = take n ss @ [ss ! n]"
    using assms(3) by (simp add: take_Suc_conv_app_nth)
  with Suc assms show ?case by (auto simp: join_snoc)
qed simp

lemma PrintTupleTo_text:
  assumes "length prs = length t" and "\<And>i os. i < length t \<Longrightarrow> (prs ! i) (t ! i) os = Some (os @ ss ! i)"
    and "length ss = length t"
  shows "PrintTupleTo prs t os = Some (os @ tuple_text ss)"
  using PrintPrefixTo_text [OF assms order_refl] assms(1,3)
  by (simp add: PrintTupleTo_def tuple_text_def)

lemma DefaultPrintNonContainerTo_text:
  "DefaultPrintNonContainerTo E k ob os = os @ class_text E k ob"
  by (simp add: DefaultPrintNonContainerTo_def class_text_def TypeWithoutFormatter_def
      type_kind_def kProtobufOneLinerMaxLength_def)

lemma DefaultPrintTo_pointer_text: "DefaultPrintTo_pointer E p os = os @ pointer_text E p"
  by (simp add: DefaultPrintTo_pointer_def pointer_text_def)

lemmas print_texts =
  DefaultPrintNonContainerTo_text DefaultPrintTo_pointer_text default_printer_type_def

section \<open>Soundness of the dispatch\<close>

definition prints_as_text :: "print_env \<Rightarrow> cpp_type \<Rightarrow> bool" where
  "prints_as_text E t \<longleftrightarrow> (\<forall>v os. has_type t v \<longrightarrow>
     UniversalPrinter E t v os = Some (os @ value_text E True t v) \<and>
     UniversalPrint E t v os = Some (os @ value_text E False t v))"

lemma prints_as_textD:
  assumes "prints_as_text E t" and "has_type t v"
  shows "UniversalPrinter E t v os = Some (os @ value_text E True t v)"
    and "UniversalPrint E t v os = Some (os @ value_text E False t v)"
  using assms by (simp_all add: prints_as_text_def)

lemma prints_elements:
  assumes "prints_as_text E t" and "list_all (has_type t) vs"
  shows "appends (\<lambda>v os. UniversalPrint E t v os) (value_text E False t) (set vs)"
  using assms by (auto simp: appends_def prints_as_text_def list_all_iff)

lemma prints_leaf:
  assumes "\<And>v os. has_type t v \<Longrightarrow> UniversalPrinter E t v os = Some (os @ value_text E True t v)"
    and "deduced t = t" and "\<And>v. referred t v = v"
    and "\<And>v. value_text E True t v = value_text E False t v"
  shows "prints_as_text E t"
  using assms by (simp add: prints_as_text_def)

lemma prints_tuple:
  assumes "\<And>t. t \<in> set ts \<Longrightarrow> prints_as_text E t"
  shows "prints_as_text E (TTuple ts)"
proof (rule prints_leaf)
  fix v os
  assume "has_type (TTuple ts) v"
  then obtain vs where v: "v = VTuple vs" and ty: "list_all2 (\<lambda>t v. has_type t v) ts vs"
    by (auto simp: list_all2_map1 split: cpp_value.splits)
  have "(\<lambda>v os. UniversalPrinter E (ts ! i) v os) (vs ! i) s
      = Some (s @ value_text E True (ts ! i) (vs ! i))" if "i < length vs" for i s
    using that ty assms by (simp add: list_all2_conv_all_nth prints_as_textD)
  with ty show "UniversalPrinter E (TTuple ts) v os = Some (os @ value_text E True (TTuple ts) v)"
    by (simp add: v PrintTupleTo_text list_all2_conv_all_nth)
qed simp_all

lemma all_types_print: "prints_as_text E t"
proof (induction t)
  case (TArray t n)
  show ?case
    by (rule prints_leaf)
      (auto simp: UniversalPrintArray_text [OF prints_elements [OF TArray]] split: cpp_value.splits)
next
  case (TRef t)
  then show ?case by (auto simp: prints_as_text_def split: cpp_value.splits)
next
  case (TPair t u)
  then show ?case
    by (intro prints_leaf)
      (auto simp: prints_as_textD tuple_text_def split: cpp_value.splits)
next
  case (TTuple ts)
  then show ?case by (rule prints_tuple)
next
  case (TContainer r t k)
  show ?case
    by (rule prints_leaf)
      (auto simp: DefaultPrintTo_container_text [OF prints_elements [OF TContainer]] print_texts
        split: cpp_value.splits)
qed (rule prints_leaf; auto simp: print_texts split: cpp_value.splits)+

text \<open>
C27: every value of a static type is printed, whatever the nesting of pairs, tuples, arrays,
containers, references, pointers and class objects: the printer the overload resolution picks
for the type accepts the value, no array is read out of its bounds, and what is appended to
the stream is the reference text, with the address of a reference shown by
\<open>UniversalPrinter<T&>\<close> and not by \<open>UniversalPrint\<close>. In the reference text a container shows its
first 32 elements and then an ellipsis, an array of up to 18 elements all of them and a longer
one its first and last 8, a tuple and a pair their fields in parentheses.
\<close>

theorem well_typed_values_print:
  assumes "has_type t v"
  shows "UniversalPrinter E t v os = Some (os @ value_text E True t v) \<and>
    UniversalPrint E t v os = Some (os @ value_text E False t v)"
  using prints_as_textD [OF all_types_print assms] by simp

text \<open>
  A pair of a reference to a bool and an array of nineteen integers, with an address shown as
  \<open>p\<close> and an integer as \<open>+\<close> or \<open>-\<close>: the array shows eight elements at each end.
\<close>

definition sample_env :: print_env where
  "sample_env = \<lparr>pe_uchar = (\<lambda>c. ''c''), pe_schar = (\<lambda>c. ''c''), pe_cstring = (\<lambda>p s. s),
     pe_string = (\<lambda>s. s), pe_char_array = (\<lambda>s. s), pe_bytes = (\<lambda>bs. ''b''),
     pe_address = (\<lambda>p. ''p''), pe_scalar = (\<lambda>i. if i < 0 then ''-'' else ''+'')\<rparr>"

theorem well_typed_values_print_witness:
  "has_type (TPair (TRef TBool) (TArray TScalar 19))
     (VPair (VRef 5 (VBool True)) (VArray 9 (map VScalar (replicate 9 1 @ replicate 10 (- 1))))) \<and>
   UniversalPrinter sample_env (TPair (TRef TBool) (TArray TScalar 19))
     (VPair (VRef 5 (VBool True)) (VArray 9 (map VScalar (replicate 9 1 @ replicate 10 (- 1))))) ''x = ''
   = Some ''x = (@p true, { +, +, +, +, +, +, +, +, ..., -, -, -, -, -, -, -, - })''"
proof -
  let ?t = "TPair (TRef TBool) (TArray TScalar 19)"
  let ?v = "VPair (VRef 5 (VBool True))
    (VArray 9 (map VScalar (replicate 9 1 @ replicate 10 (- 1))))"
  have ty: "has_type ?t ?v" by (simp add: list_all_iff)
  have "value_text sample_env True ?t ?v
      = ''(@p true, { +, +, +, +, +, +, +, +, ..., -, -, -, -, -, -, -, - })''"
    by (simp add: sample_env_def tuple_text_def array_text_def numeral_eq_Suc)
  with ty well_typed_values_print [OF ty, of sample_env "''x = ''"] show ?thesis by simp
qed

section \<open>Terse printing\<close>

definition terse_text :: "print_env \<Rightarrow> cpp_type \<Rightarrow> cpp_value \<Rightarrow> string" where
  "terse_text E t v = (case referred t v of
     VCharPtr p s \<Rightarrow> if p = NULL then ''NULL'' else pe_string E s
   | _ \<Rightarrow> value_text E False t v)"

lemma referred_typed: "has_type t v \<Longrightarrow> has_type (deduced t) (referred t v)"
  by (induction t arbitrary: v) (auto split: cpp_value.splits)

lemma value_text_referred:
  "has_type t v \<Longrightarrow> value_text E False t v = value_text E False (deduced t) (referred t v)"
  by (induction t arbitrary: v) (auto split: cpp_value.splits)

lemma deduced_not_ref: "deduced t \<noteq> TRef u"
  by (induction t) auto

lemma UniversalTersePrint_text:
  assumes "has_type t v"
  shows "UniversalTersePrint E t v os = Some (os @ terse_text E t v)"
proof -
  let ?t = "deduced t" and ?v = "referred t v"
  note ty = referred_typed [OF assms]
  have dd: "deduced ?t = ?t" "referred ?t ?v = ?v"
    using deduced_not_ref [of t] by (cases ?t; simp)+
  have "UniversalPrinter E ?t ?v os = Some (os @ value_text E False t v)"
    using prints_as_textD(2) [OF all_types_print assms, of E os]
    by (simp del: UniversalPrinter.simps)
  moreover have "UniversalPrint E ?t ?v os = UniversalPrinter E ?t ?v os"
    by (simp add: dd del: UniversalPrinter.simps)
  moreover have "UniversalPrint E TString (VString s) os = Some (os @ pe_string E s)" for s
    by simp
  ultimately show ?thesis
    using ty deduced_not_ref [of t]
    by (cases ?t) (auto simp: UniversalTersePrint_def UniversalTersePrinter_def terse_text_def
        simp del: UniversalPrint.simps UniversalPrinter.simps split: cpp_value.splits)
qed

lemma PrintToString_text: "has_type t v \<Longrightarrow> PrintToString E t v = Some (terse_text E t v)"
  using UniversalTersePrint_text [of t v E "[]"]
  by (simp add: UniversalTersePrint_def PrintToString_def)

lemma TersePrintPrefixToStrings_text:
  assumes "list_all2 has_type ts vs" and "n \<le> length ts"
  shows "TersePrintPrefixToStrings E ts n vs ss
    = Some (ss @ map2 (terse_text E) (take n ts) (take n vs))"
  using assms(2)
proof (induction n)
  case (Suc n)
  with assms(1) have "n < length ts" "n < length vs" "has_type (ts ! n) (vs ! n)"
    by (auto simp: list_all2_conv_all_nth)
  with Suc show ?case
    by (simp add: UniversalTersePrint_text take_Suc_conv_app_nth)
qed simp

theorem tuple_fields_to_strings:
  assumes "list_all2 has_type ts vs"
  shows "UniversalTersePrintTupleFieldsToStrings E ts vs = Some (map2 (terse_text E) ts vs)"
  using TersePrintPrefixToStrings_text [OF assms order_refl, of E "[]"] assms
  by (simp add: UniversalTersePrintTupleFieldsToStrings_def list_all2_lengthD)
end
