(* ===== verification/Gtest_Floating_Point.thy ===== *)
theory Gtest_Floating_Point
  imports Prelude
begin

text \<open>
  The comparison of floating point numbers of the bundled googletest (\<open>FloatingPoint\<close> in
  \<open>gtest/internal/gtest-internal.h\<close>). A number is its bits, a word of the size of the raw type:
  the union of the class reads a value as its bits and \<open>ReinterpretBits\<close> reads bits as a value. The
  number of fraction bits, \<open>numeric_limits<RawType>::digits - 1\<close>, is an argument: 23 for \<open>float\<close> (32
  bits), 52 for \<open>double\<close> (64 bits). Main result: the distance the class computes on the bits is the number
  of floating point numbers passed on the way from one number to the other.
\<close>

unbundle bit_operations_syntax

section \<open>FloatingPoint\<close>

definition kBitCount :: "'a::len word \<Rightarrow> nat" where
  "kBitCount w = LENGTH('a)"

definition kExponentBitCount :: "nat \<Rightarrow> 'a::len word \<Rightarrow> nat" where
  "kExponentBitCount fb w = kBitCount w - 1 - fb"

definition kSignBitMask :: "'a::len word" where
  "kSignBitMask = push_bit (kBitCount (0 :: 'a word) - 1) 1"

definition kFractionBitMask :: "nat \<Rightarrow> 'a::len word" where
  "kFractionBitMask fb = drop_bit (kExponentBitCount fb (0 :: 'a word) + 1) (NOT 0)"

definition kExponentBitMask :: "nat \<Rightarrow> 'a::len word" where
  "kExponentBitMask fb = NOT (kSignBitMask OR kFractionBitMask fb)"

definition kMaxUlps :: nat where "kMaxUlps = 4"

definition Infinity :: "nat \<Rightarrow> 'a::len word" where
  "Infinity fb = kExponentBitMask fb"

definition exponent_bits :: "nat \<Rightarrow> 'a::len word \<Rightarrow> 'a word" where
  "exponent_bits fb u = kExponentBitMask fb AND u"

definition fraction_bits :: "nat \<Rightarrow> 'a::len word \<Rightarrow> 'a word" where
  "fraction_bits fb u = kFractionBitMask fb AND u"

definition sign_bit :: "'a::len word \<Rightarrow> 'a word" where
  "sign_bit u = kSignBitMask AND u"

definition fp_is_nan :: "nat \<Rightarrow> 'a::len word \<Rightarrow> bool" where
  "fp_is_nan fb u \<longleftrightarrow> exponent_bits fb u = kExponentBitMask fb \<and> fraction_bits fb u \<noteq> 0"

definition SignAndMagnitudeToBiased :: "'a::len word \<Rightarrow> 'a word" where
  "SignAndMagnitudeToBiased sam = (if kSignBitMask AND sam \<noteq> 0 then NOT sam + 1 else kSignBitMask OR sam)"

definition DistanceBetweenSignAndMagnitudeNumbers :: "'a::len word \<Rightarrow> 'a word \<Rightarrow> 'a word" where
  "DistanceBetweenSignAndMagnitudeNumbers sam1 sam2 =
     (let biased1 = SignAndMagnitudeToBiased sam1; biased2 = SignAndMagnitudeToBiased sam2
      in if biased1 \<ge> biased2 then biased1 - biased2 else biased2 - biased1)"

definition AlmostEquals :: "nat \<Rightarrow> 'a::len word \<Rightarrow> 'a word \<Rightarrow> bool" where
  "AlmostEquals fb u rhs =
     (if fp_is_nan fb u \<or> fp_is_nan fb rhs then False
      else unat (DistanceBetweenSignAndMagnitudeNumbers u rhs) \<le> kMaxUlps)"

section \<open>Bits as numbers\<close>

text \<open>The integer a word stands for in the sign-and-magnitude representation.\<close>

abbreviation msb_of :: "'a::len word \<Rightarrow> bool" where
  "msb_of u \<equiv> bit u (LENGTH('a) - 1)"

definition magnitude :: "'a::len word \<Rightarrow> nat" where
  "magnitude u = unat (take_bit (LENGTH('a) - 1) u)"

definition sam_value :: "'a::len word \<Rightarrow> int" where
  "sam_value u = (if msb_of u then - int (magnitude u) else int (magnitude u))"

lemma sign_mask_exp: "(kSignBitMask :: 'a::len word) = 2 ^ (LENGTH('a) - 1)"
  by (simp add: kSignBitMask_def kBitCount_def)

lemma sign_mask_and: "kSignBitMask AND u \<noteq> (0 :: 'a::len word) \<longleftrightarrow> msb_of u"
  by (simp add: sign_mask_exp and.commute [of "2 ^ _"] and_exp_eq_0_iff_not_bit)

lemma magnitude_less: "magnitude (u :: 'a::len word) < 2 ^ (LENGTH('a) - 1)"
  by (simp add: magnitude_def unsigned_take_bit_eq)

lemma unat_msb: "unat (u :: 'a::len word) = of_bool (msb_of u) * 2 ^ (LENGTH('a) - 1) + magnitude u"
proof -
  obtain n where n: "LENGTH('a) = Suc n" by (metis len_gt_0 Suc_pred)
  have "unat u = take_bit (Suc n) (unat u)" by (metis n take_bit_length_eq unsigned_take_bit_eq)
  also have "\<dots> = take_bit n (unat u) + of_bool (bit (unat u) n) * 2 ^ n"
    by (simp add: take_bit_Suc_from_most ac_simps)
  finally show ?thesis using n by (simp add: magnitude_def unsigned_take_bit_eq bit_unsigned_iff)
qed

lemma sign_mask_uint: "uint (kSignBitMask :: 'a::len word) = 2 ^ (LENGTH('a) - 1)"
  unfolding sign_mask_exp by (rule uint_2p) (simp add: word_gt_0)

lemma uint_msb: "uint (u :: 'a::len word) = of_bool (msb_of u) * 2 ^ (LENGTH('a) - 1) + int (magnitude u)"
  using arg_cong [OF unat_msb [of u], of int] by simp

lemma magnitude_bound: "int (magnitude (u :: 'a::len word)) < 2 ^ (LENGTH('a) - 1)"
  using magnitude_less [of u] by (metis of_nat_less_iff of_nat_numeral of_nat_power)

lemma two_pow_length: "(2 :: int) ^ LENGTH('a::len) = 2 ^ (LENGTH('a) - 1) + 2 ^ (LENGTH('a) - 1)"
  by (metis len_gt_0 mult_2 neq0_conv power_eq_if)

lemma biased_negative:
  assumes "msb_of (u :: 'a::len word)"
  shows "uint (SignAndMagnitudeToBiased u) = 2 ^ (LENGTH('a) - 1) - int (magnitude u)"
proof -
  let ?N = "2 ^ (LENGTH('a) - 1) :: int"
  have "SignAndMagnitudeToBiased u = - u"
    using assms by (simp add: SignAndMagnitudeToBiased_def sign_mask_and minus_eq_not_plus_1)
  then have "uint (SignAndMagnitudeToBiased u) = (- uint u) mod 2 ^ LENGTH('a)"
    by (simp only: uint_word_ariths)
  also have "- uint u = ?N - int (magnitude u) + (-1) * 2 ^ LENGTH('a)"
    using uint_msb [of u] assms two_pow_length [where 'a = 'a] by simp
  also have "\<dots> mod 2 ^ LENGTH('a) = (?N - int (magnitude u)) mod 2 ^ LENGTH('a)"
    by (rule mod_mult_self1)
  also have "\<dots> = ?N - int (magnitude u)"
  proof (rule mod_pos_pos_trivial)
    show "0 \<le> ?N - int (magnitude u)" using magnitude_bound [of u] by simp
    have "0 < ?N" "0 \<le> int (magnitude u)" by simp_all
    then show "?N - int (magnitude u) < 2 ^ LENGTH('a)" unfolding two_pow_length by linarith
  qed
  finally show ?thesis .
qed

lemma biased_positive:
  assumes "\<not> msb_of (u :: 'a::len word)"
  shows "uint (SignAndMagnitudeToBiased u) = 2 ^ (LENGTH('a) - 1) + int (magnitude u)"
proof -
  have "kSignBitMask OR u = kSignBitMask + u"
    by (rule disjunctive_add [symmetric]) (use assms in \<open>auto simp: sign_mask_exp bit_simps\<close>)
  then have "uint (SignAndMagnitudeToBiased u) = (uint (kSignBitMask :: 'a word) + uint u) mod 2 ^ LENGTH('a)"
    using assms by (simp only: SignAndMagnitudeToBiased_def sign_mask_and uint_word_ariths if_False)
  also have "\<dots> = (2 ^ (LENGTH('a) - 1) + int (magnitude u)) mod 2 ^ LENGTH('a)"
    using assms uint_msb [of u] by (simp add: sign_mask_uint)
  also have "\<dots> = 2 ^ (LENGTH('a) - 1) + int (magnitude u)"
    using magnitude_bound [of u] two_pow_length [where 'a = 'a] by (intro mod_pos_pos_trivial) auto
  finally show ?thesis .
qed

lemma biased_value: "uint (SignAndMagnitudeToBiased (u :: 'a::len word)) = sam_value u + 2 ^ (LENGTH('a) - 1)"
  by (cases "msb_of u") (simp_all add: biased_negative biased_positive sam_value_def)

lemma distance_value:
  "int (unat (DistanceBetweenSignAndMagnitudeNumbers u v)) = \<bar>sam_value u - sam_value v\<bar>"
proof -
  have "uint (x - y) = uint x - uint y" if "y \<le> x" for x y :: "'a word"
    using that by (simp add: uint_sub_if' word_le_def uint_minus_simple_iff)
  then show ?thesis
    by (auto simp: DistanceBetweenSignAndMagnitudeNumbers_def Let_def biased_value word_le_def)
qed

section \<open>Which bit patterns are numbers\<close>

lemma bit_magnitude: "bit (magnitude (u :: 'a::len word)) n \<longleftrightarrow> n < LENGTH('a) - 1 \<and> bit u n"
  by (auto simp: magnitude_def unsigned_take_bit_eq bit_simps)

lemma fraction_mask: "fb < LENGTH('a) - 1 \<Longrightarrow> (kFractionBitMask fb :: 'a::len word) = mask fb"
  by (rule bit_word_eqI)
    (auto simp: kFractionBitMask_def kExponentBitCount_def kBitCount_def bit_simps less_diff_conv)

lemma fraction_bits_zero:
  assumes "fb < LENGTH('a) - 1"
  shows "fraction_bits fb (u :: 'a::len word) = 0 \<longleftrightarrow> magnitude u mod 2 ^ fb = 0"
proof -
  have "fraction_bits fb u = 0 \<longleftrightarrow> (\<forall>n < fb. \<not> bit u n)"
    using assms by (auto simp: fraction_bits_def fraction_mask bit_eq_iff bit_simps)
  also have "\<dots> \<longleftrightarrow> take_bit fb (magnitude u) = 0"
    using assms by (auto simp: bit_eq_iff bit_simps bit_magnitude)
  finally show ?thesis by (simp add: take_bit_eq_mod)
qed

lemma bit_exponent_mask:
  "fb < LENGTH('a) - 1 \<Longrightarrow> bit (kExponentBitMask fb :: 'a::len word) n \<longleftrightarrow> fb \<le> n \<and> n < LENGTH('a) - 1"
  by (auto simp: kExponentBitMask_def fraction_mask sign_mask_exp bit_simps)

lemma exponent_bits_full:
  assumes "fb < LENGTH('a) - 1"
  shows "exponent_bits fb (u :: 'a::len word) = kExponentBitMask fb \<longleftrightarrow>
    magnitude u div 2 ^ fb = 2 ^ (LENGTH('a) - 1 - fb) - 1"
proof -
  have "exponent_bits fb u = kExponentBitMask fb \<longleftrightarrow> (\<forall>n. fb \<le> n \<and> n < LENGTH('a) - 1 \<longrightarrow> bit u n)"
  proof
    assume *: "exponent_bits fb u = kExponentBitMask fb"
    have "bit (exponent_bits fb u) n \<longleftrightarrow> fb \<le> n \<and> n < LENGTH('a) - 1" for n
      unfolding * by (rule bit_exponent_mask [OF assms])
    then show "\<forall>n. fb \<le> n \<and> n < LENGTH('a) - 1 \<longrightarrow> bit u n"
      unfolding exponent_bits_def bit_and_iff by blast
  next
    assume "\<forall>n. fb \<le> n \<and> n < LENGTH('a) - 1 \<longrightarrow> bit u n"
    then show "exponent_bits fb u = kExponentBitMask fb"
      by (intro bit_eqI) (auto simp: exponent_bits_def bit_and_iff bit_exponent_mask [OF assms])
  qed
  also have "\<dots> \<longleftrightarrow> (\<forall>k. (fb + k < LENGTH('a) - 1 \<and> bit u (fb + k)) = (k < LENGTH('a) - 1 - fb))"
  proof -
    have "(fb + k < LENGTH('a) - 1) = (k < LENGTH('a) - 1 - fb)" for k by linarith
    then show ?thesis by (metis le_add1 le_add_diff_inverse)
  qed
  also have "\<dots> \<longleftrightarrow> drop_bit fb (magnitude u) = mask (LENGTH('a) - 1 - fb)"
    by (simp add: bit_eq_iff [of "drop_bit fb (magnitude u)"] bit_drop_bit_eq bit_mask_iff bit_magnitude)
  finally show ?thesis by (simp add: drop_bit_eq_div mask_eq_exp_minus_1)
qed

text \<open>The largest magnitude that is not a NaN: the bits of infinity.\<close>

definition infinity_magnitude :: "nat \<Rightarrow> 'a::len itself \<Rightarrow> nat" where
  "infinity_magnitude fb _ = 2 ^ (LENGTH('a) - 1) - 2 ^ fb"

lemma nan_magnitude:
  assumes "fb < LENGTH('a) - 1"
  shows "fp_is_nan fb (u :: 'a::len word) \<longleftrightarrow> infinity_magnitude fb TYPE('a) < magnitude u"
proof -
  let ?F = "2 ^ fb :: nat" and ?E = "2 ^ (LENGTH('a) - 1 - fb) :: nat"
  have prod: "2 ^ (LENGTH('a) - 1) = ?E * ?F" using assms by (simp flip: power_add)
  have e: "magnitude u div ?F < ?E"
    using magnitude_less [of u] unfolding prod by (simp add: div_less_iff_less_mult del: diff_diff_left One_nat_def)
  have m: "magnitude u = magnitude u div ?F * ?F + magnitude u mod ?F"
    by (simp only: div_mult_mod_eq)
  have f: "magnitude u mod ?F < ?F" by simp
  have K: "infinity_magnitude fb TYPE('a) = (?E - 1) * ?F"
    by (simp add: infinity_magnitude_def prod [simplified] left_diff_distrib')
  have "infinity_magnitude fb TYPE('a) < magnitude u \<longleftrightarrow> magnitude u div ?F = ?E - 1 \<and> magnitude u mod ?F \<noteq> 0"
  proof (cases "magnitude u div ?F = ?E - 1")
    case True
    then show ?thesis unfolding K using m by (metis add_cancel_left_right less_add_same_cancel1 nat_less_le zero_le)
  next
    case False
    then have "Suc (magnitude u div ?F) * ?F \<le> (?E - 1) * ?F" using e by (intro mult_le_mono1) simp
    then have "magnitude u < (?E - 1) * ?F" using m f unfolding mult_Suc by linarith
    then show ?thesis unfolding K using False by simp
  qed
  then show ?thesis
    by (simp add: fp_is_nan_def fraction_bits_zero [OF assms] exponent_bits_full [OF assms] del: One_nat_def)
qed

section \<open>The numbers the patterns stand for\<close>

text \<open>
  The value of a pattern that is not a NaN, as a multiple of the least positive number of the type;
  infinity stands for the number that would follow the largest finite one.
\<close>

definition fp_units :: "nat \<Rightarrow> nat \<Rightarrow> nat" where
  "fp_units fb m = (if m div 2 ^ fb = 0 then m mod 2 ^ fb
     else (2 ^ fb + m mod 2 ^ fb) * 2 ^ (m div 2 ^ fb - 1))"

definition fp_value :: "nat \<Rightarrow> 'a::len word \<Rightarrow> int" where
  "fp_value fb u = (if msb_of u then - int (fp_units fb (magnitude u)) else int (fp_units fb (magnitude u)))"

lemma fp_units_Suc: "fp_units fb m < fp_units fb (Suc m)"
proof (cases "Suc (m mod 2 ^ fb) = 2 ^ fb")
  case True
  then have "Suc m div 2 ^ fb = Suc (m div 2 ^ fb)" "Suc m mod 2 ^ fb = 0" "m mod 2 ^ fb < 2 ^ fb"
    by (simp_all add: div_Suc mod_Suc)
  then show ?thesis by (cases "m div 2 ^ fb") (simp_all add: fp_units_def)
next
  case False
  then have "Suc m div 2 ^ fb = m div 2 ^ fb" "Suc m mod 2 ^ fb = Suc (m mod 2 ^ fb)"
    by (simp_all add: div_Suc mod_Suc)
  then show ?thesis by (simp add: fp_units_def)
qed

lemma fp_units_less: "fp_units fb m < fp_units fb n \<longleftrightarrow> m < n"
  by (metis fp_units_Suc lift_Suc_mono_less_iff)

lemma fp_units_eq: "fp_units fb m = fp_units fb n \<longleftrightarrow> m = n"
  by (metis fp_units_less less_irrefl nat_neq_iff)

text \<open>The value depends on, and grows with, the sign-and-magnitude number.\<close>

definition value_at :: "nat \<Rightarrow> int \<Rightarrow> int" where
  "value_at fb k = (if k < 0 then - int (fp_units fb (nat (- k))) else int (fp_units fb (nat k)))"

lemma fp_units_0 [simp]: "fp_units fb 0 = 0"
  by (simp add: fp_units_def)

lemma fp_value_at: "fp_value fb u = value_at fb (sam_value u)"
  by (auto simp: fp_value_def value_at_def sam_value_def)

lemma fp_units_pos: "0 < n \<Longrightarrow> 0 < fp_units fb n"
  using fp_units_less [of fb 0 n] by simp

lemma value_at_less: "value_at fb j < value_at fb k \<longleftrightarrow> j < k"
proof -
  consider "j < 0" "k < 0" | "j < 0" "0 \<le> k" | "0 \<le> j" "k < 0" | "0 \<le> j" "0 \<le> k" by linarith
  then show ?thesis
  proof cases
    case 2
    then have "0 < fp_units fb (nat (- j))" by (intro fp_units_pos) simp
    with 2 show ?thesis by (simp add: value_at_def)
  next
    case 3
    then have "0 < fp_units fb (nat (- k))" by (intro fp_units_pos) simp
    with 3 show ?thesis by (simp add: value_at_def)
  qed (auto simp: value_at_def fp_units_less)
qed

lemma value_at_inj: "inj (value_at fb)"
  by (rule injI) (metis value_at_less less_irrefl neq_iff)

section \<open>Counting the numbers in between\<close>

lemma sam_value_bound:
  "\<not> fp_is_nan fb (u :: 'a::len word) \<Longrightarrow> fb < LENGTH('a) - 1 \<Longrightarrow> \<bar>sam_value u\<bar> \<le> int (infinity_magnitude fb TYPE('a))"
  by (auto simp: nan_magnitude sam_value_def)

lemma magnitude_or_sign:
  assumes "m < 2 ^ (LENGTH('a) - 1)"
  shows "magnitude (of_nat m :: 'a::len word) = m" "\<not> msb_of (of_nat m :: 'a word)"
    "magnitude (kSignBitMask OR of_nat m :: 'a word) = m" "msb_of (kSignBitMask OR of_nat m :: 'a word)"
proof -
  have lt: "n < LENGTH('a) - 1" if "bit m n" for n
    using assms that by (metis bit_take_bit_iff take_bit_nat_eq_self_iff)
  then have "n < LENGTH('a)" if "bit m n" for n using that by (metis less_imp_diff_less not_less_iff_gr_or_eq order_less_le_trans diff_le_self)
  with lt show "magnitude (of_nat m :: 'a word) = m" "\<not> msb_of (of_nat m :: 'a word)"
    "magnitude (kSignBitMask OR of_nat m :: 'a word) = m" "msb_of (kSignBitMask OR of_nat m :: 'a word)"
    by (auto simp: bit_eq_iff [of "magnitude _"] bit_magnitude bit_simps sign_mask_exp not_less)
qed

lemma sam_value_surj:
  assumes "fb < LENGTH('a) - 1" "\<bar>k\<bar> \<le> int (infinity_magnitude fb TYPE('a::len))"
  shows "\<exists>u :: 'a word. \<not> fp_is_nan fb u \<and> sam_value u = k"
proof -
  have "nat \<bar>k\<bar> \<le> infinity_magnitude fb TYPE('a)" using assms(2) by simp
  moreover from this have "nat \<bar>k\<bar> < 2 ^ (LENGTH('a) - 1)"
    unfolding infinity_magnitude_def by (metis diff_less le_less_trans zero_less_numeral zero_less_power)
  ultimately show ?thesis using magnitude_or_sign [of "nat \<bar>k\<bar>", where 'a = 'a]
    by (intro exI [of _ "if k < 0 then kSignBitMask OR of_nat (nat \<bar>k\<bar>) else of_nat (nat \<bar>k\<bar>)"])
      (auto simp: nan_magnitude [OF assms(1)] sam_value_def simp del: One_nat_def)
qed

text \<open>The numbers of the type above the smaller and up to the larger of two numbers.\<close>

definition fp_steps :: "nat \<Rightarrow> 'a::len word \<Rightarrow> 'a word \<Rightarrow> int set" where
  "fp_steps fb u v = {fp_value fb w | w :: 'a word. \<not> fp_is_nan fb w \<and>
     min (fp_value fb u) (fp_value fb v) < fp_value fb w \<and> fp_value fb w \<le> max (fp_value fb u) (fp_value fb v)}"

lemma card_fp_steps:
  assumes "fb < LENGTH('a) - 1" "\<not> fp_is_nan fb (u :: 'a::len word)" "\<not> fp_is_nan fb v"
  shows "card (fp_steps fb u v) = unat (DistanceBetweenSignAndMagnitudeNumbers u v)"
proof -
  let ?lo = "min (sam_value u) (sam_value v)" and ?hi = "max (sam_value u) (sam_value v)"
  have le: "value_at fb i \<le> value_at fb j \<longleftrightarrow> i \<le> j" for i j by (metis value_at_less not_le)
  have ends: "min (fp_value fb u) (fp_value fb v) = value_at fb ?lo"
    "max (fp_value fb u) (fp_value fb v) = value_at fb ?hi"
    by (auto simp: fp_value_at min_def max_def le)
  have "\<exists>w :: 'a word. \<not> fp_is_nan fb w \<and> sam_value w = k" if "?lo < k" "k \<le> ?hi" for k
    by (rule sam_value_surj [OF assms(1)])
      (use that sam_value_bound [OF assms(2,1)] sam_value_bound [OF assms(3,1)] in linarith)
  then have "fp_steps fb u v = value_at fb ` {?lo<..?hi}"
    unfolding fp_steps_def ends by (auto simp: fp_value_at value_at_less le) blast
  then have "card (fp_steps fb u v) = nat (?hi - ?lo)"
    using card_image [of "value_at fb" "{?lo<..?hi}"] value_at_inj by (simp add: inj_on_def)
  also have "?hi - ?lo = \<bar>sam_value u - sam_value v\<bar>" by simp
  finally show ?thesis by (simp flip: distance_value)
qed

lemma AlmostEquals_steps:
  assumes "fb < LENGTH('a) - 1"
  shows "AlmostEquals fb (u :: 'a::len word) v \<longleftrightarrow>
    \<not> fp_is_nan fb u \<and> \<not> fp_is_nan fb v \<and> card (fp_steps fb u v) \<le> kMaxUlps"
  using card_fp_steps [OF assms, of u v] by (auto simp: AlmostEquals_def)

lemma AlmostEquals_sym: "AlmostEquals fb u v \<longleftrightarrow> AlmostEquals fb v u"
proof -
  have "DistanceBetweenSignAndMagnitudeNumbers u v = DistanceBetweenSignAndMagnitudeNumbers v u"
    by (auto simp: DistanceBetweenSignAndMagnitudeNumbers_def Let_def)
  then show ?thesis by (auto simp: AlmostEquals_def)
qed

lemma AlmostEquals_refl: "AlmostEquals fb u u \<longleftrightarrow> \<not> fp_is_nan fb u"
  by (simp add: AlmostEquals_def DistanceBetweenSignAndMagnitudeNumbers_def Let_def kMaxUlps_def)

lemma same_value_AlmostEquals:
  assumes "\<not> fp_is_nan fb u" "\<not> fp_is_nan fb v" "fp_value fb u = fp_value fb v"
  shows "AlmostEquals fb u v"
proof -
  have "sam_value u = sam_value v" using assms(3) value_at_inj [of fb] by (simp add: fp_value_at inj_eq)
  then have "unat (DistanceBetweenSignAndMagnitudeNumbers u v) = 0"
    using distance_value [of u v] by (metis abs_0 diff_self of_nat_eq_0_iff)
  then show ?thesis using assms by (simp add: AlmostEquals_def)
qed

section \<open>Properties\<close>

text \<open>C29: two floating point numbers are almost equal exactly when neither is a NaN and at most four
  numbers of the type lie above the smaller one and up to the larger one; this is symmetric, holds of
  every number and itself, and of the two zeros.\<close>

theorem almost_equals_within_four_ulps:
  assumes "fb < LENGTH('a) - 1"
  shows "(AlmostEquals fb (u :: 'a::len word) v \<longleftrightarrow>
      \<not> fp_is_nan fb u \<and> \<not> fp_is_nan fb v \<and> card (fp_steps fb u v) \<le> 4) \<and>
    (AlmostEquals fb u v \<longleftrightarrow> AlmostEquals fb v u) \<and> (AlmostEquals fb u u \<longleftrightarrow> \<not> fp_is_nan fb u) \<and>
    (\<not> fp_is_nan fb u \<and> \<not> fp_is_nan fb v \<and> fp_value fb u = fp_value fb v \<longrightarrow> AlmostEquals fb u v)"
  using AlmostEquals_steps [OF assms, of u v] AlmostEquals_sym [of fb u v] AlmostEquals_refl [of fb u]
    same_value_AlmostEquals [of fb u v] by (simp add: kMaxUlps_def)

text \<open>The single-precision number one and its third successor; minus zero.\<close>

lemmas fp_eval = fp_is_nan_def exponent_bits_def fraction_bits_def kExponentBitMask_def kSignBitMask_def
  kFractionBitMask_def kExponentBitCount_def kBitCount_def AlmostEquals_def kMaxUlps_def
  DistanceBetweenSignAndMagnitudeNumbers_def SignAndMagnitudeToBiased_def mask_eq_exp_minus_1

theorem almost_equals_within_four_ulps_witness:
  "card (fp_steps 23 (0x3F800000 :: 32 word) 0x3F800003) \<le> 4 \<and> \<not> card (fp_steps 23 (0x3F800000 :: 32 word) 0x3F800005) \<le> 4 \<and>
   AlmostEquals 23 (0 :: 32 word) 0x80000000 \<and> card (fp_steps 23 (0 :: 32 word) 0x80000000) \<le> 4"
proof -
  have "AlmostEquals 23 (0x3F800000 :: 32 word) 0x3F800003" by (simp add: fp_eval Let_def)
  moreover have "\<not> AlmostEquals 23 (0x3F800000 :: 32 word) 0x3F800005" by (simp add: fp_eval Let_def)
  moreover have "\<not> fp_is_nan 23 (0x3F800000 :: 32 word)" "\<not> fp_is_nan 23 (0x3F800005 :: 32 word)"
    by (simp_all add: fp_eval)
  moreover have "AlmostEquals 23 (0 :: 32 word) 0x80000000" by (simp add: fp_eval Let_def)
  ultimately show ?thesis
    using almost_equals_within_four_ulps [of 23, where 'a = 32] by simp
qed

end
