(* ===== verification/Gtest_Assertions.thy ===== *)
theory Gtest_Assertions
  imports Gtest_Printers Gtest_Floating_Point
begin

text \<open>
  The assertions of the bundled googletest as far as the headers define them: \<open>Message\<close>
  (gtest-message.h), \<open>AssertionResult\<close> and the comparison helpers (gtest.h), the predicate
  helpers (gtest_pred_impl.h) and the statement macros (gtest-internal.h). The functions whose
  bodies are in the library proper are the fields of \<open>assert_env\<close>; what their comments promise
  is \<open>assert_contract\<close>.

  A statement of a test body maps the state of the test to how control leaves it and the new
  state; a failure is reported by an argument, which stands for \<open>AssertHelper\<close>. Main results:
  what a comparison assertion decides and writes, and that a test body reports its failing
  assertions in order up to the first fatal one, where it returns.
\<close>

section \<open>Messages and assertion results\<close>

record AssertionResult =
  ar_success :: bool
  ar_message :: "string option"

record assert_env =
  ae_print :: print_env
  GetString :: "string \<Rightarrow> string"
  AssertionSuccess :: AssertionResult
  AssertionFailure :: AssertionResult
  EqFailure :: "string \<Rightarrow> string \<Rightarrow> string \<Rightarrow> string \<Rightarrow> bool \<Rightarrow> AssertionResult"
  ar_negation :: "AssertionResult \<Rightarrow> AssertionResult"
  GetBoolAssertionFailureMessage :: "AssertionResult \<Rightarrow> string \<Rightarrow> string \<Rightarrow> string \<Rightarrow> string"

text \<open>What is streamed: a C string, another pointer, a bool, or a value by its own \<open><<\<close>.\<close>

datatype streamed = SCString ptr string | SPointer ptr | SBool bool | SValue string

fun Message_stream :: "assert_env \<Rightarrow> string \<Rightarrow> streamed \<Rightarrow> string" where
  "Message_stream A ss (SValue val) = ss @ val"
| "Message_stream A ss (SCString p s) = (if p = NULL then ss @ ''(null)'' else ss @ s)"
| "Message_stream A ss (SPointer p) =
     (if p = NULL then ss @ ''(null)'' else ss @ pe_address (ae_print A) p)"
| "Message_stream A ss (SBool b) = ss @ (if b then ''true'' else ''false'')"

definition StreamableToString :: "assert_env \<Rightarrow> streamed \<Rightarrow> string" where
  "StreamableToString A x = GetString A (Message_stream A [] x)"

text \<open>\<open>append\<close> takes a C string, which ends at the first NUL.\<close>

definition c_str :: "string \<Rightarrow> string" where
  "c_str s = takeWhile (\<lambda>c. c \<noteq> CHR 0x00) s"

definition AppendMessage :: "assert_env \<Rightarrow> string \<Rightarrow> AssertionResult \<Rightarrow> AssertionResult" where
  "AppendMessage A a_message r =
     (let m = (case ar_message r of None \<Rightarrow> [] | Some m \<Rightarrow> m)
      in r\<lparr>ar_message := Some (m @ c_str (GetString A a_message))\<rparr>)"

definition AssertionResult_stream :: "assert_env \<Rightarrow> AssertionResult \<Rightarrow> streamed \<Rightarrow> AssertionResult" where
  "AssertionResult_stream A r x = AppendMessage A (Message_stream A [] x) r"

definition stream_all :: "assert_env \<Rightarrow> AssertionResult \<Rightarrow> streamed list \<Rightarrow> AssertionResult" where
  "stream_all A r xs = foldl (AssertionResult_stream A) r xs"

definition message :: "AssertionResult \<Rightarrow> string" where
  "message r = (case ar_message r of Some m \<Rightarrow> m | None \<Rightarrow> [])"

text \<open>A string literal.\<close>

abbreviation lit :: "string \<Rightarrow> streamed" where "lit s \<equiv> SCString 1 s"

section \<open>Comparison helpers\<close>

type_synonym operand = "cpp_type \<times> cpp_value"

definition failure_text :: "assert_env \<Rightarrow> operand \<Rightarrow> operand \<Rightarrow> string option" where
  "failure_text A x y = FormatForComparisonFailureMessage (ae_print A) (fst x) (snd x) (fst y)"

definition CmpHelperEQFailure ::
  "assert_env \<Rightarrow> string \<Rightarrow> string \<Rightarrow> operand \<Rightarrow> operand \<Rightarrow> AssertionResult option" where
  "CmpHelperEQFailure A lhs_expression rhs_expression lhs rhs =
     Option.bind (failure_text A lhs rhs) (\<lambda>l. Option.bind (failure_text A rhs lhs) (\<lambda>r.
       Some (EqFailure A lhs_expression rhs_expression l r False)))"

definition CmpHelperEQ ::
  "assert_env \<Rightarrow> (operand \<Rightarrow> operand \<Rightarrow> bool) \<Rightarrow> string \<Rightarrow> string \<Rightarrow> operand \<Rightarrow> operand \<Rightarrow>
    AssertionResult option" where
  "CmpHelperEQ A eq lhs_expression rhs_expression lhs rhs =
     (if eq lhs rhs then Some (AssertionSuccess A)
      else CmpHelperEQFailure A lhs_expression rhs_expression lhs rhs)"

text \<open>
  \<open>EqHelper<lhs_is_null_literal>::Compare\<close>: a null literal compared with a pointer becomes the
  null pointer of that pointer's type.
\<close>

definition null_pointer :: "cpp_type \<Rightarrow> operand" where
  "null_pointer t = (t, if t = TCharPtr then VCharPtr NULL [] else VAddress NULL)"

definition EqHelper_Compare ::
  "assert_env \<Rightarrow> (operand \<Rightarrow> operand \<Rightarrow> bool) \<Rightarrow> bool \<Rightarrow> string \<Rightarrow> string \<Rightarrow> operand \<Rightarrow> operand \<Rightarrow>
    AssertionResult option" where
  "EqHelper_Compare A eq lhs_is_null_literal lhs_expression rhs_expression lhs rhs =
     (if lhs_is_null_literal \<and> is_pointer (fst rhs)
      then CmpHelperEQ A eq lhs_expression rhs_expression (null_pointer (fst rhs)) rhs
      else CmpHelperEQ A eq lhs_expression rhs_expression lhs rhs)"

definition CmpHelperOpFailure ::
  "assert_env \<Rightarrow> string \<Rightarrow> string \<Rightarrow> operand \<Rightarrow> operand \<Rightarrow> string \<Rightarrow> AssertionResult option" where
  "CmpHelperOpFailure A expr1 expr2 val1 val2 op =
     Option.bind (failure_text A val1 val2) (\<lambda>s1. Option.bind (failure_text A val2 val1) (\<lambda>s2.
       Some (stream_all A (AssertionFailure A)
         [lit ''Expected: ('', lit expr1, lit '') '', lit op, lit '' ('', lit expr2,
          lit ''), actual: '', SValue s1, lit '' vs '', SValue s2])))"

datatype cmp_op = NE | LE | LT | GE | GT

fun op_text :: "cmp_op \<Rightarrow> string" where
  "op_text NE = ''!=''" | "op_text LE = ''<=''" | "op_text LT = ''<''"
| "op_text GE = ''>=''" | "op_text GT = ''>''"

definition CmpHelperOp ::
  "assert_env \<Rightarrow> (cmp_op \<Rightarrow> operand \<Rightarrow> operand \<Rightarrow> bool) \<Rightarrow> cmp_op \<Rightarrow> string \<Rightarrow> string \<Rightarrow>
    operand \<Rightarrow> operand \<Rightarrow> AssertionResult option" where
  "CmpHelperOp A holds op_name expr1 expr2 val1 val2 =
     (if holds op_name val1 val2 then Some (AssertionSuccess A)
      else CmpHelperOpFailure A expr1 expr2 val1 val2 (op_text op_name))"

text \<open>The streams with the precision of the raw type are an argument.\<close>

definition CmpHelperFloatingPointEQ ::
  "assert_env \<Rightarrow> nat \<Rightarrow> ('a::len word \<Rightarrow> string) \<Rightarrow> string \<Rightarrow> string \<Rightarrow> 'a word \<Rightarrow> 'a word \<Rightarrow>
    AssertionResult" where
  "CmpHelperFloatingPointEQ A fb stream lhs_expression rhs_expression lhs_value rhs_value =
     (if AlmostEquals fb lhs_value rhs_value then AssertionSuccess A
      else EqFailure A lhs_expression rhs_expression (stream lhs_value) (stream rhs_value) False)"

section \<open>Predicate helpers\<close>

text \<open>\<open>AssertPred<N>Helper\<close>: the arguments with their expressions.\<close>

fun pred_arguments :: "string list \<Rightarrow> streamed list" where
  "pred_arguments [] = []"
| "pred_arguments [e] = [lit e]"
| "pred_arguments (e # e' # es) = lit e # lit '', '' # pred_arguments (e' # es)"

definition AssertPredHelper ::
  "assert_env \<Rightarrow> string \<Rightarrow> string list \<Rightarrow> ('v list \<Rightarrow> bool) \<Rightarrow> ('v \<Rightarrow> streamed) \<Rightarrow> 'v list \<Rightarrow>
    AssertionResult" where
  "AssertPredHelper A pred_text es pred shown vs =
     (if pred vs then AssertionSuccess A
      else stream_all A (AssertionFailure A)
        (lit pred_text # lit ''('' # pred_arguments es @ [lit '') evaluates to false, where''] @
         concat (map2 (\<lambda>e v. [lit newline, lit e, lit '' evaluates to '', shown v]) es vs)))"

section \<open>Statements\<close>

datatype part_type = kSuccess | kNonFatalFailure | kFatalFailure

datatype 'x control = Completed | Returned | Threw 'x

type_synonym ('s, 'x) stmt = "'s \<Rightarrow> 'x control \<times> 's"
type_synonym 's reporter = "part_type \<Rightarrow> string \<Rightarrow> 's \<Rightarrow> 's"

definition GTEST_MESSAGE :: "'s reporter \<Rightarrow> string \<Rightarrow> part_type \<Rightarrow> ('s, 'x) stmt" where
  "GTEST_MESSAGE rep msg result_type s = (Completed, rep result_type msg s)"

definition GTEST_FATAL_FAILURE :: "'s reporter \<Rightarrow> string \<Rightarrow> ('s, 'x) stmt" where
  "GTEST_FATAL_FAILURE rep msg s = (case GTEST_MESSAGE rep msg kFatalFailure s of
     (Completed, s) \<Rightarrow> (Returned, s) | (c, s) \<Rightarrow> (c, s))"

definition GTEST_NONFATAL_FAILURE :: "'s reporter \<Rightarrow> string \<Rightarrow> ('s, 'x) stmt" where
  "GTEST_NONFATAL_FAILURE rep msg s = GTEST_MESSAGE rep msg kNonFatalFailure s"

definition GTEST_SUCCESS :: "'s reporter \<Rightarrow> string \<Rightarrow> ('s, 'x) stmt" where
  "GTEST_SUCCESS rep msg s = GTEST_MESSAGE rep msg kSuccess s"

text \<open>An expression of a test may change its state and may throw.\<close>

type_synonym ('s, 'x, 'r) expr = "'s \<Rightarrow> ('x + 'r) \<times> 's"

definition GTEST_ASSERT ::
  "('s, 'x, AssertionResult) expr \<Rightarrow> (string \<Rightarrow> ('s, 'x) stmt) \<Rightarrow> ('s, 'x) stmt" where
  "GTEST_ASSERT expression on_failure s = (case expression s of
     (Inl x, s) \<Rightarrow> (Threw x, s)
   | (Inr gtest_ar, s) \<Rightarrow>
       if ar_success gtest_ar then (Completed, s) else on_failure (message gtest_ar) s)"

definition GTEST_TEST_THROW ::
  "('s, 'x) stmt \<Rightarrow> string \<Rightarrow> ('x \<Rightarrow> bool) \<Rightarrow> string \<Rightarrow> (string \<Rightarrow> ('s, 'x) stmt) \<Rightarrow> ('s, 'x) stmt" where
  "GTEST_TEST_THROW statement text is_expected expected_exception fail s =
     (let expected = ''Expected: '' @ text @ '' throws an exception of type '' @ expected_exception @
            ''.'' @ newline
      in case statement s of
        (Threw x, s) \<Rightarrow>
          if is_expected x then (Completed, s)
          else fail (expected @ ''  Actual: it throws a different type.'') s
      | (Completed, s) \<Rightarrow> fail (expected @ ''  Actual: it throws nothing.'') s
      | (Returned, s) \<Rightarrow> (Returned, s))"

definition GTEST_TEST_NO_THROW ::
  "('s, 'x) stmt \<Rightarrow> string \<Rightarrow> (string \<Rightarrow> ('s, 'x) stmt) \<Rightarrow> ('s, 'x) stmt" where
  "GTEST_TEST_NO_THROW statement text fail s = (case statement s of
     (Threw x, s) \<Rightarrow> fail (''Expected: '' @ text @ '' doesn'' @ [CHR 0x27] @ ''t throw an exception.'' @
        newline @ ''  Actual: it throws.'') s
   | (c, s) \<Rightarrow> (c, s))"

definition GTEST_TEST_ANY_THROW ::
  "('s, 'x) stmt \<Rightarrow> string \<Rightarrow> (string \<Rightarrow> ('s, 'x) stmt) \<Rightarrow> ('s, 'x) stmt" where
  "GTEST_TEST_ANY_THROW statement text fail s = (case statement s of
     (Threw x, s) \<Rightarrow> (Completed, s)
   | (Completed, s) \<Rightarrow> fail (''Expected: '' @ text @ '' throws an exception.'' @ newline @
        ''  Actual: it doesn'' @ [CHR 0x27] @ ''t.'') s
   | (Returned, s) \<Rightarrow> (Returned, s))"

text \<open>A condition is a bool or an assertion result; \<open>EXPECT_FALSE\<close> negates either.\<close>

datatype condition = CBool bool | CResult AssertionResult

fun make_AssertionResult :: "condition \<Rightarrow> AssertionResult" where
  "make_AssertionResult (CBool b) = \<lparr>ar_success = b, ar_message = None\<rparr>"
| "make_AssertionResult (CResult r) = r"

fun condition_not :: "assert_env \<Rightarrow> condition \<Rightarrow> condition" where
  "condition_not A (CBool b) = CBool (\<not> b)"
| "condition_not A (CResult r) = CResult (ar_negation A r)"

definition GTEST_TEST_BOOLEAN ::
  "assert_env \<Rightarrow> ('s, 'x, condition) expr \<Rightarrow> string \<Rightarrow> string \<Rightarrow> string \<Rightarrow>
    (string \<Rightarrow> ('s, 'x) stmt) \<Rightarrow> ('s, 'x) stmt" where
  "GTEST_TEST_BOOLEAN A expression text actual expected fail s = (case expression s of
     (Inl x, s) \<Rightarrow> (Threw x, s)
   | (Inr c, s) \<Rightarrow> (let gtest_ar = make_AssertionResult c in
       if ar_success gtest_ar then (Completed, s)
       else fail (GetBoolAssertionFailureMessage A gtest_ar text actual expected) s))"

definition TEST_TRUE ::
  "assert_env \<Rightarrow> ('s, 'x, condition) expr \<Rightarrow> string \<Rightarrow> (string \<Rightarrow> ('s, 'x) stmt) \<Rightarrow> ('s, 'x) stmt" where
  "TEST_TRUE A cond text fail = GTEST_TEST_BOOLEAN A cond text ''false'' ''true'' fail"

definition TEST_FALSE ::
  "assert_env \<Rightarrow> ('s, 'x, condition) expr \<Rightarrow> string \<Rightarrow> (string \<Rightarrow> ('s, 'x) stmt) \<Rightarrow> ('s, 'x) stmt" where
  "TEST_FALSE A cond text fail =
     GTEST_TEST_BOOLEAN A (\<lambda>s. case cond s of (r, s) \<Rightarrow> (map_sum id (condition_not A) r, s))
       text ''true'' ''false'' fail"

text \<open>
  \<open>HasNewFatalFailureHelper\<close> is a function of the states before and after the statement. A
  \<open>return\<close> in the statement leaves the enclosing function without the check.
\<close>

definition GTEST_TEST_NO_FATAL_FAILURE ::
  "('s \<Rightarrow> 's \<Rightarrow> bool) \<Rightarrow> ('s, 'x) stmt \<Rightarrow> string \<Rightarrow> (string \<Rightarrow> ('s, 'x) stmt) \<Rightarrow> ('s, 'x) stmt" where
  "GTEST_TEST_NO_FATAL_FAILURE has_new_fatal_failure statement text fail s = (case statement s of
     (Completed, s') \<Rightarrow>
       if has_new_fatal_failure s s'
       then fail (''Expected: '' @ text @ '' doesn'' @ [CHR 0x27] @ ''t generate new fatal '' @
          ''failures in the current thread.'' @ newline @ ''  Actual: it does.'') s'
       else (Completed, s')
   | (c, s') \<Rightarrow> (c, s'))"

text \<open>The statements of a test body, one after the other.\<close>

fun TestBody :: "('s, 'x) stmt list \<Rightarrow> ('s, 'x) stmt" where
  "TestBody [] s = (Completed, s)"
| "TestBody (st # sts) s = (case st s of (Completed, s) \<Rightarrow> TestBody sts s | (c, s) \<Rightarrow> (c, s))"

definition on_failure :: "'s reporter \<Rightarrow> bool \<Rightarrow> string \<Rightarrow> ('s, 'x) stmt" where
  "on_failure rep fatal = (if fatal then GTEST_FATAL_FAILURE rep else GTEST_NONFATAL_FAILURE rep)"

section \<open>What the library functions promise\<close>

text \<open>\<open>GetString\<close> replaces each NUL by a backslash and a zero.\<close>

definition escape_nul :: "string \<Rightarrow> string" where
  "escape_nul s = concat (map (\<lambda>c. if c = CHR 0x00 then [CHR 0x5C, CHR 0x30] else [c]) s)"

definition assert_contract :: "assert_env \<Rightarrow> bool" where
  "assert_contract A \<longleftrightarrow>
     ar_success (AssertionSuccess A) \<and> \<not> ar_success (AssertionFailure A) \<and>
     ar_message (AssertionFailure A) = None \<and>
     (\<forall>e1 e2 v1 v2 c. \<not> ar_success (EqFailure A e1 e2 v1 v2 c)) \<and>
     (\<forall>r. ar_success (ar_negation A r) = (\<not> ar_success r)) \<and>
     (\<forall>s. GetString A s = escape_nul s)"

lemma c_str_escape [simp]: "c_str (escape_nul s) = escape_nul s"
  by (auto simp: c_str_def escape_nul_def takeWhile_eq_all_conv)

lemma escape_nul_append: "escape_nul (s @ t) = escape_nul s @ escape_nul t"
  by (simp add: escape_nul_def)

lemma escape_nul_Nil [simp]: "escape_nul [] = []"
  by (simp add: escape_nul_def)

lemma stream_all_text:
  assumes "assert_contract A"
  shows "stream_all A r xs = (if xs = [] then r else
    r\<lparr>ar_message := Some (message r @ escape_nul (concat (map (Message_stream A []) xs)))\<rparr>)"
proof (induction xs rule: rev_induct)
  case (snoc x xs)
  have step: "AssertionResult_stream A q x
      = q\<lparr>ar_message := Some (message q @ escape_nul (Message_stream A [] x))\<rparr>" for q
    using assms by (simp add: AssertionResult_stream_def AppendMessage_def assert_contract_def
        message_def Let_def)
  show ?case
  proof (cases "xs = []")
    case True
    then show ?thesis by (simp add: stream_all_def step)
  next
    case False
    with snoc.IH show ?thesis
      by (simp add: stream_all_def step message_def escape_nul_append)
  qed
qed (simp add: stream_all_def)

section \<open>Comparison assertions\<close>

text \<open>
  How an operand shows in a failure message: an array as the address it decays to, a char
  pointer or array as its string against a \<open>std::string\<close> and as an address otherwise, any
  other value tersely.
\<close>

definition operand_text :: "print_env \<Rightarrow> operand \<Rightarrow> cpp_type \<Rightarrow> string" where
  "operand_text E x other =
     (let t = deduced (fst x); v = referred (fst x) (snd x); as_string = (deduced other = TString)
      in case v of
        VArray p vs \<Rightarrow> pointer_text E p
      | VCharArray p s \<Rightarrow>
          if as_string \<and> p \<noteq> NULL then pe_string E (c_str s) else pointer_text E p
      | VCharPtr p s \<Rightarrow> if as_string \<and> p \<noteq> NULL then pe_string E s else pointer_text E p
      | _ \<Rightarrow> terse_text E t v)"

text \<open>The operand can be formatted: it has its type, and a char array shown as a string ends.\<close>

definition operand_ok :: "operand \<Rightarrow> cpp_type \<Rightarrow> bool" where
  "operand_ok x other \<longleftrightarrow> has_type (fst x) (snd x) \<and>
     (case referred (fst x) (snd x) of
        VCharArray p s \<Rightarrow> deduced other = TString \<longrightarrow> CHR 0x00 \<in> set s | _ \<Rightarrow> True)"

lemma failure_text_operand:
  assumes "operand_ok x (fst y)"
  shows "failure_text A x y = Some (operand_text (ae_print A) x (fst y))"
proof -
  let ?t = "deduced (fst x)" and ?v = "referred (fst x) (snd x)"
  have ty: "has_type ?t ?v"
    using assms by (simp add: operand_ok_def referred_typed)
  have addr: "PrintToString E TPtr (VAddress p) = Some (pointer_text E p)" for E p
    by (simp add: PrintToString_text terse_text_def)
  have str: "PrintToString E TCharPtr (VCharPtr p s)
      = Some (if p = NULL then ''NULL'' else pe_string E s)" for E p s
    by (simp add: PrintToString_text terse_text_def)
  have "PrintToString (ae_print A) ?t ?v = Some (terse_text (ae_print A) ?t ?v)"
    by (rule PrintToString_text [OF ty])
  then show ?thesis
    using ty assms deduced_not_ref [of "fst x"]
    by (cases ?t)
      (auto simp: failure_text_def FormatForComparisonFailureMessage_def FormatForComparison_def
        operand_text_def operand_ok_def addr str c_string_def c_str_def pointer_text_def Let_def
        split: cpp_value.splits)
qed

lemma CmpHelperOpFailure_text:
  assumes "assert_contract A" and "operand_ok x (fst y)" and "operand_ok y (fst x)"
  shows "CmpHelperOpFailure A e1 e2 x y op = Some \<lparr>ar_success = False,
    ar_message = Some (escape_nul (''Expected: ('' @ e1 @ '') '' @ op @ '' ('' @ e2 @ ''), actual: '' @
      operand_text (ae_print A) x (fst y) @ '' vs '' @ operand_text (ae_print A) y (fst x)))\<rparr>"
proof -
  have fail: "AssertionFailure A = \<lparr>ar_success = False, ar_message = None\<rparr>"
    using assms(1) by (cases "AssertionFailure A") (simp add: assert_contract_def)
  show ?thesis
    by (simp add: CmpHelperOpFailure_def failure_text_operand assms stream_all_text fail message_def)
qed

lemma CmpHelperEQ_success:
  assumes "assert_contract A" and "operand_ok x (fst y)" and "operand_ok y (fst x)"
  shows "\<exists>r. CmpHelperEQ A eq e1 e2 x y = Some r \<and> ar_success r = eq x y"
  using assms
  by (simp add: CmpHelperEQ_def CmpHelperEQFailure_def failure_text_operand assert_contract_def)

text \<open>
C39: A comparison assertion of two operands that are values of their types (a char array compared with a
\<open>std::string\<close> holding a NUL) always gives a result, and the result
is success exactly when the comparison holds. A failing \<open>NE\<close>, \<open>LE\<close>, \<open>LT\<close>, \<open>GE\<close> or \<open>GT\<close> says
"Expected: (e1) op (e2), actual: v1 vs v2", where a char pointer or array shows as its string
only against a \<open>std::string\<close> and as an address otherwise, and a NUL shows as a backslash and a
zero. A null literal is compared with a pointer as that pointer's null.
\<close>

theorem comparison_assertions_exact:
  assumes "assert_contract A" and "operand_ok x (fst y)" and "operand_ok y (fst x)"
  shows "CmpHelperOp A holds op e1 e2 x y = Some (if holds op x y then AssertionSuccess A
      else \<lparr>ar_success = False,
        ar_message = Some (escape_nul (''Expected: ('' @ e1 @ '') '' @ op_text op @ '' ('' @ e2 @
          ''), actual: '' @ operand_text (ae_print A) x (fst y) @ '' vs '' @
          operand_text (ae_print A) y (fst x)))\<rparr>) \<and>
    (\<exists>r. EqHelper_Compare A eq False e1 e2 x y = Some r \<and> ar_success r = eq x y) \<and>
    (is_pointer (fst y) \<longrightarrow> (\<exists>r. EqHelper_Compare A eq True e1 e2 x y = Some r \<and>
       ar_success r = eq (null_pointer (fst y)) y))"
proof -
  have null: "operand_ok (null_pointer (fst y)) (fst y)" "operand_ok y (fst (null_pointer (fst y)))"
    if "is_pointer (fst y)"
    using that assms(3) by (auto simp: operand_ok_def null_pointer_def split: cpp_value.splits)
  show ?thesis
    using CmpHelperEQ_success [OF assms, of eq e1 e2]
      CmpHelperEQ_success [OF assms(1) null, of eq e1 e2]
    by (simp add: CmpHelperOp_def CmpHelperOpFailure_text [OF assms] EqHelper_Compare_def
        del: is_pointer.simps)
qed

text \<open>A char pointer against a \<open>std::string\<close>, with a library that keeps the contract.\<close>

definition sample_asserts :: assert_env where
  "sample_asserts = \<lparr>ae_print = sample_env, GetString = escape_nul,
     AssertionSuccess = \<lparr>ar_success = True, ar_message = None\<rparr>,
     AssertionFailure = \<lparr>ar_success = False, ar_message = None\<rparr>,
     EqFailure = (\<lambda>e1 e2 v1 v2 c. \<lparr>ar_success = False, ar_message = Some (e1 @ v1 @ e2 @ v2)\<rparr>),
     ar_negation = (\<lambda>r. r\<lparr>ar_success := \<not> ar_success r\<rparr>),
     GetBoolAssertionFailureMessage = (\<lambda>r text actual expected. text)\<rparr>"

lemma sample_contract: "assert_contract sample_asserts"
  by (simp add: assert_contract_def sample_asserts_def)

theorem comparison_assertions_exact_witness:
  "operand_ok (TCharPtr, VCharPtr 7 ''ab'') TString \<and>
   CmpHelperOp sample_asserts (\<lambda>op x y. False) NE ''s'' ''t''
     (TCharPtr, VCharPtr 7 ''ab'') (TString, VString ''ab'')
   = Some \<lparr>ar_success = False, ar_message = Some ''Expected: (s) != (t), actual: ab vs ab''\<rparr>"
proof -
  let ?x = "(TCharPtr, VCharPtr 7 ''ab'')" and ?y = "(TString, VString ''ab'')"
  have ok: "operand_ok ?x (fst ?y)" "operand_ok ?y (fst ?x)"
    by (simp_all add: operand_ok_def)
  have shown: "operand_text sample_env ?x TString = ''ab''" "operand_text sample_env ?y TCharPtr = ''ab''"
    by (simp_all add: operand_text_def terse_text_def sample_env_def Let_def)
  have "ae_print sample_asserts = sample_env" by (simp add: sample_asserts_def)
  with ok shown comparison_assertions_exact [OF sample_contract ok,
      of "\<lambda>op x y. False" NE "''s''" "''t''" "\<lambda>x y. True"]
  show ?thesis by (simp add: escape_nul_def)
qed

section \<open>Test bodies\<close>

lemma fatal_failure_returns: "GTEST_FATAL_FAILURE rep msg s = (Returned, rep kFatalFailure msg s)"
  by (simp add: GTEST_FATAL_FAILURE_def GTEST_MESSAGE_def)

lemma nonfatal_failure_completes:
  "GTEST_NONFATAL_FAILURE rep msg s = (Completed, rep kNonFatalFailure msg s)"
  by (simp add: GTEST_NONFATAL_FAILURE_def GTEST_MESSAGE_def)

lemmas failure_statements = fatal_failure_returns nonfatal_failure_completes on_failure_def

text \<open>An assertion of a body: is it an \<open>ASSERT\<close>, and what does its expression give.\<close>

type_synonym check = "bool \<times> AssertionResult"

definition check_stmt :: "'s reporter \<Rightarrow> check \<Rightarrow> ('s, 'x) stmt" where
  "check_stmt rep c = GTEST_ASSERT (\<lambda>s. (Inr (snd c), s)) (on_failure rep (fst c))"

definition failing :: "check \<Rightarrow> bool" where
  "failing c \<longleftrightarrow> \<not> ar_success (snd c)"

definition stops :: "check \<Rightarrow> bool" where
  "stops c \<longleftrightarrow> fst c \<and> failing c"

definition report_check :: "'s reporter \<Rightarrow> check \<Rightarrow> 's \<Rightarrow> 's" where
  "report_check rep c = rep (if fst c then kFatalFailure else kNonFatalFailure) (message (snd c))"

definition executed :: "check list \<Rightarrow> check list" where
  "executed cs = takeWhile (\<lambda>c. \<not> stops c) cs @ take 1 (dropWhile (\<lambda>c. \<not> stops c) cs)"

lemma check_stmt_run: "check_stmt rep c s =
    (if stops c then Returned else Completed, if failing c then report_check rep c s else s)"
  by (simp add: check_stmt_def GTEST_ASSERT_def failure_statements stops_def failing_def
      report_check_def)

lemma TestBody_checks:
  "TestBody (map (check_stmt rep) cs) s =
    (if list_ex stops cs then Returned else Completed,
     fold (report_check rep) (filter failing (executed cs)) s)"
proof (induction cs arbitrary: s)
  case (Cons c cs)
  have "failing c" if "stops c"
    using that by (simp add: stops_def)
  with Cons show ?case
    by (simp add: check_stmt_run executed_def)
qed (simp add: executed_def)

text \<open>
C31: a test body made of assertions evaluates them in order; each failing \<open>EXPECT\<close> is reported as a
nonfatal failure and the body goes on; the first failing \<open>ASSERT\<close> is reported as a fatal failure and the
body returns there, so nothing after it is evaluated or reported. The body returns early exactly when
some \<open>ASSERT\<close> fails.
\<close>

theorem body_reports_up_to_first_fatal:
  "TestBody (map (check_stmt rep) cs) s =
    (if list_ex stops cs then Returned else Completed,
     fold (report_check rep) (filter failing (executed cs)) s)"
  by (rule TestBody_checks)

text \<open>What the exception assertions let through: nothing, when reporting does not throw.\<close>

lemma exception_assertions_contain:
  assumes "\<And>m s'. fst (fail m s') \<noteq> Threw x"
  shows "fst (GTEST_TEST_THROW st text is_expected ex fail s) \<noteq> Threw x"
    and "fst (GTEST_TEST_NO_THROW st text fail s) \<noteq> Threw x"
    and "fst (GTEST_TEST_ANY_THROW st text fail s) \<noteq> Threw x"
  using assms
  by (auto simp: GTEST_TEST_THROW_def GTEST_TEST_NO_THROW_def GTEST_TEST_ANY_THROW_def Let_def
      split: prod.splits control.splits)

text \<open>\<open>TEST_TRUE\<close> and \<open>TEST_FALSE\<close> of one condition: exactly one reports.\<close>

lemma true_false_complementary:
  assumes "assert_contract A" and "cond s = (Inr c, s')" and "\<And>m. fail m s' \<noteq> (Completed, s')"
  shows "(TEST_TRUE A cond text fail s = (Completed, s')) \<noteq>
    (TEST_FALSE A cond text fail s = (Completed, s'))"
  using assms
  by (cases c) (auto simp: TEST_TRUE_def TEST_FALSE_def GTEST_TEST_BOOLEAN_def assert_contract_def Let_def)

end
