(* ===== verification/Gtest_Tests.thy ===== *)
theory Gtest_Tests
  imports Gtest_Assertions
begin

text \<open>
  Tests and test cases of the bundled googletest, as far as the headers define them: \<open>TestProperty\<close>, \<open>TestResult\<close>, \<open>TestInfo\<close>,
  \<open>TestCase\<close>, \<open>TEST\<close>, \<open>TEST_F\<close> and \<open>RUN_ALL_TESTS\<close> (gtest.h), type identifiers, test factories and the macro \<open>GTEST_TEST_\<close>
  (gtest-internal.h). A test acts on the state of the program and the parts its assertions reported so far. The functions
  of the compiled library are the fields of \<open>unit_test_api\<close>; what their comments promise are the contracts. Main results:
  a translation unit registers each test it declares once, in order, under its own class and with the identifier of its fixture, and the
  counts of a test case add up.
\<close>

section \<open>Results\<close>

type_synonym test_part = "part_type \<times> string"
type_synonym 's prog = "'s \<times> test_part list"

definition report_part :: "'s prog reporter" where
  "report_part t msg w = (fst w, snd w @ [(t, msg)])"

record TestProperty =
  key :: string
  property_value :: string

definition make_TestProperty :: "string \<Rightarrow> string \<Rightarrow> TestProperty" where
  "make_TestProperty a_key a_value = \<lparr>key = a_key, property_value = a_value\<rparr>"

definition TestProperty_key :: "TestProperty \<Rightarrow> string" where
  "TestProperty_key p = c_str (key p)"

definition TestProperty_value :: "TestProperty \<Rightarrow> string" where
  "TestProperty_value p = c_str (property_value p)"

definition SetValue :: "string \<Rightarrow> TestProperty \<Rightarrow> TestProperty" where
  "SetValue new_value p = p\<lparr>property_value := new_value\<rparr>"

record TestResult =
  test_part_results :: "test_part list"
  test_properties :: "TestProperty list"
  death_test_count :: int
  elapsed_time :: int

definition set_elapsed_time :: "int \<Rightarrow> TestResult \<Rightarrow> TestResult" where
  "set_elapsed_time elapsed r = r\<lparr>elapsed_time := elapsed\<rparr>"

definition increment_death_test_count :: "TestResult \<Rightarrow> (int \<times> TestResult) res" where
  "increment_death_test_count r =
     (if death_test_count r \<ge> INT_MAX then Inl SignedOverflow
      else let r = r\<lparr>death_test_count := death_test_count r + 1\<rparr> in Inr (death_test_count r, r))"

section \<open>Fixtures, tests and test cases\<close>

text \<open>
  A fixture class with its constructor, destructor and virtual functions; \<open>plain_Test\<close> is \<open>::testing::Test\<close>, which does
  nothing at set-up and tear-down.
\<close>

record ('s, 'x) fixture =
  fx_name :: string
  fx_ctor :: "('s prog, 'x) stmt"
  fx_SetUp :: "('s prog, 'x) stmt"
  fx_TearDown :: "('s prog, 'x) stmt"
  fx_dtor :: "('s prog, 'x) stmt"
  SetUpTestCase :: "('s prog, 'x) stmt"
  TearDownTestCase :: "('s prog, 'x) stmt"

definition nothing :: "('s, 'x) stmt" where
  "nothing w = (Completed, w)"

definition plain_Test :: "('s, 'x) fixture" where
  "plain_Test = \<lparr>fx_name = ''::testing::Test'', fx_ctor = nothing, fx_SetUp = nothing, fx_TearDown = nothing, fx_dtor = nothing,
     SetUpTestCase = nothing, TearDownTestCase = nothing\<rparr>"

record CodeLocation =
  cl_file :: string
  cl_line :: int

text \<open>A class derived from a fixture by the macro, and the factory for it.\<close>

record ('s, 'x) test_class =
  tc_name :: string
  tc_parent :: "('s, 'x) fixture"
  tc_TestBody :: "('s prog, 'x) stmt"

datatype ('s, 'x) TestFactoryImpl = TestFactoryImpl (TestClass: "('s, 'x) test_class")

text \<open>\<open>new TestClass\<close>: the constructor of the parent, then the empty one of the class.\<close>

definition CreateTest :: "('s, 'x) TestFactoryImpl \<Rightarrow> 's prog \<Rightarrow> 'x control \<times> 's prog" where
  "CreateTest f = TestBody [fx_ctor (tc_parent (TestClass f)), nothing]"

record ('s, 'x) TestInfo =
  ti_test_case_name :: string
  ti_name :: string
  ti_type_param :: "string option"
  ti_value_param :: "string option"
  ti_location :: CodeLocation
  ti_fixture_class_id :: ptr
  ti_should_run :: bool
  ti_is_disabled :: bool
  ti_matches_filter :: bool
  ti_factory :: "('s, 'x) TestFactoryImpl"
  ti_result :: TestResult

definition type_param :: "('s, 'x) TestInfo \<Rightarrow> string option" where
  "type_param t = (case ti_type_param t of Some p \<Rightarrow> Some (c_str p) | None \<Rightarrow> None)"

definition value_param :: "('s, 'x) TestInfo \<Rightarrow> string option" where
  "value_param t = (case ti_value_param t of Some p \<Rightarrow> Some (c_str p) | None \<Rightarrow> None)"

definition is_reportable :: "('s, 'x) TestInfo \<Rightarrow> bool" where
  "is_reportable t = ti_matches_filter t"

definition TestInfo_increment_death_test_count :: "('s, 'x) TestInfo \<Rightarrow> (int \<times> ('s, 'x) TestInfo) res" where
  "TestInfo_increment_death_test_count t =
     bindr (increment_death_test_count (ti_result t)) (\<lambda>(n, r). Inr (n, t\<lparr>ti_result := r\<rparr>))"

record ('s, 'x) TestCase =
  case_name :: string
  case_type_param :: "string option"
  test_info_list :: "('s, 'x) TestInfo list"
  set_up_tc :: "('s prog, 'x) stmt"
  tear_down_tc :: "('s prog, 'x) stmt"
  case_should_run :: bool
  ad_hoc_test_result :: TestResult

text \<open>The functions of the compiled library; \<open>'u\<close> is the state of the unit test object.\<close>

record ('s, 'x, 'u) unit_test_api =
  Failed :: "TestResult \<Rightarrow> bool"
  Clear :: "TestResult \<Rightarrow> TestResult"
  successful_test_count :: "('s, 'x) TestCase \<Rightarrow> nat"
  failed_test_count :: "('s, 'x) TestCase \<Rightarrow> nat"
  reportable_disabled_test_count :: "('s, 'x) TestCase \<Rightarrow> nat"
  disabled_test_count :: "('s, 'x) TestCase \<Rightarrow> nat"
  reportable_test_count :: "('s, 'x) TestCase \<Rightarrow> nat"
  test_to_run_count :: "('s, 'x) TestCase \<Rightarrow> nat"
  total_test_count :: "('s, 'x) TestCase \<Rightarrow> nat"
  GetTestTypeId :: ptr
  MakeAndRegisterTestInfo :: "string \<Rightarrow> string \<Rightarrow> string option \<Rightarrow> string option \<Rightarrow> CodeLocation \<Rightarrow> ptr \<Rightarrow>
    ('s prog, 'x) stmt \<Rightarrow> ('s prog, 'x) stmt \<Rightarrow> ('s, 'x) TestFactoryImpl \<Rightarrow> 'u \<Rightarrow> 'u"
  registered :: "'u \<Rightarrow> ('s, 'x) TestInfo list"
  selected :: "'u \<Rightarrow> ('s, 'x) TestInfo list"
  InitGoogleTest :: "string list \<Rightarrow> 'u \<Rightarrow> string list \<times> 'u"
  UnitTest_Run :: "'u \<Rightarrow> 's prog \<Rightarrow> ('x + int \<times> 'u \<times> 's prog)"

definition TestResult_Passed where
  "TestResult_Passed api r = (\<not> Failed api r)"

definition ClearTestResult where
  "ClearTestResult api t = t\<lparr>ti_result := Clear api (ti_result t)\<rparr>"

definition TestCase_Failed where
  "TestCase_Failed api c = (failed_test_count api c > 0)"

definition TestCase_Passed where
  "TestCase_Passed api c = (\<not> TestCase_Failed api c)"

definition TestPassed where
  "TestPassed api t = (ti_should_run t \<and> TestResult_Passed api (ti_result t))"

definition TestFailed where
  "TestFailed api t = (ti_should_run t \<and> Failed api (ti_result t))"

definition TestReportableDisabled :: "('s, 'x) TestInfo \<Rightarrow> bool" where
  "TestReportableDisabled t = (is_reportable t \<and> ti_is_disabled t)"

definition TestDisabled :: "('s, 'x) TestInfo \<Rightarrow> bool" where
  "TestDisabled t = ti_is_disabled t"

definition TestReportable :: "('s, 'x) TestInfo \<Rightarrow> bool" where
  "TestReportable t = is_reportable t"

definition ShouldRunTest :: "('s, 'x) TestInfo \<Rightarrow> bool" where
  "ShouldRunTest t = ti_should_run t"

definition set_should_run :: "bool \<Rightarrow> ('s, 'x) TestCase \<Rightarrow> ('s, 'x) TestCase" where
  "set_should_run should c = c\<lparr>case_should_run := should\<rparr>"

definition RunSetUpTestCase :: "('s, 'x) TestCase \<Rightarrow> ('s prog, 'x) stmt" where
  "RunSetUpTestCase c = set_up_tc c"

definition RunTearDownTestCase :: "('s, 'x) TestCase \<Rightarrow> ('s prog, 'x) stmt" where
  "RunTearDownTestCase c = tear_down_tc c"

section \<open>Comparison macros\<close>

text \<open>
  The operands are evaluated, then the predicate-formatter decides; \<open>unprintable\<close> is the fault of an operand that cannot be shown. \<open>eq\<close>
  and \<open>holds\<close> are the operators of the operand types, and \<open>null_literal\<close> says whether the first operand is a null pointer literal.
\<close>

definition GTEST_PRED_FORMAT2 ::
  "(string \<Rightarrow> string \<Rightarrow> operand \<Rightarrow> operand \<Rightarrow> AssertionResult option) \<Rightarrow> 'x \<Rightarrow> string \<Rightarrow> string \<Rightarrow> ('s, 'x, operand \<times> operand) expr \<Rightarrow>
    (string \<Rightarrow> ('s, 'x) stmt) \<Rightarrow> ('s, 'x) stmt" where
  "GTEST_PRED_FORMAT2 pred_format unprintable e1 e2 operands failure = GTEST_ASSERT
     (\<lambda>w. case operands w of
        (Inl x, w) \<Rightarrow> (Inl x, w)
      | (Inr (v1, v2), w) \<Rightarrow> (case pred_format e1 e2 v1 v2 of None \<Rightarrow> Inl unprintable | Some r \<Rightarrow> Inr r, w))
     failure"

definition EXPECT_EQ where
  "EXPECT_EQ A eq null_literal unprintable e1 e2 operands =
     GTEST_PRED_FORMAT2 (EqHelper_Compare A eq null_literal) unprintable e1 e2 operands (on_failure report_part False)"

definition ASSERT_EQ where
  "ASSERT_EQ A eq null_literal unprintable e1 e2 operands =
     GTEST_PRED_FORMAT2 (EqHelper_Compare A eq null_literal) unprintable e1 e2 operands (on_failure report_part True)"

definition EXPECT_cmp where
  "EXPECT_cmp A holds op unprintable e1 e2 operands =
     GTEST_PRED_FORMAT2 (CmpHelperOp A holds op) unprintable e1 e2 operands (on_failure report_part False)"

definition ASSERT_cmp where
  "ASSERT_cmp A holds op unprintable e1 e2 operands =
     GTEST_PRED_FORMAT2 (CmpHelperOp A holds op) unprintable e1 e2 operands (on_failure report_part True)"

text \<open>A comparison that holds lets the body go on and reports nothing.\<close>

lemma holding_comparison_completes:
  assumes "assert_contract A" "operands w = (Inr (x, y), w')"
  shows "eq x y \<Longrightarrow> \<not> (null_literal \<and> is_pointer (fst y)) \<Longrightarrow> EXPECT_EQ A eq null_literal ub e1 e2 operands w = (Completed, w')"
    and "eq x y \<Longrightarrow> \<not> (null_literal \<and> is_pointer (fst y)) \<Longrightarrow> ASSERT_EQ A eq null_literal ub e1 e2 operands w = (Completed, w')"
    and "holds op x y \<Longrightarrow> EXPECT_cmp A holds op ub e1 e2 operands w = (Completed, w')"
    and "holds op x y \<Longrightarrow> ASSERT_cmp A holds op ub e1 e2 operands w = (Completed, w')"
  using assms
  by (auto simp: EXPECT_EQ_def ASSERT_EQ_def EXPECT_cmp_def ASSERT_cmp_def GTEST_PRED_FORMAT2_def GTEST_ASSERT_def
      EqHelper_Compare_def CmpHelperEQ_def CmpHelperOp_def assert_contract_def simp del: is_pointer.simps)

section \<open>TEST and TEST\_F\<close>

text \<open>\<open>dummy_at\<close> is where the linker places \<open>TypeIdHelper<T>::dummy_\<close>.\<close>

definition GetTypeId :: "(string \<Rightarrow> ptr) \<Rightarrow> string \<Rightarrow> ptr" where
  "GetTypeId dummy_at T = dummy_at T"

definition GTEST_TEST_CLASS_NAME :: "string \<Rightarrow> string \<Rightarrow> string" where
  "GTEST_TEST_CLASS_NAME test_case_name test_name = test_case_name @ ''_'' @ test_name @ ''_Test''"

text \<open>A declaration defines a class, so that its name must be new, and a static variable whose initialiser registers the test.\<close>

type_synonym 'u unit_state = "string set \<times> 'u"

definition GTEST_TEST where
  "GTEST_TEST api test_case_name test_name parent_class parent_id loc body st =
     (let class_name = GTEST_TEST_CLASS_NAME test_case_name test_name in
      if class_name \<in> fst st then None
      else Some (insert class_name (fst st), MakeAndRegisterTestInfo api test_case_name test_name None None loc parent_id
        (SetUpTestCase parent_class) (TearDownTestCase parent_class)
        (TestFactoryImpl \<lparr>tc_name = class_name, tc_parent = parent_class, tc_TestBody = body\<rparr>) (snd st)))"

datatype ('s, 'x) test_decl =
    TEST string string CodeLocation "('s prog, 'x) stmt"
  | TEST_F "('s, 'x) fixture" string CodeLocation "('s prog, 'x) stmt"

fun declare_test ::
  "('s, 'x, 'u) unit_test_api \<Rightarrow> (string \<Rightarrow> ptr) \<Rightarrow> ('s, 'x) test_decl \<Rightarrow> 'u unit_state \<Rightarrow> 'u unit_state option" where
  "declare_test api dummy_at (TEST test_case_name test_name loc body) st =
     GTEST_TEST api test_case_name test_name plain_Test (GetTestTypeId api) loc body st"
| "declare_test api dummy_at (TEST_F test_fixture test_name loc body) st =
     GTEST_TEST api (fx_name test_fixture) test_name test_fixture (GetTypeId dummy_at (fx_name test_fixture)) loc body st"

text \<open>A translation unit; \<open>None\<close> if it does not compile.\<close>

fun declare_tests ::
  "('s, 'x, 'u) unit_test_api \<Rightarrow> (string \<Rightarrow> ptr) \<Rightarrow> ('s, 'x) test_decl list \<Rightarrow> 'u unit_state \<Rightarrow> 'u unit_state option" where
  "declare_tests api dummy_at [] st = Some st"
| "declare_tests api dummy_at (d # ds) st = Option.bind (declare_test api dummy_at d st) (declare_tests api dummy_at ds)"

definition RUN_ALL_TESTS where
  "RUN_ALL_TESTS api u w = UnitTest_Run api u w"

section \<open>What the library promises\<close>

definition passed_part :: "test_part \<Rightarrow> bool" where
  "passed_part p \<longleftrightarrow> fst p = kSuccess"

definition result_contract :: "('s, 'x, 'u) unit_test_api \<Rightarrow> bool" where
  "result_contract api \<longleftrightarrow> (\<forall>r. Failed api r = (\<exists>p \<in> set (test_part_results r). \<not> passed_part p))"

definition count_contract :: "('s, 'x, 'u) unit_test_api \<Rightarrow> bool" where
  "count_contract api \<longleftrightarrow> (\<forall>c.
     successful_test_count api c = length (filter (TestPassed api) (test_info_list c)) \<and>
     failed_test_count api c = length (filter (TestFailed api) (test_info_list c)) \<and>
     reportable_disabled_test_count api c = length (filter TestReportableDisabled (test_info_list c)) \<and>
     disabled_test_count api c = length (filter TestDisabled (test_info_list c)) \<and>
     reportable_test_count api c = length (filter TestReportable (test_info_list c)) \<and>
     test_to_run_count api c = length (filter ShouldRunTest (test_info_list c)) \<and>
     total_test_count api c = length (test_info_list c))"

text \<open>\<open>TestInfo\<close> has the fields it was registered with; the command line decides which of the tests run, how often and in which order.\<close>

definition registration_contract :: "('s, 'x, 'u) unit_test_api \<Rightarrow> bool" where
  "registration_contract api \<longleftrightarrow>
     (\<forall>c n tp vp loc fid up down f u. \<exists>t. registered api (MakeAndRegisterTestInfo api c n tp vp loc fid up down f u) = registered api u @ [t] \<and>
        ti_test_case_name t = c \<and> ti_name t = n \<and> ti_type_param t = tp \<and> ti_value_param t = vp \<and> ti_location t = loc \<and>
        ti_fixture_class_id t = fid \<and> ti_factory t = f) \<and>
     (\<forall>argv u. registered api (snd (InitGoogleTest api argv u)) = registered api u) \<and>
     (\<forall>u. set (selected api u) \<subseteq> set (registered api u))"

definition type_id_contract :: "('s, 'x, 'u) unit_test_api \<Rightarrow> (string \<Rightarrow> ptr) \<Rightarrow> bool" where
  "type_id_contract api dummy_at \<longleftrightarrow> inj dummy_at \<and> GetTestTypeId api = dummy_at ''::testing::Test''"

text \<open>
  The test object is created, set up, executed, torn down and deleted; a \<open>return\<close> ends one of these, an exception is \<open>Inl\<close>.
  Tests run one after the other, each with a result of its own.
\<close>

fun phases :: "('s, 'x) stmt list \<Rightarrow> 's \<Rightarrow> 'x + 's" where
  "phases [] w = Inr w"
| "phases (st # sts) w = (case st w of (Threw x, w) \<Rightarrow> Inl x | (_, w) \<Rightarrow> phases sts w)"

definition run_test :: "('s, 'x) TestFactoryImpl \<Rightarrow> 's \<Rightarrow> 'x + 's prog" where
  "run_test f s = (let c = TestClass f; fx = tc_parent c
     in phases [CreateTest f, fx_SetUp fx, tc_TestBody c, fx_TearDown fx, fx_dtor fx] (s, []))"

fun run_tests :: "('s, 'x) TestInfo list \<Rightarrow> 's \<Rightarrow> 'x + bool \<times> 's" where
  "run_tests [] s = Inr (True, s)"
| "run_tests (t # ts) s = (case run_test (ti_factory t) s of
     Inl x \<Rightarrow> Inl x
   | Inr (s, parts) \<Rightarrow> (case run_tests ts s of
       Inl x \<Rightarrow> Inl x | Inr (ok, s) \<Rightarrow> Inr (list_all passed_part parts \<and> ok, s)))"

text \<open>\<open>Run\<close> returns 0 if successful, or 1 otherwise: for fixtures without a set-up of the test case, and no environments.\<close>

definition run_contract :: "('s, 'x, 'u) unit_test_api \<Rightarrow> bool" where
  "run_contract api \<longleftrightarrow> (\<forall>u w ok s. run_tests (selected api u) (fst w) = Inr (ok, s) \<longrightarrow>
     (\<forall>t \<in> set (selected api u). SetUpTestCase (tc_parent (TestClass (ti_factory t))) = nothing \<and>
        TearDownTestCase (tc_parent (TestClass (ti_factory t))) = nothing) \<longrightarrow>
     (\<exists>u' w'. UnitTest_Run api u w = Inr (if ok then 0 else 1, u', w') \<and> (ok \<longrightarrow> fst w' = s)))"

section \<open>The tests of a translation unit\<close>

fun decl_case :: "('s, 'x) test_decl \<Rightarrow> string" where
  "decl_case (TEST c n loc b) = c" | "decl_case (TEST_F fx n loc b) = fx_name fx"

fun decl_name :: "('s, 'x) test_decl \<Rightarrow> string" where
  "decl_name (TEST c n loc b) = n" | "decl_name (TEST_F fx n loc b) = n"

fun decl_fixture :: "('s, 'x) test_decl \<Rightarrow> ('s, 'x) fixture" where
  "decl_fixture (TEST c n loc b) = plain_Test" | "decl_fixture (TEST_F fx n loc b) = fx"

fun decl_body :: "('s, 'x) test_decl \<Rightarrow> ('s prog, 'x) stmt" where
  "decl_body (TEST c n loc b) = b" | "decl_body (TEST_F fx n loc b) = b"

definition decl_class :: "('s, 'x) test_decl \<Rightarrow> string" where
  "decl_class d = GTEST_TEST_CLASS_NAME (decl_case d) (decl_name d)"

definition registers :: "(string \<Rightarrow> ptr) \<Rightarrow> ('s, 'x) test_decl \<Rightarrow> ('s, 'x) TestInfo \<Rightarrow> bool" where
  "registers dummy_at d t \<longleftrightarrow> ti_test_case_name t = decl_case d \<and> ti_name t = decl_name d \<and>
     ti_fixture_class_id t = dummy_at (fx_name (decl_fixture d)) \<and>
     ti_factory t = TestFactoryImpl \<lparr>tc_name = decl_class d, tc_parent = decl_fixture d, tc_TestBody = decl_body d\<rparr>"

text \<open>Test case names without an underscore keep the classes apart, whatever the names of the tests.\<close>

lemma class_name_inject:
  assumes "CHR ''_'' \<notin> set c" "CHR ''_'' \<notin> set c'"
  shows "GTEST_TEST_CLASS_NAME c n = GTEST_TEST_CLASS_NAME c' n' \<longleftrightarrow> c = c' \<and> n = n'"
proof
  assume "GTEST_TEST_CLASS_NAME c n = GTEST_TEST_CLASS_NAME c' n'"
  then have eq: "c @ CHR ''_'' # n = c' @ CHR ''_'' # n'" by (simp add: GTEST_TEST_CLASS_NAME_def)
  have "takeWhile (\<lambda>x. x \<noteq> CHR ''_'') (c @ CHR ''_'' # n) = c" "takeWhile (\<lambda>x. x \<noteq> CHR ''_'') (c' @ CHR ''_'' # n') = c'"
    using assms by (auto simp: takeWhile_append)
  then show "c = c' \<and> n = n'" using eq by simp
qed simp

lemma class_name_collision: "GTEST_TEST_CLASS_NAME ''a_b'' ''c'' = GTEST_TEST_CLASS_NAME ''a'' ''b_c''"
  by (simp add: GTEST_TEST_CLASS_NAME_def)

lemma declare_test_eq:
  assumes "registration_contract api" "type_id_contract api dummy_at"
  shows "declare_test api dummy_at d (names, u) =
    (if decl_class d \<in> names then None else Some (insert (decl_class d) names, snd (the (declare_test api dummy_at d (names, u)))))"
    and "decl_class d \<notin> names \<Longrightarrow> \<exists>t. registers dummy_at d t \<and>
      registered api (snd (the (declare_test api dummy_at d (names, u)))) = registered api u @ [t]"
proof -
  have reg: "\<exists>t. registered api (MakeAndRegisterTestInfo api c n tp vp loc fid up down f u) = registered api u @ [t] \<and>
      ti_test_case_name t = c \<and> ti_name t = n \<and> ti_type_param t = tp \<and> ti_value_param t = vp \<and> ti_location t = loc \<and>
      ti_fixture_class_id t = fid \<and> ti_factory t = f" for c n tp vp loc fid up down f u
    using assms(1) unfolding registration_contract_def by blast
  note ids = assms(2) [unfolded type_id_contract_def]
  show "declare_test api dummy_at d (names, u) =
    (if decl_class d \<in> names then None else Some (insert (decl_class d) names, snd (the (declare_test api dummy_at d (names, u)))))"
    by (cases d) (simp_all add: GTEST_TEST_def Let_def decl_class_def)
  show "\<exists>t. registers dummy_at d t \<and> registered api (snd (the (declare_test api dummy_at d (names, u)))) = registered api u @ [t]"
    if "decl_class d \<notin> names"
    using that ids
    by (cases d; simp add: GTEST_TEST_def Let_def decl_class_def registers_def GetTypeId_def plain_Test_def; metis reg)
qed

lemma declare_tests_eq:
  assumes "registration_contract api" "type_id_contract api dummy_at"
    and "distinct (map decl_class ds)" "decl_class ` set ds \<inter> names = {}"
  shows "\<exists>names' u' ts. declare_tests api dummy_at ds (names, u) = Some (names', u') \<and>
    registered api u' = registered api u @ ts \<and> list_all2 (registers dummy_at) ds ts"
  using assms(3,4)
proof (induction ds arbitrary: names u)
  case (Cons d ds)
  then have new: "decl_class d \<notin> names" by simp
  obtain u1 t where d: "declare_test api dummy_at d (names, u) = Some (insert (decl_class d) names, u1)"
      "registers dummy_at d t" "registered api u1 = registered api u @ [t]"
    using declare_test_eq [OF assms(1,2), of d names u] new by (metis option.sel snd_conv)
  have "distinct (map decl_class ds)" "decl_class ` set ds \<inter> insert (decl_class d) names = {}"
    using Cons.prems by auto
  from Cons.IH [OF this, of u1] obtain names' u' ts where
      "declare_tests api dummy_at ds (insert (decl_class d) names, u1) = Some (names', u')"
      "registered api u' = registered api u1 @ ts" "list_all2 (registers dummy_at) ds ts" by blast
  then show ?case using d
    by (intro exI [of _ names'], intro exI [of _ u'], intro exI [of _ "t # ts"]) simp
qed simp

text \<open>Two tests that get the same class do not compile.\<close>

lemma declare_tests_clash:
  assumes "registration_contract api" "type_id_contract api dummy_at"
    and "\<not> distinct (map decl_class ds) \<or> decl_class ` set ds \<inter> names \<noteq> {}"
  shows "declare_tests api dummy_at ds (names, u) = None"
  using assms(3)
proof (induction ds arbitrary: names u)
  case (Cons d ds)
  show ?case
  proof (cases "decl_class d \<in> names")
    case True
    then show ?thesis using declare_test_eq(1) [OF assms(1,2), of d names u] by simp
  next
    case False
    then obtain u1 where d: "declare_test api dummy_at d (names, u) = Some (insert (decl_class d) names, u1)"
      using declare_test_eq(1) [OF assms(1,2), of d names u] by metis
    have "\<not> distinct (map decl_class ds) \<or> decl_class ` set ds \<inter> insert (decl_class d) names \<noteq> {}"
      using Cons.prems False by auto
    from Cons.IH [OF this] show ?thesis by (simp add: d)
  qed
qed simp

lemma classes_apart:
  assumes "\<And>d. d \<in> set ds \<Longrightarrow> CHR ''_'' \<notin> set (decl_case d)"
  shows "distinct (map decl_class ds) \<longleftrightarrow> distinct (map (\<lambda>d. (decl_case d, decl_name d)) ds)"
proof -
  have "inj_on (\<lambda>(c, n). GTEST_TEST_CLASS_NAME c n) (set (map (\<lambda>d. (decl_case d, decl_name d)) ds))"
    using assms class_name_inject by (auto simp: inj_on_def)
  then have "distinct (map (\<lambda>(c, n). GTEST_TEST_CLASS_NAME c n) (map (\<lambda>d. (decl_case d, decl_name d)) ds)) \<longleftrightarrow>
      distinct (map (\<lambda>d. (decl_case d, decl_name d)) ds)"
    by (simp only: distinct_map simp_thms)
  then show ?thesis by (simp add: comp_def decl_class_def [abs_def])
qed

text \<open>
C23: take a translation unit whose test cases have names without an underscore. When its tests have pairwise different pairs of
test case and test name it compiles, and its static initialisation registers each \<open>TEST\<close> and \<open>TEST_F\<close> once, in the order of the
text, behind what was registered before, with its own two names, class, body and parent class, and with the identifier of its
fixture class (a plain \<open>TEST\<close>: of \<open>testing::Test\<close>). When two of its tests have the same pair of names it does not compile.
\<close>

theorem unit_registers_its_tests:
  assumes "registration_contract api" and "type_id_contract api dummy_at"
    and "\<And>d. d \<in> set ds \<Longrightarrow> CHR ''_'' \<notin> set (decl_case d)"
  shows "if distinct (map (\<lambda>d. (decl_case d, decl_name d)) ds)
    then \<exists>names' u' ts. declare_tests api dummy_at ds ({}, u) = Some (names', u') \<and>
      registered api u' = registered api u @ ts \<and> list_all2 (registers dummy_at) ds ts
    else declare_tests api dummy_at ds ({}, u) = None"
  using declare_tests_eq [OF assms(1,2), of ds "{}" u] declare_tests_clash [OF assms(1,2), of ds "{}" u]
    classes_apart [OF assms(3)] by simp

text \<open>A library that keeps the contracts, and a unit with a fixture and two plain tests.\<close>

fun string_code :: "string \<Rightarrow> nat" where
  "string_code [] = 0"
| "string_code (c # cs) = Suc (of_char c + 256 * string_code cs)"

lemma base_digits:
  assumes "a + 256 * m = b + 256 * (n :: nat)" "a < 256" "b < 256"
  shows "a = b" "m = n"
proof -
  have "(a + 256 * m) mod 256 = a" "(b + 256 * n) mod 256 = b" "(a + 256 * m) div 256 = m" "(b + 256 * n) div 256 = n"
    using assms(2,3) by simp_all
  then show "a = b" "m = n" using assms(1) by simp_all
qed

lemma inj_string_code: "inj string_code"
proof (rule injI)
  show "string_code s = string_code t \<Longrightarrow> s = t" for s t
  proof (induction s arbitrary: t)
    case (Cons c s)
    then obtain d t' where t: "t = d # t'" by (cases t) simp_all
    have "of_char c + 256 * string_code s = of_char d + 256 * string_code t'" using Cons.prems t by simp
    from base_digits [OF this] have "(of_char c :: nat) = of_char d" "string_code s = string_code t'" by simp_all
    then show ?case using Cons.IH t by simp
  next
    case Nil
    then show ?case by (cases t) simp_all
  qed
qed

definition sample_result :: TestResult where
  "sample_result = \<lparr>test_part_results = [], test_properties = [], death_test_count = 0, elapsed_time = 0\<rparr>"

definition sample_unit_test :: "('s, 'x, ('s, 'x) TestInfo list) unit_test_api" where
  "sample_unit_test = (let failed = (\<lambda>r. \<exists>p \<in> set (test_part_results r). \<not> passed_part p);
       count = (\<lambda>P c. length (filter P (test_info_list c))) in
     \<lparr>Failed = failed, Clear = (\<lambda>r. sample_result),
      successful_test_count = count (\<lambda>t. ti_should_run t \<and> \<not> failed (ti_result t)),
      failed_test_count = count (\<lambda>t. ti_should_run t \<and> failed (ti_result t)),
      reportable_disabled_test_count = count TestReportableDisabled, disabled_test_count = count TestDisabled,
      reportable_test_count = count TestReportable, test_to_run_count = count ShouldRunTest,
      total_test_count = count (\<lambda>t. True), GetTestTypeId = string_code ''::testing::Test'',
      MakeAndRegisterTestInfo = (\<lambda>c n tp vp loc fid up down f u. u @ [\<lparr>ti_test_case_name = c, ti_name = n, ti_type_param = tp,
        ti_value_param = vp, ti_location = loc, ti_fixture_class_id = fid, ti_should_run = True, ti_is_disabled = False,
        ti_matches_filter = True, ti_factory = f, ti_result = sample_result\<rparr>]),
      registered = (\<lambda>u. u), selected = rev, InitGoogleTest = Pair,
      UnitTest_Run = (\<lambda>u w. case run_tests (rev u) (fst w) of
        Inl x \<Rightarrow> Inl x | Inr (ok, s) \<Rightarrow> Inr (if ok then 0 else 1, u, (s, [])))\<rparr>)"

lemma sample_unit_test_contracts:
  "result_contract sample_unit_test" "count_contract sample_unit_test" "registration_contract sample_unit_test" "run_contract sample_unit_test"
  by (simp_all add: result_contract_def count_contract_def registration_contract_def run_contract_def sample_unit_test_def Let_def
      TestPassed_def [abs_def] TestFailed_def [abs_def] TestResult_Passed_def)

lemma sample_type_ids: "type_id_contract sample_unit_test string_code"
  by (simp add: type_id_contract_def inj_string_code sample_unit_test_def Let_def)

definition sample_decls :: "(unit, unit) test_decl list" where
  "sample_decls = (let loc = \<lparr>cl_file = ''t.cc'', cl_line = 3\<rparr>; fx = plain_Test\<lparr>fx_name := ''FooTest''\<rparr> in
     [TEST_F fx ''a_b'' loc nothing, TEST ''FooTest'' ''c'' loc nothing, TEST ''BarTest'' ''c'' loc nothing])"

theorem unit_registers_its_tests_witness:
  "(\<exists>names' u'. declare_tests sample_unit_test string_code sample_decls ({}, []) = Some (names', u') \<and>
    map (\<lambda>t. (ti_test_case_name t, ti_name t, ti_fixture_class_id t)) u' =
      [(''FooTest'', ''a_b'', string_code ''FooTest''), (''FooTest'', ''c'', string_code ''::testing::Test''),
       (''BarTest'', ''c'', string_code ''::testing::Test'')]) \<and>
   declare_tests sample_unit_test string_code (sample_decls @ sample_decls) ({}, []) = None"
proof -
  let ?twice = "sample_decls @ sample_decls"
  have names: "distinct (map (\<lambda>d. (decl_case d, decl_name d)) sample_decls)"
    "\<not> distinct (map (\<lambda>d. (decl_case d, decl_name d)) ?twice)"
    by (simp_all add: sample_decls_def Let_def)
  have plain: "\<And>d. d \<in> set sample_decls \<Longrightarrow> CHR ''_'' \<notin> set (decl_case d)"
    "\<And>d. d \<in> set ?twice \<Longrightarrow> CHR ''_'' \<notin> set (decl_case d)"
    by (auto simp: sample_decls_def Let_def)
  have reg: "registered sample_unit_test u = u" for u :: "(unit, unit) TestInfo list" by (simp add: sample_unit_test_def Let_def)
  note registered = unit_registers_its_tests [OF sample_unit_test_contracts(3) sample_type_ids, where u = "[]"]
  obtain names' u' where u: "declare_tests sample_unit_test string_code sample_decls ({}, []) = Some (names', u')"
      "list_all2 (registers string_code) sample_decls u'"
    using registered [of sample_decls, OF plain(1), simplified names if_True] by (auto simp: reg)
  moreover have "declare_tests sample_unit_test string_code ?twice ({}, []) = None"
    using registered [of ?twice, OF plain(2)] names(2) by (simp only: if_False)
  ultimately show ?thesis
    by (auto simp: sample_decls_def Let_def list_all2_Cons1 registers_def plain_Test_def)
qed

section \<open>Counts\<close>

text \<open>Every test that runs either succeeds or fails, and a test case passes exactly when no test that ran reported a failure.\<close>

lemma test_case_counts_add_up:
  assumes "count_contract api" "result_contract api"
  shows "successful_test_count api c + failed_test_count api c = test_to_run_count api c"
    and "test_to_run_count api c \<le> total_test_count api c"
    and "reportable_disabled_test_count api c \<le> disabled_test_count api c"
    and "TestCase_Passed api c \<longleftrightarrow> (\<forall>t \<in> set (test_info_list c). ti_should_run t \<longrightarrow>
      list_all passed_part (test_part_results (ti_result t)))"
proof -
  note counts = assms(1) [unfolded count_contract_def, rule_format, of c]
  have split: "length (filter (TestPassed api) ts) + length (filter (TestFailed api) ts) = length (filter ShouldRunTest ts)" for ts
    by (induction ts) (auto simp: TestPassed_def TestFailed_def ShouldRunTest_def TestResult_Passed_def)
  show "successful_test_count api c + failed_test_count api c = test_to_run_count api c" using counts split by simp
  show "test_to_run_count api c \<le> total_test_count api c" using counts by simp
  have "length (filter TestReportableDisabled ts) \<le> length (filter TestDisabled ts)" for ts :: "('a, 'b) TestInfo list"
    by (induction ts) (auto simp: TestReportableDisabled_def TestDisabled_def)
  then show "reportable_disabled_test_count api c \<le> disabled_test_count api c" using counts by simp
  show "TestCase_Passed api c \<longleftrightarrow> (\<forall>t \<in> set (test_info_list c). ti_should_run t \<longrightarrow>
      list_all passed_part (test_part_results (ti_result t)))"
    using counts assms(2)
    by (auto simp: TestCase_Passed_def TestCase_Failed_def TestFailed_def result_contract_def filter_empty_conv list_all_iff)
qed

end
