(* ===== verification/List_Test.thy ===== *)
theory List_Test
  imports Session_List Gtest_Tests
begin

text \<open>
  The unit test program of the session list, \<open>list_test.cc\<close>: its two tests as googletest runs them, statement by statement with the assertion
  macros, and \<open>main\<close>. It puts together the list (\<open>Session_List\<close>), the assertions (\<open>Gtest_Assertions\<close>) and the registration of tests
  (\<open>Gtest_Tests\<close>). Main result: the program returns 0 however its command line selects, repeats and orders the tests.
\<close>

section \<open>The tests\<close>

record list_test_state =
  lt_heap :: heap
  plist :: ptr
  psession :: ptr

text \<open>What keeps a test from going on: a fault of the code under test, or a loop that does not end.\<close>

datatype stopped = Faulted c_fault | NoReturn

type_synonym list_stmt = "(list_test_state prog, stopped) stmt"

definition run_c :: "(list_test_state \<Rightarrow> list_test_state res option) \<Rightarrow> list_stmt" where
  "run_c f w = (case f (fst w) of
     None \<Rightarrow> (Threw NoReturn, w)
   | Some (Inl e) \<Rightarrow> (Threw (Faulted e), w)
   | Some (Inr s) \<Rightarrow> (Completed, (s, snd w)))"

definition eval_c :: "(list_test_state \<Rightarrow> (operand \<times> operand) res) \<Rightarrow> (list_test_state prog, stopped, operand \<times> operand) expr" where
  "eval_c f w = (case f (fst w) of Inl e \<Rightarrow> (Inl (Faulted e), w) | Inr v \<Rightarrow> (Inr v, w))"

abbreviation int_operand :: "int \<Rightarrow> operand" where "int_operand i \<equiv> (TScalar, VScalar i)"
abbreviation ptr_operand :: "ptr \<Rightarrow> operand" where "ptr_operand p \<equiv> (TPtr, VAddress p)"

text \<open>\<open>==\<close> and \<open>!=\<close> on integers and pointers.\<close>

definition same_value :: "operand \<Rightarrow> operand \<Rightarrow> bool" where
  "same_value x y \<longleftrightarrow> snd x = snd y"

fun compares :: "cmp_op \<Rightarrow> operand \<Rightarrow> operand \<Rightarrow> bool" where
  "compares NE x y = (\<not> same_value x y)"
| "compares op x y = (case (snd x, snd y) of (VScalar i, VScalar j) \<Rightarrow>
     (case op of LE \<Rightarrow> i \<le> j | LT \<Rightarrow> i < j | GE \<Rightarrow> i \<ge> j | GT \<Rightarrow> i > j) | _ \<Rightarrow> False)"

text \<open>\<open>alloc\<close> is \<open>malloc\<close>: the address it returns for the next block, NULL if there is no memory.\<close>

definition call_create :: "(heap \<Rightarrow> ptr) \<Rightarrow> list_stmt" where
  "call_create alloc = run_c (\<lambda>s. Some (bindr (create_session_list (alloc (lt_heap s)) (lt_heap s)) (\<lambda>(p, h).
     Inr (s\<lparr>plist := p, lt_heap := h\<rparr>))))"

definition node_field :: "(session_list \<Rightarrow> ptr) \<Rightarrow> list_test_state \<Rightarrow> (operand \<times> operand) res" where
  "node_field field s = bindr (deref (list_nodes (lt_heap s)) (plist s)) (\<lambda>n. Inr (ptr_operand (field n), ptr_operand NULL))"

definition create_session_list_TestBody :: "assert_env \<Rightarrow> (heap \<Rightarrow> ptr) \<Rightarrow> list_stmt" where
  "create_session_list_TestBody A alloc = TestBody
     [call_create alloc,
      EXPECT_cmp A compares NE (Faulted OutOfBounds) ''plist'' ''(SESSION_LIST*)NULL''
        (eval_c (\<lambda>s. Inr (ptr_operand (plist s), ptr_operand NULL))),
      EXPECT_EQ A same_value False (Faulted OutOfBounds) ''plist->next'' ''(SESSION_LIST*)NULL'' (eval_c (node_field node_next)),
      EXPECT_EQ A same_value False (Faulted OutOfBounds) ''plist->value'' ''(SESSION*)NULL'' (eval_c (node_field node_value))]"

definition assert_length :: "assert_env \<Rightarrow> int \<Rightarrow> list_stmt" where
  "assert_length A n = ASSERT_EQ A same_value (n = 0) (Faulted OutOfBounds) (show_int n) ''get_list_length(plist)''
     (eval_c (\<lambda>s. bindr (get_list_length (plist s) (lt_heap s)) (\<lambda>len. Inr (int_operand n, int_operand len))))"

text \<open>\<open>s0\<close> is what the memory of the new session holds.\<close>

definition malloc_session :: "(heap \<Rightarrow> ptr) \<Rightarrow> session \<Rightarrow> list_stmt" where
  "malloc_session alloc s0 = run_c (\<lambda>s. let p = alloc (lt_heap s); h = lt_heap s in
     Some (Inr (s\<lparr>psession := p, lt_heap := if p = NULL then h else h\<lparr>sessions := (sessions h)(p \<mapsto> s0)\<rparr>\<rparr>)))"

definition call_insert :: "(heap \<Rightarrow> ptr) \<Rightarrow> list_stmt" where
  "call_insert alloc = run_c (\<lambda>s. Some (bindr
     (insert_to_session_list (alloc (lt_heap s)) (plist s) (psession s) (lt_heap s)) (\<lambda>h. Inr (s\<lparr>lt_heap := h\<rparr>))))"

definition call_remove :: list_stmt where
  "call_remove = run_c (\<lambda>s. map_option (map_sum id (\<lambda>h. s\<lparr>lt_heap := h\<rparr>)) (remove_from_list (plist s) (psession s) (lt_heap s)))"

definition operate_list_TestBody :: "assert_env \<Rightarrow> (heap \<Rightarrow> ptr) \<Rightarrow> session \<Rightarrow> list_stmt" where
  "operate_list_TestBody A alloc s0 = TestBody
     [call_create alloc, assert_length A 0, malloc_session alloc s0, call_insert alloc, assert_length A 1,
      call_remove, assert_length A 0]"

section \<open>The program\<close>

definition list_test_decls :: "assert_env \<Rightarrow> (heap \<Rightarrow> ptr) \<Rightarrow> session \<Rightarrow> (list_test_state, stopped) test_decl list" where
  "list_test_decls A alloc s0 =
     [TEST ''list_test'' ''create_session_list'' \<lparr>cl_file = ''list_test.cc'', cl_line = 6\<rparr> (create_session_list_TestBody A alloc),
      TEST ''list_test'' ''operate_list'' \<lparr>cl_file = ''list_test.cc'', cl_line = 14\<rparr> (operate_list_TestBody A alloc s0)]"

text \<open>The initialisers of the static variables run before \<open>main\<close>; \<open>None\<close> is a program that does not compile.\<close>

definition list_test_main where
  "list_test_main api dummy_at A alloc s0 argv u w =
     Option.bind (declare_tests api dummy_at (list_test_decls A alloc s0) ({}, u)) (\<lambda>(names, u).
       case InitGoogleTest api argv u of (argv, u) \<Rightarrow> Some (RUN_ALL_TESTS api u w))"

section \<open>The tests pass\<close>

definition finite_heap :: "heap \<Rightarrow> bool" where
  "finite_heap h \<longleftrightarrow> finite (dom (list_nodes h)) \<and> finite (dom (sessions h)) \<and> finite (dom (addrs h))"

definition malloc_contract :: "(heap \<Rightarrow> ptr) \<Rightarrow> bool" where
  "malloc_contract alloc \<longleftrightarrow> (\<forall>h. finite_heap h \<longrightarrow> fresh h (alloc h))"

definition body_passes :: "list_stmt \<Rightarrow> bool" where
  "body_passes body \<longleftrightarrow> (\<forall>s. finite_heap (lt_heap s) \<longrightarrow>
     (\<exists>s'. finite_heap (lt_heap s') \<and> body (s, []) = (Completed, (s', []))))"

lemma comparisons_hold:
  assumes "assert_contract A" "f (fst w) = Inr (x, y)"
  shows "same_value x y \<Longrightarrow> \<not> (nl \<and> is_pointer (fst y)) \<Longrightarrow> EXPECT_EQ A same_value nl ub e1 e2 (eval_c f) w = (Completed, w)"
    and "same_value x y \<Longrightarrow> \<not> (nl \<and> is_pointer (fst y)) \<Longrightarrow> ASSERT_EQ A same_value nl ub e1 e2 (eval_c f) w = (Completed, w)"
    and "compares op x y \<Longrightarrow> EXPECT_cmp A compares op ub e1 e2 (eval_c f) w = (Completed, w)"
proof -
  have "eval_c f w = (Inr (x, y), w)" using assms(2) by (simp add: eval_c_def)
  note facts = holding_comparison_completes [OF assms(1), where operands = "eval_c f" and w = w, OF this]
  show "same_value x y \<Longrightarrow> \<not> (nl \<and> is_pointer (fst y)) \<Longrightarrow> EXPECT_EQ A same_value nl ub e1 e2 (eval_c f) w = (Completed, w)"
    by (rule facts(1))
  show "same_value x y \<Longrightarrow> \<not> (nl \<and> is_pointer (fst y)) \<Longrightarrow> ASSERT_EQ A same_value nl ub e1 e2 (eval_c f) w = (Completed, w)"
    by (rule facts(2))
  show "compares op x y \<Longrightarrow> EXPECT_cmp A compares op ub e1 e2 (eval_c f) w = (Completed, w)"
    by (rule facts(3))
qed

lemma assert_length_holds:
  assumes "assert_contract A" "session_rep (lt_heap s) (plist s) vs" "length vs \<le> 1"
  shows "assert_length A (int (length vs)) (s, ps) = (Completed, (s, ps))"
proof -
  have "get_list_length (plist s) (lt_heap s) = Inr (int (length vs))"
    using assms(2,3) by (intro length_rep) (simp_all add: INT_MAX_def)
  then show ?thesis unfolding assert_length_def
    by (intro comparisons_hold(2) [OF assms(1), where x = "int_operand (int (length vs))" and y = "int_operand (int (length vs))"])
      (simp_all add: same_value_def)
qed

lemma create_session_list_TestBody_passes:
  assumes "assert_contract A" "malloc_contract alloc"
  shows "body_passes (create_session_list_TestBody A alloc)"
  unfolding body_passes_def
proof (intro allI impI)
  fix s :: list_test_state
  assume fin: "finite_heap (lt_heap s)"
  let ?p = "alloc (lt_heap s)"
  define s1 where "s1 = s\<lparr>plist := ?p, lt_heap := (lt_heap s)\<lparr>list_nodes := (list_nodes (lt_heap s))(?p \<mapsto> \<lparr>node_value = NULL, node_next = NULL\<rparr>)\<rparr>\<rparr>"
  have p: "?p \<noteq> NULL" using assms(2) fin by (simp add: malloc_contract_def fresh_def)
  have create: "call_create alloc (s, []) = (Completed, (s1, []))"
    using p by (simp add: call_create_def run_c_def create_session_list_def s1_def)
  have fields: "plist s1 \<noteq> NULL" "node_field node_next s1 = Inr (ptr_operand NULL, ptr_operand NULL)"
    "node_field node_value s1 = Inr (ptr_operand NULL, ptr_operand NULL)"
    using p by (simp_all add: node_field_def s1_def deref_def)
  have "EXPECT_cmp A compares NE ub e1 e2 (eval_c (\<lambda>s. Inr (ptr_operand (plist s), ptr_operand NULL))) (s1, []) = (Completed, (s1, []))" for ub e1 e2
    by (rule comparisons_hold(3) [OF assms(1), where x = "ptr_operand (plist s1)" and y = "ptr_operand NULL"])
      (use fields(1) in \<open>simp_all add: same_value_def\<close>)
  moreover have "EXPECT_EQ A same_value False ub e1 e2 (eval_c (node_field field)) (s1, []) = (Completed, (s1, []))"
    if "node_field field s1 = Inr (ptr_operand NULL, ptr_operand NULL)" for ub e1 e2 field
    by (rule comparisons_hold(1) [OF assms(1), where x = "ptr_operand NULL" and y = "ptr_operand NULL"])
      (use that in \<open>simp_all add: same_value_def\<close>)
  ultimately have "create_session_list_TestBody A alloc (s, []) = (Completed, (s1, []))"
    using create fields by (simp add: create_session_list_TestBody_def)
  moreover have "finite_heap (lt_heap s1)" using fin by (simp add: finite_heap_def s1_def)
  ultimately show "\<exists>s'. finite_heap (lt_heap s') \<and> create_session_list_TestBody A alloc (s, []) = (Completed, (s', []))" by blast
qed

lemma operate_list_TestBody_passes:
  assumes "assert_contract A" "malloc_contract alloc"
  shows "body_passes (operate_list_TestBody A alloc s0)"
  unfolding body_passes_def
proof (intro allI impI)
  fix s :: list_test_state
  assume fin: "finite_heap (lt_heap s)"
  note fresh = assms(2) [unfolded malloc_contract_def, rule_format]
  let ?p1 = "alloc (lt_heap s)"
  define h1 where "h1 = (lt_heap s)\<lparr>list_nodes := (list_nodes (lt_heap s))(?p1 \<mapsto> \<lparr>node_value = NULL, node_next = NULL\<rparr>)\<rparr>"
  have c: "create_session_list ?p1 (lt_heap s) = Inr (?p1, h1)" "session_rep h1 ?p1 []"
    using create_rep [OF fresh [OF fin]] fresh [OF fin] by (auto simp: create_session_list_def fresh_def h1_def)
  have fin1: "finite_heap h1" using fin by (simp add: finite_heap_def h1_def)
  define p2 h2 where "p2 = alloc h1" and "h2 = h1\<lparr>sessions := (sessions h1)(p2 \<mapsto> s0)\<rparr>"
  have p2: "p2 \<noteq> NULL" "sessions h1 p2 = None" using fresh [OF fin1] by (auto simp: p2_def fresh_def live_def)
  have fin2: "finite_heap h2" using fin1 by (simp add: finite_heap_def h2_def)
  have rep2: "session_rep h2 ?p1 []" using c(2) by (simp add: session_rep_def h2_def)
  obtain h3 where h3: "insert_to_session_list (alloc h2) ?p1 p2 h2 = Inr h3" "session_rep h3 ?p1 [p2]"
      "sessions h3 = sessions h2" "addrs h3 = addrs h2"
    using insert_rep [OF rep2 fresh [OF fin2] p2(1)] by (auto simp: h2_def)
  have fin3: "finite_heap h3"
    using h3(1,3,4) fin2 by (auto simp: finite_heap_def insert_to_session_list_def Let_def bindr_eq_Inr split: if_splits)
  obtain h4 where h4: "remove_from_list ?p1 p2 h3 = Some (Inr h4)" "session_rep h4 ?p1 []"
      "sessions h4 = (sessions h3)(p2 := None)" "addrs h4 = addrs h3" "\<exists>b. dom (list_nodes h4) = dom (list_nodes h3) - {b}"
    using remove_rep [OF h3(2), of p2] by auto
  have fin4: "finite_heap h4" using fin3 h4(3-5) by (auto simp: finite_heap_def)
  let ?s = "\<lambda>h. s\<lparr>plist := ?p1, psession := p2, lt_heap := h\<rparr>" and ?s1 = "s\<lparr>plist := ?p1, lt_heap := h1\<rparr>"
  have run: "call_create alloc (s, []) = (Completed, (?s1, []))" "malloc_session alloc s0 (?s1, []) = (Completed, (?s h2, []))"
    "call_insert alloc (?s h2, []) = (Completed, (?s h3, []))" "call_remove (?s h3, []) = (Completed, (?s h4, []))"
    using c(1) p2(1) h3(1) h4(1)
    by (simp_all add: call_create_def malloc_session_def call_insert_def call_remove_def run_c_def Let_def p2_def h2_def)
  have len: "assert_length A 0 (?s1, []) = (Completed, (?s1, []))" "assert_length A 1 (?s h3, []) = (Completed, (?s h3, []))"
    "assert_length A 0 (?s h4, []) = (Completed, (?s h4, []))"
    using assert_length_holds [OF assms(1), of ?s1 "[]" "[]"] assert_length_holds [OF assms(1), of "?s h3" "[p2]" "[]"]
      assert_length_holds [OF assms(1), of "?s h4" "[]" "[]"] c(2) h3(2) h4(2) by simp_all
  have "operate_list_TestBody A alloc s0 (s, []) = (Completed, (?s h4, []))"
    by (simp only: operate_list_TestBody_def TestBody.simps run len prod.case control.case)
  then show "\<exists>s'. finite_heap (lt_heap s') \<and> operate_list_TestBody A alloc s0 (s, []) = (Completed, (s', []))" using fin4
    by (intro exI [of _ "?s h4"]) simp
qed

definition passing_test :: "(list_test_state, stopped) TestInfo \<Rightarrow> bool" where
  "passing_test t \<longleftrightarrow> tc_parent (TestClass (ti_factory t)) = plain_Test \<and> body_passes (tc_TestBody (TestClass (ti_factory t)))"

lemma run_passing_test:
  assumes "passing_test t" "finite_heap (lt_heap s)"
  shows "\<exists>s'. run_test (ti_factory t) s = Inr (s', []) \<and> finite_heap (lt_heap s')"
proof -
  obtain s' where s': "finite_heap (lt_heap s')" "tc_TestBody (TestClass (ti_factory t)) (s, []) = (Completed, (s', []))"
    using assms unfolding passing_test_def body_passes_def by blast
  have fx: "tc_parent (TestClass (ti_factory t)) = plain_Test" using assms(1) by (simp add: passing_test_def)
  show ?thesis using s'
    by (intro exI [of _ s']) (simp add: run_test_def Let_def CreateTest_def fx plain_Test_def nothing_def)
qed

lemma run_passing_tests:
  "\<forall>t \<in> set ts. passing_test t \<Longrightarrow> finite_heap (lt_heap s) \<Longrightarrow> \<exists>s'. run_tests ts s = Inr (True, s')"
proof (induction ts arbitrary: s)
  case (Cons t ts)
  then obtain s1 where s1: "run_test (ti_factory t) s = Inr (s1, [])" "finite_heap (lt_heap s1)"
    using run_passing_test by (metis list.set_intros(1))
  then obtain s' where "run_tests ts s1 = Inr (True, s')" using Cons by auto
  then show ?case using s1(1) by simp
qed simp

text \<open>
C30: the unit test program of the session list compiles and returns 0: whatever fresh addresses \<open>malloc\<close> hands out and whatever the memory
of the new session holds, and however the command line selects, repeats and orders its two tests, none of their
calls faults or hangs and all of their assertions hold.
\<close>

theorem list_test_program_passes:
  assumes "assert_contract A" and "malloc_contract alloc" and "registration_contract api" and "type_id_contract api dummy_at"
    and "run_contract api" and "registered api u = []" and "finite_heap (lt_heap (fst w))"
  shows "\<exists>u' w'. list_test_main api dummy_at A alloc s0 argv u w = Some (Inr (0, u', w'))"
proof -
  let ?ds = "list_test_decls A alloc s0"
  have "distinct (map decl_class ?ds)"
    by (simp add: list_test_decls_def decl_class_def GTEST_TEST_CLASS_NAME_def)
  from declare_tests_eq [OF assms(3,4) this, of "{}" u]
  obtain names u1 ts where u1: "declare_tests api dummy_at ?ds ({}, u) = Some (names, u1)"
      "registered api u1 = registered api u @ ts" "list_all2 (registers dummy_at) ?ds ts"
    by blast
  obtain argv' u2 where init: "InitGoogleTest api argv u1 = (argv', u2)" by fastforce
  have "registered api (snd (InitGoogleTest api argv u1)) = registered api u1" using assms(3) by (simp add: registration_contract_def)
  then have reg: "registered api u2 = ts" using init u1(2) assms(6) by simp
  have pass: "passing_test t" if "t \<in> set ts" for t
    using u1(3) that create_session_list_TestBody_passes [OF assms(1,2)] operate_list_TestBody_passes [OF assms(1,2)]
    by (auto simp: list_test_decls_def list_all2_Cons1 registers_def passing_test_def)
  have sel: "set (selected api u2) \<subseteq> set ts" using assms(3) unfolding registration_contract_def reg [symmetric] by blast
  have passing: "\<forall>t \<in> set (selected api u2). passing_test t" using sel pass by blast
  then obtain s' where "run_tests (selected api u2) (fst w) = Inr (True, s')"
    using run_passing_tests [of "selected api u2" "fst w"] assms(7) by blast
  moreover have "\<forall>t \<in> set (selected api u2). SetUpTestCase (tc_parent (TestClass (ti_factory t))) = nothing \<and>
      TearDownTestCase (tc_parent (TestClass (ti_factory t))) = nothing"
    using passing by (simp add: passing_test_def plain_Test_def)
  ultimately obtain u' w' where "UnitTest_Run api u2 w = Inr (0, u', w')"
    using assms(5) [unfolded run_contract_def, THEN spec [of _ u2], THEN spec [of _ w], THEN spec [of _ True], THEN spec [of _ s']]
    by auto
  then show ?thesis using u1(1) init by (simp add: list_test_main_def RUN_ALL_TESTS_def)
qed

text \<open>A \<open>malloc\<close> that takes the address after all blocks.\<close>

definition next_block :: "heap \<Rightarrow> ptr" where
  "next_block h = Suc (Max (insert 0 (dom (list_nodes h) \<union> dom (sessions h) \<union> dom (addrs h))))"

lemma next_block_fresh: "malloc_contract next_block"
proof -
  have "fresh h (next_block h)" if "finite_heap h" for h
  proof -
    let ?D = "insert 0 (dom (list_nodes h) \<union> dom (sessions h) \<union> dom (addrs h))"
    have "next_block h \<notin> ?D"
    proof
      assume "next_block h \<in> ?D"
      moreover have "finite ?D" using that by (simp add: finite_heap_def)
      ultimately have "next_block h \<le> Max ?D" by (rule Max_ge [rotated])
      then show False by (simp add: next_block_def)
    qed
    then show ?thesis by (auto simp: fresh_def live_def)
  qed
  then show ?thesis by (simp add: malloc_contract_def)
qed

theorem list_test_program_passes_witness:
  "\<exists>u' w'. list_test_main sample_unit_test string_code sample_asserts next_block demo_session [''list_test''] []
    (\<lparr>lt_heap = demo_heap, plist = 0, psession = 0\<rparr>, []) = Some (Inr (0, u', w'))"
  by (rule list_test_program_passes [OF sample_contract next_block_fresh sample_unit_test_contracts(3) sample_type_ids
        sample_unit_test_contracts(4)]) (simp_all add: sample_unit_test_def Let_def finite_heap_def demo_heap_def)

end
