(* ===== verification/Binary_Tree.thy ===== *)
theory Binary_Tree
  imports Prelude "HOL-Library.Tree" "HOL-Library.Multiset"
begin

text \<open>
  The binary search tree of \<open>algorithm/binary-tree/normal/binary-tree.cpp\<close>. Nodes live on a heap
  indexed by address; the pointer reference \<open>Node *&root\<close> of the insertion is a slot: the root
  field of the tree or a child field of a node. The addresses \<open>new\<close> returns are an argument.
\<close>

section \<open>The program\<close>

record node =
  n_value :: int
  n_left :: ptr
  n_right :: ptr

record btree =
  bt_root :: ptr
  bt_nodes :: "ptr \<rightharpoonup> node"

datatype slot = RootSlot | LeftOf ptr | RightOf ptr

definition read_slot :: "slot \<Rightarrow> btree \<Rightarrow> ptr res" where
  "read_slot sl t = (case sl of
     RootSlot \<Rightarrow> Inr (bt_root t)
   | LeftOf p \<Rightarrow> bindr (deref (bt_nodes t) p) (\<lambda>n. Inr (n_left n))
   | RightOf p \<Rightarrow> bindr (deref (bt_nodes t) p) (\<lambda>n. Inr (n_right n)))"

definition write_slot :: "slot \<Rightarrow> ptr \<Rightarrow> btree \<Rightarrow> btree res" where
  "write_slot sl q t = (case sl of
     RootSlot \<Rightarrow> Inr (t\<lparr>bt_root := q\<rparr>)
   | LeftOf p \<Rightarrow> bindr (deref (bt_nodes t) p) (\<lambda>n. Inr (t\<lparr>bt_nodes := (bt_nodes t)(p \<mapsto> n\<lparr>n_left := q\<rparr>)\<rparr>))
   | RightOf p \<Rightarrow> bindr (deref (bt_nodes t) p) (\<lambda>n. Inr (t\<lparr>bt_nodes := (bt_nodes t)(p \<mapsto> n\<lparr>n_right := q\<rparr>)\<rparr>)))"

definition BinaryTree :: "btree" where
  "BinaryTree = \<lparr>bt_root = NULL, bt_nodes = Map.empty\<rparr>"

partial_function (option) push_data_aux :: "slot \<Rightarrow> ptr \<Rightarrow> btree \<Rightarrow> btree res option" where
  "push_data_aux sl pnode t =
     (if pnode = NULL then Some (Inl AssertFail)
      else case read_slot sl t of
        Inl e \<Rightarrow> Some (Inl e)
      | Inr root \<Rightarrow>
          if root = NULL then Some (write_slot sl pnode t)
          else (case deref (bt_nodes t) pnode of
            Inl e \<Rightarrow> Some (Inl e)
          | Inr pn \<Rightarrow> (case deref (bt_nodes t) root of
              Inl e \<Rightarrow> Some (Inl e)
            | Inr rn \<Rightarrow>
                if n_value pn < n_value rn then
                  if n_left rn = NULL then Some (write_slot (LeftOf root) pnode t)
                  else push_data_aux (LeftOf root) pnode t
                else
                  if n_right rn = NULL then Some (write_slot (RightOf root) pnode t)
                  else push_data_aux (RightOf root) pnode t)))"

text \<open>\<open>new Node\<close> throws when there is no memory (address 0).\<close>

definition push_data :: "ptr \<Rightarrow> int \<Rightarrow> btree \<Rightarrow> btree res option" where
  "push_data p v t =
     (if p = NULL then Some (Inl Uncaught)
      else push_data_aux RootSlot p
             (t\<lparr>bt_nodes := (bt_nodes t)(p \<mapsto> \<lparr>n_value = v, n_left = NULL, n_right = NULL\<rparr>)\<rparr>))"

text \<open>The values in the order in which the traversal prints them, each followed by a space.\<close>

partial_function (option) preorder_print_aux :: "(ptr \<rightharpoonup> node) \<Rightarrow> ptr \<Rightarrow> int list res option" where
  "preorder_print_aux H root =
     (if root = NULL then Some (Inr [])
      else case deref H root of
        Inl e \<Rightarrow> Some (Inl e)
      | Inr n \<Rightarrow> Option.bind (preorder_print_aux H (n_left n)) (\<lambda>rl. case rl of
            Inl e \<Rightarrow> Some (Inl e)
          | Inr xs \<Rightarrow> Option.bind (preorder_print_aux H (n_right n)) (\<lambda>rr. case rr of
                Inl e \<Rightarrow> Some (Inl e)
              | Inr ys \<Rightarrow> Some (Inr (xs @ [n_value n] @ ys)))))"

definition print_values :: "int list \<Rightarrow> string" where
  "print_values xs = concat (map (\<lambda>x. show_int x @ '' '') xs)"

definition preorder_print :: "btree \<Rightarrow> string res option" where
  "preorder_print t = (case preorder_print_aux (bt_nodes t) (bt_root t) of
     None \<Rightarrow> None
   | Some (Inl e) \<Rightarrow> Some (Inl e)
   | Some (Inr xs) \<Rightarrow> Some (Inr (print_values xs @ [CHR 0x0A])))"

fun push_all :: "ptr list \<Rightarrow> int list \<Rightarrow> btree \<Rightarrow> btree res option" where
  "push_all ps [] t = Some (Inr t)"
| "push_all [] (v # vs) t = Some (Inl Uncaught)"
| "push_all (p # ps) (v # vs) t = (case push_data p v t of
     None \<Rightarrow> None | Some (Inl e) \<Rightarrow> Some (Inl e) | Some (Inr t') \<Rightarrow> push_all ps vs t')"

definition main_array :: "int list" where
  "main_array = [1, 3, 14, 32, 22, 31, 98, 5, 54, 23, 2]"

definition bt_main :: "ptr list \<Rightarrow> string res option" where
  "bt_main ps = (case push_all ps main_array BinaryTree of
     None \<Rightarrow> None | Some (Inl e) \<Rightarrow> Some (Inl e) | Some (Inr t) \<Rightarrow> preorder_print t)"

section \<open>The tree a heap represents\<close>

fun tree_at :: "(ptr \<rightharpoonup> node) \<Rightarrow> ptr \<Rightarrow> (ptr \<times> int) tree \<Rightarrow> bool" where
  "tree_at H p Leaf \<longleftrightarrow> p = NULL"
| "tree_at H p (Node l (a, v) r) \<longleftrightarrow> p = a \<and> a \<noteq> NULL \<and> (case H a of None \<Rightarrow> False
     | Some n \<Rightarrow> n_value n = v \<and> tree_at H (n_left n) l \<and> tree_at H (n_right n) r)"

fun tree_ptrs :: "(ptr \<times> int) tree \<Rightarrow> ptr set" where
  "tree_ptrs Leaf = {}"
| "tree_ptrs (Node l (a, v) r) = insert a (tree_ptrs l \<union> tree_ptrs r)"

text \<open>No node is shared between two places of the tree.\<close>

fun unshared :: "(ptr \<times> int) tree \<Rightarrow> bool" where
  "unshared Leaf \<longleftrightarrow> True"
| "unshared (Node l (a, v) r) \<longleftrightarrow> unshared l \<and> unshared r \<and> a \<notin> tree_ptrs l \<and> a \<notin> tree_ptrs r \<and>
     tree_ptrs l \<inter> tree_ptrs r = {}"

definition tree_rep :: "btree \<Rightarrow> (ptr \<times> int) tree \<Rightarrow> bool" where
  "tree_rep t T \<longleftrightarrow> tree_at (bt_nodes t) (bt_root t) T \<and> unshared T"

text \<open>The functional insertion the pointer code implements: equal values go right.\<close>

fun ins :: "ptr \<times> int \<Rightarrow> (ptr \<times> int) tree \<Rightarrow> (ptr \<times> int) tree" where
  "ins x Leaf = Node Leaf x Leaf"
| "ins x (Node l y r) = (if snd x < snd y then Node (ins x l) y r else Node l y (ins x r))"

definition tree_values :: "(ptr \<times> int) tree \<Rightarrow> int list" where
  "tree_values T = map snd (inorder T)"

lemma tree_at_frame: "a \<notin> tree_ptrs T \<Longrightarrow> tree_at (H(a := x)) p T = tree_at H p T"
  by (induction H p T rule: tree_at.induct) (auto split: option.splits)

lemma tree_at_cong: "(\<And>x. x \<in> tree_ptrs T \<Longrightarrow> H' x = H x) \<Longrightarrow> tree_at H' p T = tree_at H p T"
  by (induction H p T rule: tree_at.induct) (auto split: option.splits)

lemma tree_at_live: "tree_at H p T \<Longrightarrow> a \<in> tree_ptrs T \<Longrightarrow> a \<noteq> NULL \<and> H a \<noteq> None"
  by (induction H p T rule: tree_at.induct) (auto split: option.splits)

lemma tree_at_NULL: "tree_at H p T \<Longrightarrow> p = NULL \<longleftrightarrow> T = Leaf"
  by (cases T) auto

lemma tree_at_root: "tree_at H p T \<Longrightarrow> p \<noteq> NULL \<Longrightarrow> p \<in> tree_ptrs T"
  by (cases T) auto

lemma ins_ptrs: "tree_ptrs (ins (a, v) T) = insert a (tree_ptrs T)"
  by (induction T rule: tree_ptrs.induct) auto

lemma ins_unshared: "unshared T \<Longrightarrow> a \<notin> tree_ptrs T \<Longrightarrow> unshared (ins (a, v) T)"
  by (induction T rule: tree_ptrs.induct) (auto simp: ins_ptrs)

section \<open>Insertion refines the functional insertion\<close>

lemma push_data_aux_rep:
  assumes "tree_at (bt_nodes t) q T" "T \<noteq> Leaf" "unshared T" "read_slot sl t = Inr q"
    and "a \<noteq> NULL" "a \<notin> tree_ptrs T"
    and "bt_nodes t a = Some \<lparr>n_value = v, n_left = NULL, n_right = NULL\<rparr>"
  shows "\<exists>H'. push_data_aux sl a t = Some (Inr (t\<lparr>bt_nodes := H'\<rparr>)) \<and> tree_at H' q (ins (a, v) T) \<and>
              (\<forall>x. x \<notin> tree_ptrs T \<longrightarrow> H' x = bt_nodes t x)"
  using assms
proof (induction T arbitrary: q sl)
  case Leaf
  then show ?case by simp
next
  case (Node l y r)
  obtain b w where y: "y = (b, w)" by (cases y)
  from Node.prems y obtain rn where rn: "q = b" "b \<noteq> NULL" "bt_nodes t b = Some rn" "n_value rn = w"
      "tree_at (bt_nodes t) (n_left rn) l" "tree_at (bt_nodes t) (n_right rn) r"
    by (auto split: option.splits)
  have unf: "push_data_aux sl a t = (if v < w then
        if n_left rn = NULL then Some (write_slot (LeftOf b) a t) else push_data_aux (LeftOf b) a t
      else if n_right rn = NULL then Some (write_slot (RightOf b) a t) else push_data_aux (RightOf b) a t)"
    using Node.prems rn by (subst push_data_aux.simps) simp
  have slots: "read_slot (LeftOf b) t = Inr (n_left rn)" "read_slot (RightOf b) t = Inr (n_right rn)"
    using rn by (simp_all add: read_slot_def)
  have dis: "b \<notin> tree_ptrs l" "b \<notin> tree_ptrs r" "tree_ptrs l \<inter> tree_ptrs r = {}" "a \<noteq> b"
      "a \<notin> tree_ptrs l" "a \<notin> tree_ptrs r" "unshared l" "unshared r"
    using Node.prems y by auto
  consider (here_l) "v < w" "n_left rn = NULL" | (here_r) "\<not> v < w" "n_right rn = NULL"
    | (down_l) "v < w" "n_left rn \<noteq> NULL" | (down_r) "\<not> v < w" "n_right rn \<noteq> NULL" by blast
  then show ?case
  proof cases
    case here_l
    then have "l = Leaf" using tree_at_NULL [OF rn(5)] by simp
    with here_l rn dis show ?thesis
      by (auto simp: unf y write_slot_def tree_at_frame Node.prems(5,7) intro!: exI)
  next
    case here_r
    then have "r = Leaf" using tree_at_NULL [OF rn(6)] by simp
    with here_r rn dis show ?thesis
      by (auto simp: unf y write_slot_def tree_at_frame Node.prems(5,7) intro!: exI)
  next
    case down_l
    then have "l \<noteq> Leaf" using tree_at_NULL [OF rn(5)] by simp
    with Node.IH(1) [OF rn(5) _ dis(7) slots(1) Node.prems(5) dis(5) Node.prems(7)]
    obtain H' where H': "push_data_aux (LeftOf b) a t = Some (Inr (t\<lparr>bt_nodes := H'\<rparr>))"
        "tree_at H' (n_left rn) (ins (a, v) l)" "\<forall>x. x \<notin> tree_ptrs l \<longrightarrow> H' x = bt_nodes t x" by blast
    then have "tree_at H' (n_right rn) r" using rn(6) dis(3) tree_at_cong [of r H' "bt_nodes t"] by blast
    with H' down_l rn dis show ?thesis by (intro exI [of _ H']) (auto simp: unf y)
  next
    case down_r
    then have "r \<noteq> Leaf" using tree_at_NULL [OF rn(6)] by simp
    with Node.IH(2) [OF rn(6) _ dis(8) slots(2) Node.prems(5) dis(6) Node.prems(7)]
    obtain H' where H': "push_data_aux (RightOf b) a t = Some (Inr (t\<lparr>bt_nodes := H'\<rparr>))"
        "tree_at H' (n_right rn) (ins (a, v) r)" "\<forall>x. x \<notin> tree_ptrs r \<longrightarrow> H' x = bt_nodes t x" by blast
    then have "tree_at H' (n_left rn) l" using rn(5) dis(3) tree_at_cong [of l H' "bt_nodes t"] by blast
    with H' down_r rn dis show ?thesis by (intro exI [of _ H']) (auto simp: unf y)
  qed
qed

lemma push_data_rep:
  assumes rep: "tree_rep t T" and p: "p \<noteq> NULL" "bt_nodes t p = None"
  shows "\<exists>t'. push_data p v t = Some (Inr t') \<and> tree_rep t' (ins (p, v) T) \<and>
              dom (bt_nodes t') \<subseteq> insert p (dom (bt_nodes t))"
proof -
  let ?t = "t\<lparr>bt_nodes := (bt_nodes t)(p \<mapsto> \<lparr>n_value = v, n_left = NULL, n_right = NULL\<rparr>)\<rparr>"
  have np: "p \<notin> tree_ptrs T" using rep p tree_at_live [of "bt_nodes t" "bt_root t" T p] by (auto simp: tree_rep_def)
  then have at: "tree_at (bt_nodes ?t) (bt_root ?t) T" and un: "unshared T"
    using rep by (simp_all add: tree_rep_def tree_at_frame)
  show ?thesis
  proof (cases "T = Leaf")
    case True
    with at have "bt_root t = NULL" by simp
    with True p have "push_data p v t = Some (Inr (?t\<lparr>bt_root := p\<rparr>))"
      by (simp add: push_data_def push_data_aux.simps read_slot_def write_slot_def)
    with True p show ?thesis by (auto simp: tree_rep_def)
  next
    case False
    have "read_slot RootSlot ?t = Inr (bt_root ?t)" by (simp add: read_slot_def)
    from push_data_aux_rep [OF at False un this p(1) np] obtain H' where
      H': "push_data_aux RootSlot p ?t = Some (Inr (?t\<lparr>bt_nodes := H'\<rparr>))"
        "tree_at H' (bt_root ?t) (ins (p, v) T)" "\<forall>x. x \<notin> tree_ptrs T \<longrightarrow> H' x = bt_nodes ?t x" by auto
    have "dom H' \<subseteq> insert p (dom (bt_nodes t))"
    proof
      fix x assume "x \<in> dom H'"
      then show "x \<in> insert p (dom (bt_nodes t))"
        using H'(3) tree_at_live [OF at, of x] np by (cases "x \<in> tree_ptrs T") (auto split: if_splits)
    qed
    with H' p ins_unshared [OF un np] show ?thesis by (simp add: push_data_def tree_rep_def)
  qed
qed

section \<open>Search order and the traversal\<close>

text \<open>The search-tree invariant is sortedness of the values from left to right.\<close>

definition search_tree :: "(ptr \<times> int) tree \<Rightarrow> bool" where
  "search_tree T \<longleftrightarrow> sorted (tree_values T)"

lemma tree_values_simps [simp]: "tree_values Leaf = []"
    "tree_values (Node l x r) = tree_values l @ snd x # tree_values r"
  by (simp_all add: tree_values_def)

lemma mset_ins: "mset (tree_values (ins x T)) = add_mset (snd x) (mset (tree_values T))"
  by (induction T) auto

lemma set_ins: "set (tree_values (ins x T)) = insert (snd x) (set (tree_values T))"
  using mset_ins [of x T] by (metis set_mset_add_mset_insert set_mset_mset)

lemma search_tree_ins: "search_tree T \<Longrightarrow> search_tree (ins x T)"
  by (induction T) (auto simp: search_tree_def sorted_append set_ins)

lemma preorder_print_aux_rep:
  "tree_at H p T \<Longrightarrow> preorder_print_aux H p = Some (Inr (tree_values T))"
proof (induction H p T rule: tree_at.induct)
  case (1 H p)
  then show ?case by (simp add: preorder_print_aux.simps)
next
  case (2 H p l a v r)
  then show ?case by (subst preorder_print_aux.simps) (auto split: option.splits)
qed

lemma push_all_rep:
  assumes "tree_rep t T" "search_tree T" "distinct ps" "length ps = length vs" "NULL \<notin> set ps"
    and "dom (bt_nodes t) \<inter> set ps = {}"
  shows "\<exists>t' T'. push_all ps vs t = Some (Inr t') \<and> tree_rep t' T' \<and> search_tree T' \<and>
    mset (tree_values T') = mset (tree_values T) + mset vs"
  using assms
proof (induction ps vs t arbitrary: T rule: push_all.induct)
  case (3 p ps v vs t)
  then have "p \<noteq> NULL" "bt_nodes t p = None" by auto
  from push_data_rep [OF "3.prems"(1) this, of v] obtain t' where
    t': "push_data p v t = Some (Inr t')" "tree_rep t' (ins (p, v) T)"
      "dom (bt_nodes t') \<subseteq> insert p (dom (bt_nodes t))" by blast
  have "dom (bt_nodes t') \<inter> set ps = {}" using t'(3) "3.prems" by auto
  from "3.IH" [OF t'(1) refl t'(2) search_tree_ins [OF "3.prems"(2)] _ _ _ this] "3.prems"
  obtain t'' T' where "push_all ps vs t' = Some (Inr t'')" "tree_rep t'' T'" "search_tree T'"
      "mset (tree_values T') = mset (tree_values (ins (p, v) T)) + mset vs" by auto
  with t'(1) show ?case by (auto simp: mset_ins)
qed auto

lemma push_all_print:
  assumes "distinct ps" "length ps = length vs" "NULL \<notin> set ps"
  shows "\<exists>t. push_all ps vs BinaryTree = Some (Inr t) \<and>
    preorder_print t = Some (Inr (print_values (sort vs) @ [CHR 0x0A]))"
proof -
  have "tree_rep BinaryTree Leaf" "search_tree Leaf" "dom (bt_nodes BinaryTree) \<inter> set ps = {}"
    by (simp_all add: tree_rep_def BinaryTree_def search_tree_def)
  from push_all_rep [OF this(1,2) assms this(3)] obtain t T where t: "push_all ps vs BinaryTree = Some (Inr t)"
      "tree_rep t T" "search_tree T" "mset (tree_values T) = mset vs" by auto
  then have "sort vs = tree_values T" by (intro properties_for_sort) (simp_all add: search_tree_def)
  with t preorder_print_aux_rep [of "bt_nodes t" "bt_root t" T] show ?thesis
    by (simp add: preorder_print_def tree_rep_def)
qed

section \<open>Properties\<close>

text \<open>C4: pushing a value into a well-formed tree at a fresh address returns without a fault, the
  new heap represents the functional insertion of the value (smaller values left, equal and
  larger ones right), and the search order is kept: the pointer code refines the insertion into
  a binary search tree.\<close>

theorem push_data_refines:
  assumes "tree_rep t T" "search_tree T" "p \<noteq> NULL" "bt_nodes t p = None"
  shows "\<exists>t'. push_data p v t = Some (Inr t') \<and> tree_rep t' (ins (p, v) T) \<and> search_tree (ins (p, v) T) \<and>
    mset (tree_values (ins (p, v) T)) = add_mset v (mset (tree_values T))"
  using push_data_rep [OF assms(1,3,4), of v] search_tree_ins [OF assms(2)] mset_ins [of "(p, v)" T] by auto

theorem push_data_refines_witness:
  "\<exists>t'. push_data 5 7 BinaryTree = Some (Inr t') \<and> tree_rep t' (Node Leaf (5, 7) Leaf)"
  using push_data_refines [of BinaryTree Leaf 5 7]
  by (auto simp: tree_rep_def BinaryTree_def search_tree_def)

text \<open>C16: after pushing any values into an empty tree, \<open>preorder_print\<close> prints them in ascending
  order: the traversal visits the left subtree before the node, so it is the in-order one.\<close>

theorem preorder_print_is_inorder:
  assumes "distinct ps" "length ps = length vs" "NULL \<notin> set ps"
  shows "\<exists>t. push_all ps vs BinaryTree = Some (Inr t) \<and>
    preorder_print t = Some (Inr (print_values (sort vs) @ [CHR 0x0A]))"
  using assms by (rule push_all_print)

theorem preorder_print_is_inorder_witness:
  "\<exists>t. push_all [1, 2] [5, 3] BinaryTree = Some (Inr t) \<and>
    preorder_print t = Some (Inr (print_values [3, 5] @ [CHR 0x0A]))"
  using preorder_print_is_inorder [of "[1, 2]" "[5, 3]"] by simp

text \<open>the program prints its array in ascending order, whatever addresses its eleven nodes
  get.\<close>

theorem bt_main_output:
  assumes "distinct ps" "length ps = 11" "NULL \<notin> set ps"
  shows "bt_main ps = Some (Inr (''1 2 3 5 14 22 23 31 32 54 98 '' @ [CHR 0x0A]))"
proof -
  have "sort main_array = [1, 2, 3, 5, 14, 22, 23, 31, 32, 54, 98]" by (simp add: main_array_def)
  moreover have "print_values [1, 2, 3, 5, 14, 22, 23, 31, 32, 54, 98] = ''1 2 3 5 14 22 23 31 32 54 98 ''"
    by code_simp
  moreover have "length ps = length main_array" using assms(2) by (simp add: main_array_def)
  ultimately show ?thesis
    using push_all_print [OF assms(1) _ assms(3), of main_array] by (auto simp: bt_main_def)
qed

theorem bt_main_output_witness:
  "bt_main [1, 2, 3, 4, 5, 6, 7, 8, 9, 10, 11] = Some (Inr (''1 2 3 5 14 22 23 31 32 54 98 '' @ [CHR 0x0A]))"
  by (rule bt_main_output) simp_all

end
