(* ===== verification/Ftp_Server.thy ===== *)
theory Ftp_Server
  imports Prelude
begin

text \<open>
  The line server of \<open>ftp/main.c\<close>: it listens on port 9999 and, for an accepted connection, sends
  each line typed on its standard input with a carriage return and a line feed appended, reading
  an answer after each. The 255-byte buffer and its filling by \<open>gets\<close> are modelled with their
  bounds. \<open>sprintf(buf, "%s\r\n", buf)\<close> copies a buffer onto itself, which ISO C leaves undefined
  (C11 7.21.6.6), so what the C library makes of that call is an argument of the definitions, with
  two readings: the standard's, and a library that writes its output in place from left to right.
  The system calls are functions on a world.
\<close>

record 'w ftp_os =
  ft_socket :: "'w \<Rightarrow> int \<times> 'w"
  ft_setsockopt :: "int \<Rightarrow> 'w \<Rightarrow> int \<times> 'w"
  ft_bind :: "int \<Rightarrow> nat \<Rightarrow> 'w \<Rightarrow> int \<times> 'w"
  ft_listen :: "int \<Rightarrow> nat \<Rightarrow> 'w \<Rightarrow> int \<times> 'w"
  ft_accept :: "int \<Rightarrow> 'w \<Rightarrow> int \<times> 'w"
  ft_stdin_line :: "'w \<Rightarrow> byte list option \<times> 'w"
  ft_write :: "int \<Rightarrow> byte list \<Rightarrow> 'w \<Rightarrow> int \<times> 'w"
  ft_read :: "int \<Rightarrow> nat \<Rightarrow> 'w \<Rightarrow> byte list \<times> 'w"

definition c_strlen :: "byte list \<Rightarrow> nat res" where
  "c_strlen b = (if 0 \<in> set b then Inr (length (takeWhile (\<lambda>x. x \<noteq> 0) b)) else Inl OutOfBounds)"

text \<open>\<open>gets\<close>: the line and a NUL, without any bound; at end of file the buffer is left alone.\<close>

definition gets_into :: "byte list \<Rightarrow> byte list option \<Rightarrow> byte list res" where
  "gets_into buf line = (case line of None \<Rightarrow> Inr buf | Some l \<Rightarrow> memcpy_at buf 0 (l @ [0]))"

text \<open>
  \<open>sprintf(buf, "%s\r\n", buf)\<close>: the argument of \<open>%s\<close> has to be a string, and the call then does
  with the buffer whatever the library does when the source is the destination.
\<close>

type_synonym self_sprintf = "byte list \<Rightarrow> byte list res"

definition append_crlf :: "self_sprintf \<Rightarrow> byte list \<Rightarrow> byte list res" where
  "append_crlf sp buf = bindr (c_strlen buf) (\<lambda>_. sp buf)"

text \<open>The standard's reading: copying between overlapping objects is undefined.\<close>

definition iso_sprintf :: self_sprintf where
  "iso_sprintf buf = Inl Undefined"

text \<open>
  A library that writes its output from left to right while it reads the argument: the string is
  copied onto itself, and the two characters and a NUL follow it.
\<close>

definition in_place_sprintf :: self_sprintf where
  "in_place_sprintf buf = bindr (c_strlen buf) (\<lambda>n. memcpy_at buf n [13, 10, 0])"

definition ftp_setup :: "'w ftp_os \<Rightarrow> 'w \<Rightarrow> (int \<times> 'w) res" where
  "ftp_setup os w =
     (let (listenfd, w1) = ft_socket os w in
      if listenfd < 0 then Inl (Exit 1) else
      let (_, w2) = ft_setsockopt os listenfd w1; (b, w3) = ft_bind os listenfd 9999 w2 in
      if b < 0 then Inl (Exit 1) else
      let (l, w4) = ft_listen os listenfd 10 w3 in
      if l < 0 then Inl (Exit 1) else Inr (listenfd, w4))"

text \<open>One pass of the inner loop; the list is what the passes so far handed to \<open>write\<close>.\<close>

definition ftp_exchange :: "self_sprintf \<Rightarrow> 'w ftp_os \<Rightarrow> int \<Rightarrow> byte list list \<times> 'w \<Rightarrow> (byte list list \<times> 'w) res" where
  "ftp_exchange sp os clifd s = (case s of (sent, w) \<Rightarrow>
     let buf = replicate 255 0; (line, w1) = ft_stdin_line os w in
     bindr (gets_into buf line) (\<lambda>b1.
     bindr (append_crlf sp b1) (\<lambda>b2.
     bindr (c_strlen b2) (\<lambda>n.
       let (_, w2) = ft_write os clifd (take n b2) w1; (_, w3) = ft_read os clifd 255 w2
       in Inr (sent @ [take n b2], w3)))))"

text \<open>The inner loop, cut after \<open>n\<close> passes: it never gives the connection up.\<close>

fun ftp_serve :: "nat \<Rightarrow> self_sprintf \<Rightarrow> 'w ftp_os \<Rightarrow> int \<Rightarrow> byte list list \<times> 'w \<Rightarrow> (byte list list \<times> 'w) res" where
  "ftp_serve 0 sp os clifd s = Inr s"
| "ftp_serve (Suc n) sp os clifd s = bindr (ftp_exchange sp os clifd s) (ftp_serve n sp os clifd)"

definition ftp_main :: "nat \<Rightarrow> self_sprintf \<Rightarrow> 'w ftp_os \<Rightarrow> 'w \<Rightarrow> (byte list list \<times> 'w) res" where
  "ftp_main n sp os w = bindr (ftp_setup os w) (\<lambda>(listenfd, w1).
     let (clifd, w2) = ft_accept os listenfd w1 in ftp_serve n sp os clifd ([], w2))"

section \<open>Lines and the buffer\<close>

lemma takeWhile_zeros: "0 \<notin> set l \<Longrightarrow> takeWhile (\<lambda>x. x \<noteq> (0 :: byte)) (l @ 0 # r) = l"
  by (subst takeWhile_append2) auto

lemma gets_short: "length l < 255 \<Longrightarrow>
    gets_into (replicate 255 0) (Some l) = Inr (l @ replicate (255 - length l) 0)"
proof -
  assume "length l < 255"
  then have "replicate (255 - length l) (0 :: byte) = 0 # replicate (254 - length l) 0"
    by (simp add: Suc_diff_le flip: replicate_Suc)
  then show ?thesis using \<open>length l < 255\<close> by (simp add: gets_into_def memcpy_at_def)
qed

lemma strlen_padded: "0 \<notin> set l \<Longrightarrow> 0 < k \<Longrightarrow> c_strlen (l @ replicate k 0) = Inr (length l)"
  using takeWhile_zeros [of l "replicate (k - 1) 0"] by (cases k) (simp_all add: c_strlen_def)

lemma append_crlf_padded: "0 \<notin> set l \<Longrightarrow> length l < 255 \<Longrightarrow>
    append_crlf sp (l @ replicate (255 - length l) 0) = sp (l @ replicate (255 - length l) 0)"
  by (simp add: append_crlf_def strlen_padded)

lemma in_place_padded:
  assumes "0 \<notin> set l" "length l < 255"
  shows "in_place_sprintf (l @ replicate (255 - length l) 0) =
    (if length l \<le> 252 then Inr ((l @ [13, 10]) @ replicate (253 - length l) 0) else Inl OutOfBounds)"
proof (cases "length l \<le> 252")
  case True
  then have "255 - length l = Suc (Suc (Suc (252 - length l)))" "253 - length l = Suc (252 - length l)" by auto
  with True assms show ?thesis
    by (simp add: in_place_sprintf_def strlen_padded memcpy_at_append del: replicate_Suc)
      (simp add: replicate_Suc [symmetric] del: replicate_Suc)
next
  case False
  with assms show ?thesis by (simp add: in_place_sprintf_def strlen_padded memcpy_at_append)
qed

lemma gets_line:
  assumes "l = (case line of None \<Rightarrow> [] | Some x \<Rightarrow> x)" "length l < 255"
  shows "gets_into (replicate 255 0) line = Inr (l @ replicate (255 - length l) 0)"
  using assms by (cases line) (simp_all add: gets_short, simp add: gets_into_def)

lemma gets_overrun: "254 < length l \<Longrightarrow> gets_into (replicate 255 0) (Some l) = Inl OutOfBounds"
  by (simp add: gets_into_def memcpy_at_def)

text \<open>A line that fits the buffer, or the end of input, takes the pass to the overlapping call.\<close>

lemma ftp_exchange_reaches_sprintf:
  assumes "ft_stdin_line os w = (line, w1)" and l: "l = (case line of None \<Rightarrow> [] | Some x \<Rightarrow> x)" "0 \<notin> set l"
    and "length l \<le> 254"
  shows "ftp_exchange sp os fd (sent, w) =
    bindr (sp (l @ replicate (255 - length l) 0)) (\<lambda>b2. bindr (c_strlen b2) (\<lambda>n.
      let (_, w2) = ft_write os fd (take n b2) w1; (_, w3) = ft_read os fd 255 w2
      in Inr (sent @ [take n b2], w3)))"
proof -
  have "gets_into (replicate 255 0) line = Inr (l @ replicate (255 - length l) 0)"
    using assms by (intro gets_line) auto
  with assms show ?thesis by (simp add: ftp_exchange_def append_crlf_padded)
qed

lemma ftp_exchange_in_place:
  assumes "ft_stdin_line os w = (line, w1)" and l: "l = (case line of None \<Rightarrow> [] | Some x \<Rightarrow> x)" "0 \<notin> set l"
    and "length l \<le> 252"
  shows "ftp_exchange in_place_sprintf os fd (sent, w) = Inr (sent @ [l @ [13, 10]],
    snd (ft_read os fd 255 (snd (ft_write os fd (l @ [13, 10]) w1))))"
proof -
  have n: "c_strlen ((l @ [13, 10]) @ replicate (253 - length l) 0) = Inr (length (l @ [13, 10]))"
    using assms by (intro strlen_padded) auto
  show ?thesis
    using assms n ftp_exchange_reaches_sprintf [OF assms(1,2,3)]
    by (simp add: in_place_padded case_prod_beta)
qed

section \<open>Properties\<close>

text \<open>C17: what becomes of a line without NUL bytes depends on its length and on the C library. A
  line of more than 254 bytes overruns the 255-byte buffer in \<open>gets\<close>, whatever the library does with
  the overlapping \<open>sprintf\<close>. Every shorter line reaches that call, so by the standard its pass has
  undefined behaviour; with a library that formats in place from left to right it is sent followed
  by carriage return and line feed when it has at most 252 bytes, and a line of 253 or 254 bytes
  overruns the buffer in \<open>sprintf\<close>.\<close>

theorem ftp_line_outcomes:
  assumes "ft_stdin_line os w = (Some l, w1)" "0 \<notin> set l"
  shows "if 254 < length l then \<forall>sp. ftp_exchange sp os fd (sent, w) = Inl OutOfBounds
    else ftp_exchange iso_sprintf os fd (sent, w) = Inl Undefined \<and>
      (if length l \<le> 252
       then \<exists>w'. ftp_exchange in_place_sprintf os fd (sent, w) = Inr (sent @ [l @ [13, 10]], w')
       else ftp_exchange in_place_sprintf os fd (sent, w) = Inl OutOfBounds)"
proof (cases "254 < length l")
  case True
  with assms show ?thesis by (simp add: ftp_exchange_def gets_overrun)
next
  case False
  then have "length l \<le> 254" by simp
  note at = ftp_exchange_reaches_sprintf [OF assms(1) _ assms(2) this, simplified]
  show ?thesis
    using False assms ftp_exchange_in_place [OF assms(1) _ assms(2)]
    by (simp add: at iso_sprintf_def in_place_padded)
qed

definition demo_ftp :: "byte list option \<Rightarrow> unit ftp_os" where
  "demo_ftp line = \<lparr>ft_socket = (\<lambda>w. (3, w)), ft_setsockopt = (\<lambda>k w. (0, w)), ft_bind = (\<lambda>k p w. (0, w)),
     ft_listen = (\<lambda>k n w. (0, w)), ft_accept = (\<lambda>k w. (4, w)), ft_stdin_line = (\<lambda>w. (line, w)),
     ft_write = (\<lambda>k b w. (int (length b), w)), ft_read = (\<lambda>k n w. ([], w))\<rparr>"

theorem ftp_line_outcomes_witness:
  "ftp_exchange iso_sprintf (demo_ftp (Some [65])) 4 ([], ()) = Inl Undefined \<and>
   (\<exists>w'. ftp_exchange in_place_sprintf (demo_ftp (Some [65])) 4 ([], ()) = Inr ([[65, 13, 10]], w')) \<and>
   ftp_exchange in_place_sprintf (demo_ftp (Some (replicate 253 65))) 4 ([], ()) = Inl OutOfBounds \<and>
   ftp_exchange iso_sprintf (demo_ftp (Some (replicate 255 65))) 4 ([], ()) = Inl OutOfBounds"
  using ftp_line_outcomes [of "demo_ftp (Some [65])" "()" "[65]" "()" 4 "[]"]
    ftp_line_outcomes [of "demo_ftp (Some (replicate 253 65))" "()" "replicate 253 65" "()" 4 "[]"]
    ftp_line_outcomes [of "demo_ftp (Some (replicate 255 65))" "()" "replicate 255 65" "()" 4 "[]"]
  by (simp add: demo_ftp_def)

text \<open>By the standard the program never gets past its first pass: whatever the system calls and the
  standard input do, \<open>main\<close> ends in a fault.\<close>

lemma ftp_exchange_undefined: "\<exists>e. ftp_exchange iso_sprintf os fd s = Inl e"
proof -
  have "\<exists>e. bindr (gets_into b line) (\<lambda>b1. bindr (append_crlf iso_sprintf b1) f) = Inl e" for b line f
    by (cases "gets_into b line"; cases "c_strlen (projr (gets_into b line))")
      (simp_all add: append_crlf_def iso_sprintf_def)
  note stops = this
  show ?thesis by (simp add: ftp_exchange_def split: prod.split) (intro allI impI stops)
qed

theorem ftp_main_undefined: "\<exists>e. ftp_main (Suc n) iso_sprintf os w = Inl e"
proof (cases "ftp_setup os w")
  case (Inr r)
  obtain fd w1 where "r = (fd, w1)" by (cases r)
  moreover obtain cl w2 where "ft_accept os fd w1 = (cl, w2)" by fastforce
  moreover obtain e where "ftp_exchange iso_sprintf os cl ([], w2) = Inl e"
    using ftp_exchange_undefined by blast
  ultimately show ?thesis using Inr by (simp add: ftp_main_def)
qed (simp add: ftp_main_def)

text \<open>On a library that formats in place, once standard input has ended the server does not stop:
  every further pass sends an empty line to the client.\<close>

theorem ftp_eof_floods:
  assumes "\<And>w. fst (ft_stdin_line os w) = None"
  shows "\<exists>w'. ftp_serve n in_place_sprintf os fd (sent, w) = Inr (sent @ replicate n [13, 10], w')"
proof (induction n arbitrary: sent w)
  case 0
  then show ?case by simp
next
  case (Suc n)
  have "ft_stdin_line os w = (None, snd (ft_stdin_line os w))" using assms by (metis prod.collapse)
  from ftp_exchange_in_place [OF this refl] Suc [of "sent @ [[13, 10]]"] show ?case by simp
qed

theorem ftp_eof_floods_witness:
  "\<exists>w'. ftp_serve 2 in_place_sprintf (demo_ftp None) 4 ([], ()) = Inr ([[13, 10], [13, 10]], w')"
  using ftp_eof_floods [of "demo_ftp None" 2 4 "[]" "()"] by (simp add: demo_ftp_def numeral_2_eq_2)

end
