(* ===== verification/Echo_Contract.thy ===== *)
theory Echo_Contract
  imports Prelude
begin

text \<open>
  What an echo service promises for each connection, shared by the servers of \<open>echo/\<close>: the bytes
  taken from the connection are the bytes already given back, followed by the bytes the service
  still holds, in the same order. The history is kept by \<open>received\<close> and \<open>sent\<close>.
\<close>

locale echo_service =
  fixes initial :: "'s \<Rightarrow> bool"
    and step :: "'s \<Rightarrow> 's \<Rightarrow> bool"
    and received :: "'s \<Rightarrow> 'c \<Rightarrow> byte list"
    and sent :: "'s \<Rightarrow> 'c \<Rightarrow> byte list"
    and pending :: "'s \<Rightarrow> 'c \<Rightarrow> byte list"
    and invar :: "'s \<Rightarrow> bool"
  assumes invar_initial: "initial s \<Longrightarrow> invar s"
    and invar_step: "step s s' \<Longrightarrow> invar s \<Longrightarrow> invar s'"
    and balance: "invar s \<Longrightarrow> received s c = sent s c @ pending s c"
    and sent_grows: "step s s' \<Longrightarrow> invar s \<Longrightarrow> prefix (sent s c) (sent s' c)"
begin

lemma invar_run: "initial s0 \<Longrightarrow> step\<^sup>*\<^sup>* s0 s \<Longrightarrow> invar s"
  by (rotate_tac, induction rule: rtranclp_induct) (auto intro: invar_initial invar_step)

lemma run_balance: "initial s0 \<Longrightarrow> step\<^sup>*\<^sup>* s0 s \<Longrightarrow> received s c = sent s c @ pending s c"
  by (rule balance) (rule invar_run)

lemma run_sent_prefix: "initial s0 \<Longrightarrow> step\<^sup>*\<^sup>* s0 s \<Longrightarrow> prefix (sent s c) (received s c)"
  by (simp add: run_balance)

lemma run_complete: "initial s0 \<Longrightarrow> step\<^sup>*\<^sup>* s0 s \<Longrightarrow> pending s c = [] \<Longrightarrow> sent s c = received s c"
  by (simp add: run_balance)

text \<open>What was sent is never taken back: the output at any later point extends it.\<close>

lemma sent_monotone:
  assumes "initial s0" "step\<^sup>*\<^sup>* s0 s1" "step\<^sup>*\<^sup>* s1 s2"
  shows "prefix (sent s1 c) (sent s2 c)"
  using assms(3)
proof (induction rule: rtranclp_induct)
  case base
  then show ?case by simp
next
  case (step s2 s3)
  from assms(1,2) step.hyps(1) have "invar s2" by (meson invar_run rtranclp_trans)
  with step sent_grows show ?case by (meson prefix_order.trans)
qed

end

end
