(* ===== verification/Libevent_Echo.thy ===== *)
theory Libevent_Echo
  imports Echo_Contract
begin

text \<open>
  The echo server and the load client built on libevent (\<open>echo/libevent2/echo_server.cpp\<close> and
  \<open>echo_client.cpp\<close>): their callbacks and start-up. libevent itself is a library in binary form; its
  calls are the functions of a record on a world of any type, and what the programs rely on is
  stated from the comments of \<open>event2/bufferevent.h\<close>: the input buffer is filled and the output
  buffer drained by the library, and \<open>bufferevent_write_buffer\<close> moves the whole of a buffer to the
  end of the output.
\<close>

unbundle bit_operations_syntax

section \<open>Data\<close>

definition BEV_EVENT_EOF :: short where "BEV_EVENT_EOF = 0x10"
definition BEV_EVENT_ERROR :: short where "BEV_EVENT_ERROR = 0x20"
definition BEV_EVENT_TIMEOUT :: short where "BEV_EVENT_TIMEOUT = 0x40"
definition BEV_EVENT_CONNECTED :: short where "BEV_EVENT_CONNECTED = 0x80"
definition EV_READ :: short where "EV_READ = 0x02"
definition EV_PERSIST :: short where "EV_PERSIST = 0x10"
definition MSG :: "byte list" where "MSG = replicate 1024 0"

record 'w ev_api =
  event_base_new :: "'w \<Rightarrow> ptr \<times> 'w"
  event_base_dispatch :: "ptr \<Rightarrow> 'w \<Rightarrow> 'w"
  event_base_free :: "ptr \<Rightarrow> 'w \<Rightarrow> 'w"
  evconnlistener_new_bind :: "ptr \<Rightarrow> nat \<Rightarrow> 'w \<Rightarrow> ptr \<times> 'w"
  evconnlistener_free :: "ptr \<Rightarrow> 'w \<Rightarrow> 'w"
  bufferevent_socket_new :: "ptr \<Rightarrow> int \<Rightarrow> 'w \<Rightarrow> ptr \<times> 'w"
  bufferevent_socket_connect :: "ptr \<Rightarrow> nat \<Rightarrow> 'w \<Rightarrow> int \<times> 'w"
  bufferevent_setcb :: "ptr \<Rightarrow> bool \<Rightarrow> bool \<Rightarrow> 'w \<Rightarrow> 'w"
  bufferevent_enable :: "ptr \<Rightarrow> short \<Rightarrow> 'w \<Rightarrow> int \<times> 'w"
  bufferevent_get_input :: "ptr \<Rightarrow> 'w \<Rightarrow> ptr"
  bufferevent_write_buffer :: "ptr \<Rightarrow> ptr \<Rightarrow> 'w \<Rightarrow> int \<times> 'w"
  bufferevent_write :: "ptr \<Rightarrow> byte list \<Rightarrow> 'w \<Rightarrow> int \<times> 'w"

datatype ev_msg = Accept_msg | Bev_error_msg | Base_error_msg | Listener_error_msg | Closed_msg
  | Some_error_msg | Connected_msg | Done_msg

section \<open>The server\<close>

definition read_cb :: "'w ev_api \<Rightarrow> ptr \<Rightarrow> 'w \<Rightarrow> 'w" where
  "read_cb api bev w = (let input = bufferevent_get_input api bev w in
     snd (bufferevent_write_buffer api bev input w))"

text \<open>A null \<open>bev\<close> is reported and then used.\<close>

definition listener_cb :: "'w ev_api \<Rightarrow> ptr \<Rightarrow> int \<Rightarrow> ev_msg list \<times> 'w \<Rightarrow> (ev_msg list \<times> 'w) res" where
  "listener_cb api base fd s = (case s of (out, w) \<Rightarrow>
     let (bev, w1) = bufferevent_socket_new api base fd w;
         out1 = out @ [Accept_msg] @ (if bev = NULL then [Bev_error_msg] else []) in
     if bev = NULL then Inl NullDeref
     else Inr (out1, snd (bufferevent_enable api bev EV_READ (bufferevent_setcb api bev True False w1))))"

definition server_main :: "'w ev_api \<Rightarrow> 'w \<Rightarrow> int \<times> ev_msg list \<times> 'w" where
  "server_main api w =
     (let (base, w1) = event_base_new api w in
      if base = NULL then (1, [Base_error_msg], w1) else
      let (listener, w2) = evconnlistener_new_bind api base 7890 w1 in
      if listener = NULL then (1, [Listener_error_msg], w2) else
      (0, [Done_msg], event_base_free api base (evconnlistener_free api listener (event_base_dispatch api base w2))))"

section \<open>The client\<close>

definition client_read_cb :: "'w ev_api \<Rightarrow> ptr \<Rightarrow> 'w \<Rightarrow> 'w" where
  "client_read_cb api bev w = (let input = bufferevent_get_input api bev w in
     snd (bufferevent_write_buffer api bev input w))"

definition event_cb :: "'w ev_api \<Rightarrow> ptr \<Rightarrow> short \<Rightarrow> 'w \<Rightarrow> (ev_msg \<times> 'w) res" where
  "event_cb api bev event w =
     (if event AND BEV_EVENT_EOF \<noteq> 0 then Inr (Closed_msg, w)
      else if event AND BEV_EVENT_ERROR \<noteq> 0 then Inr (Some_error_msg, w)
      else if event AND BEV_EVENT_CONNECTED \<noteq> 0 then Inr (Connected_msg, snd (bufferevent_write api bev MSG w))
      else Inl Abort)"

text \<open>A client is its event base, the port of its server and its bufferevent.\<close>

record echo_client =
  ec_base :: ptr
  ec_port :: nat
  ec_bev :: ptr

definition new_echo_client :: "ptr \<Rightarrow> nat \<Rightarrow> echo_client" where
  "new_echo_client base port = \<lparr>ec_base = base, ec_port = port, ec_bev = NULL\<rparr>"

definition client_start :: "'w ev_api \<Rightarrow> echo_client \<Rightarrow> 'w \<Rightarrow> (echo_client \<times> 'w) res" where
  "client_start api c w =
     (let (bev, w1) = bufferevent_socket_new api (ec_base c) (-1) w in
      if bev = NULL then Inl NullDeref
      else let (_, w2) = bufferevent_socket_connect api bev (ec_port c) w1;
               w3 = bufferevent_setcb api bev True True w2;
               (_, w4) = bufferevent_enable api bev (EV_READ OR EV_PERSIST) w3
           in Inr (c\<lparr>ec_bev := bev\<rparr>, w4))"

fun start_clients :: "'w ev_api \<Rightarrow> echo_client list \<Rightarrow> 'w \<Rightarrow> (echo_client list \<times> 'w) res" where
  "start_clients api [] w = Inr ([], w)"
| "start_clients api (c # cs) w = bindr (client_start api c w) (\<lambda>(c1, w1).
     bindr (start_clients api cs w1) (\<lambda>(cs1, w2). Inr (c1 # cs1, w2)))"

definition start_thread :: "'w ev_api \<Rightarrow> 'w \<Rightarrow> (ev_msg list \<times> 'w) res" where
  "start_thread api w =
     (let (base, w1) = event_base_new api w in
      if base = NULL then Inr ([Base_error_msg], w1)
      else bindr (start_clients api (replicate 10 (new_echo_client base 7890)) w1) (\<lambda>(cs, w2).
             Inr ([], event_base_free api base (event_base_dispatch api base w2))))"

section \<open>The buffers of a connection\<close>

text \<open>
  The documented behaviour of the two calls on the buffers of a bufferevent (\<open>event2/bufferevent.h\<close>),
  for views \<open>inb\<close> and \<open>outb\<close> of their contents: each bufferevent has an input buffer of its own,
  which \<open>bufferevent_get_input\<close> returns and which never changes; \<open>bufferevent_write_buffer(bev, buf)\<close>
  moves all that the evbuffer \<open>buf\<close> holds, here the input of some bufferevent, which need not be
  \<open>bev\<close>, behind the output of \<open>bev\<close>, and touches no other buffer.
\<close>

definition write_buffer_contract ::
  "'w ev_api \<Rightarrow> ('w \<Rightarrow> ptr \<Rightarrow> byte list) \<Rightarrow> ('w \<Rightarrow> ptr \<Rightarrow> byte list) \<Rightarrow> bool" where
  "write_buffer_contract api inb outb \<longleftrightarrow> (\<exists>in_buf. inj in_buf \<and>
     (\<forall>bev w. bufferevent_get_input api bev w = in_buf bev) \<and>
     (\<forall>bev c w. let w' = snd (bufferevent_write_buffer api bev (in_buf c) w) in
        outb w' = (outb w)(bev := outb w bev @ inb w c) \<and> inb w' = (inb w)(c := [])))"

record 'w lev_state =
  lw :: 'w
  lrx :: "ptr \<Rightarrow> byte list"
  ltx :: "ptr \<Rightarrow> byte list"

text \<open>
  The steps of the running server: the library appends arrived bytes to an input buffer, it calls
  the read callback, and it sends bytes from the front of an output buffer.
\<close>

inductive lev_step :: "'w ev_api \<Rightarrow> ('w \<Rightarrow> ptr \<Rightarrow> byte list) \<Rightarrow> ('w \<Rightarrow> ptr \<Rightarrow> byte list) \<Rightarrow>
    'w lev_state \<Rightarrow> 'w lev_state \<Rightarrow> bool" for api inb outb where
  arrive: "inb w' = (inb (lw s))(bev := inb (lw s) bev @ d) \<Longrightarrow> outb w' = outb (lw s) \<Longrightarrow>
    lev_step api inb outb s (s\<lparr>lw := w', lrx := (lrx s)(bev := lrx s bev @ d)\<rparr>)"
| callback: "lev_step api inb outb s (s\<lparr>lw := read_cb api bev (lw s)\<rparr>)"
| flush: "outb (lw s) bev = d @ r \<Longrightarrow> outb w' = (outb (lw s))(bev := r) \<Longrightarrow> inb w' = inb (lw s) \<Longrightarrow>
    lev_step api inb outb s (s\<lparr>lw := w', ltx := (ltx s)(bev := ltx s bev @ d)\<rparr>)"

inductive_cases lev_stepE: "lev_step api inb outb s s'"

definition lev_held :: "('w \<Rightarrow> ptr \<Rightarrow> byte list) \<Rightarrow> ('w \<Rightarrow> ptr \<Rightarrow> byte list) \<Rightarrow> 'w lev_state \<Rightarrow> ptr \<Rightarrow> byte list" where
  "lev_held inb outb s bev = outb (lw s) bev @ inb (lw s) bev"

definition lev_inv :: "('w \<Rightarrow> ptr \<Rightarrow> byte list) \<Rightarrow> ('w \<Rightarrow> ptr \<Rightarrow> byte list) \<Rightarrow> 'w lev_state \<Rightarrow> bool" where
  "lev_inv inb outb s \<longleftrightarrow> (\<forall>bev. lrx s bev = ltx s bev @ lev_held inb outb s bev)"

definition lev_initial :: "('w \<Rightarrow> ptr \<Rightarrow> byte list) \<Rightarrow> ('w \<Rightarrow> ptr \<Rightarrow> byte list) \<Rightarrow> 'w lev_state \<Rightarrow> bool" where
  "lev_initial inb outb s \<longleftrightarrow> lrx s = (\<lambda>_. []) \<and> ltx s = (\<lambda>_. []) \<and> inb (lw s) = (\<lambda>_. []) \<and> outb (lw s) = (\<lambda>_. [])"

lemma read_cb_buffers:
  assumes "write_buffer_contract api inb outb"
  shows "outb (read_cb api bev w) = (outb w)(bev := outb w bev @ inb w bev)"
    "inb (read_cb api bev w) = (inb w)(bev := [])"
  using assms by (auto simp: write_buffer_contract_def read_cb_def Let_def)

interpretation lev: echo_service "\<lambda>s. write_buffer_contract api inb outb \<and> lev_initial inb outb s" "lev_step api inb outb"
  lrx ltx "lev_held inb outb" "\<lambda>s. write_buffer_contract api inb outb \<and> lev_inv inb outb s"
  for api :: "'w ev_api" and inb outb
proof unfold_locales
  fix s :: "'w lev_state"
  assume "write_buffer_contract api inb outb \<and> lev_initial inb outb s"
  then show "write_buffer_contract api inb outb \<and> lev_inv inb outb s"
    by (simp add: lev_initial_def lev_inv_def lev_held_def)
next
  fix s s' :: "'w lev_state"
  assume "lev_step api inb outb s s'" "write_buffer_contract api inb outb \<and> lev_inv inb outb s"
  then show "write_buffer_contract api inb outb \<and> lev_inv inb outb s'"
    by (auto elim!: lev_stepE simp: lev_inv_def lev_held_def read_cb_buffers)
next
  fix s :: "'w lev_state" and c
  assume "write_buffer_contract api inb outb \<and> lev_inv inb outb s"
  then show "lrx s c = ltx s c @ lev_held inb outb s c" by (simp add: lev_inv_def)
next
  fix s s' :: "'w lev_state" and c
  assume "lev_step api inb outb s s'"
  then show "prefix (ltx s c) (ltx s' c)" by (auto elim!: lev_stepE)
qed

section \<open>Properties\<close>

text \<open>
  The read callback takes all of the input of its connection behind its output, so whatever order
  bytes arrive, callbacks run and output drains in, the server has sent back a prefix of what it
  received and holds the rest in order in its two buffers.
\<close>

theorem libevent_server_echoes:
  assumes "write_buffer_contract api inb outb" "lev_initial inb outb s0" "(lev_step api inb outb)\<^sup>*\<^sup>* s0 s"
  shows "lrx s bev = ltx s bev @ lev_held inb outb s bev \<and> prefix (ltx s bev) (lrx s bev) \<and>
    lrx s bev = ltx s bev @ outb (read_cb api bev (lw s)) bev \<and> inb (read_cb api bev (lw s)) bev = []"
  using lev.run_balance [OF _ assms(3), of bev] lev.run_sent_prefix [OF _ assms(3), of bev] assms(1,2)
  by (simp add: read_cb_buffers [OF assms(1)] lev_held_def)

text \<open>An example library: the world is the two buffers of every connection.\<close>

definition demo_api :: "((ptr \<Rightarrow> byte list) \<times> (ptr \<Rightarrow> byte list)) ev_api" where
  "demo_api = \<lparr>event_base_new = (\<lambda>w. (1, w)), event_base_dispatch = (\<lambda>b w. w), event_base_free = (\<lambda>b w. w),
     evconnlistener_new_bind = (\<lambda>b p w. (2, w)), evconnlistener_free = (\<lambda>l w. w),
     bufferevent_socket_new = (\<lambda>b fd w. (3, w)), bufferevent_socket_connect = (\<lambda>b p w. (0, w)),
     bufferevent_setcb = (\<lambda>b r e w. w), bufferevent_enable = (\<lambda>b f w. (0, w)),
     bufferevent_get_input = (\<lambda>b w. b),
     bufferevent_write_buffer = (\<lambda>b i w. (0, ((fst w)(i := []), (snd w)(b := snd w b @ fst w i)))),
     bufferevent_write = (\<lambda>b d w. (0, (fst w, (snd w)(b := snd w b @ d))))\<rparr>"

lemma demo_api_contract: "write_buffer_contract demo_api fst snd"
  by (auto simp: write_buffer_contract_def demo_api_def intro!: exI [of _ "\<lambda>b. b"])

text \<open>The client's event callback aborts the process exactly when none of EOF, ERROR and
  CONNECTED is set (a timeout, for instance); it writes its 1024-byte message exactly when
  CONNECTED is set and neither EOF nor ERROR is.\<close>

theorem event_cb_branches:
  "(event_cb api bev event w = Inl Abort \<longleftrightarrow>
      event AND BEV_EVENT_EOF = 0 \<and> event AND BEV_EVENT_ERROR = 0 \<and> event AND BEV_EVENT_CONNECTED = 0) \<and>
   ((\<exists>w'. event_cb api bev event w = Inr (Connected_msg, w')) \<longleftrightarrow>
      event AND BEV_EVENT_EOF = 0 \<and> event AND BEV_EVENT_ERROR = 0 \<and> event AND BEV_EVENT_CONNECTED \<noteq> 0) \<and>
   event_cb api bev BEV_EVENT_TIMEOUT w = Inl Abort \<and>
   event_cb api bev BEV_EVENT_CONNECTED w = Inr (Connected_msg, snd (bufferevent_write api bev (replicate 1024 0) w))"
  by (simp add: event_cb_def MSG_def BEV_EVENT_EOF_def BEV_EVENT_ERROR_def BEV_EVENT_CONNECTED_def
      BEV_EVENT_TIMEOUT_def)

text \<open>a bufferevent that could not be constructed is used nevertheless: the listener callback
  prints its message and then dereferences the null pointer, and so does the start of a client.\<close>

theorem null_bufferevent_is_used:
  assumes "\<And>fd. fst (bufferevent_socket_new api base fd w) = NULL"
  shows "listener_cb api base fd (out, w) = Inl NullDeref \<and>
    client_start api (new_echo_client base port) w = Inl NullDeref"
  using assms by (simp add: listener_cb_def client_start_def new_echo_client_def case_prod_beta Let_def)

theorem null_bufferevent_is_used_witness:
  "listener_cb (demo_api\<lparr>bufferevent_socket_new := (\<lambda>b fd w. (NULL, w))\<rparr>) 1 5 ([], (\<lambda>_. [], \<lambda>_. [])) = Inl NullDeref \<and>
   client_start (demo_api\<lparr>bufferevent_socket_new := (\<lambda>b fd w. (NULL, w))\<rparr>) (new_echo_client 1 7890)
     (\<lambda>_. [], \<lambda>_. []) = Inl NullDeref"
  by (rule null_bufferevent_is_used) simp

end
