(* ===== verification/Epoll_Echo.thy ===== *)
theory Epoll_Echo
  imports Echo_Contract
begin

text \<open>
  The epoll echo server (\<open>echo/epoll/echo_server.cpp\<close>). The state is the map from descriptors to
  queues of unsent strings, the world, and two histories per descriptor, the bytes \<open>read\<close> returned
  and the bytes \<open>write\<close> accepted, which the program does not keep and no branch reads. The system
  calls are functions on a world of any type.
\<close>

unbundle bit_operations_syntax

section \<open>Data\<close>

definition EPOLLIN :: "32 word" where "EPOLLIN = 1"
definition EPOLLOUT :: "32 word" where "EPOLLOUT = 4"
definition EPOLLET :: "32 word" where "EPOLLET = 2147483648"
definition O_NONBLOCK :: "32 word" where "O_NONBLOCK = 2048"
definition EAGAIN :: int where "EAGAIN = 11"
definition EWOULDBLOCK :: int where "EWOULDBLOCK = 11"

datatype read_result = ReadErr int | ReadData "byte list"

record 'w ep_os =
  k_socket :: "'w \<Rightarrow> int \<times> 'w"
  k_close :: "int \<Rightarrow> 'w \<Rightarrow> 'w"
  k_fcntl_getfl :: "int \<Rightarrow> 'w \<Rightarrow> int \<times> 'w"
  k_fcntl_setfl :: "int \<Rightarrow> 32 word \<Rightarrow> 'w \<Rightarrow> int \<times> 'w"
  k_setsockopt :: "int \<Rightarrow> 'w \<Rightarrow> int \<times> 'w"
  k_bind :: "int \<Rightarrow> nat \<Rightarrow> 'w \<Rightarrow> int \<times> 'w"
  k_listen :: "int \<Rightarrow> nat \<Rightarrow> 'w \<Rightarrow> int \<times> 'w"
  k_epoll_create1 :: "'w \<Rightarrow> int \<times> 'w"
  k_epoll_add :: "int \<Rightarrow> int \<Rightarrow> 32 word \<Rightarrow> 'w \<Rightarrow> int \<times> 'w"
  k_epoll_wait :: "int \<Rightarrow> nat \<Rightarrow> 'w \<Rightarrow> (int \<times> 32 word) list \<times> 'w"
  k_accept :: "int \<Rightarrow> 'w \<Rightarrow> int \<times> 'w"
  k_read :: "int \<Rightarrow> nat \<Rightarrow> 'w \<Rightarrow> read_result \<times> 'w"
  k_write :: "int \<Rightarrow> byte list \<Rightarrow> 'w \<Rightarrow> int \<times> 'w"

datatype ep_msg = Set_listen_nonblock_err | Reuseaddr_err | Bind_err | Listen_err | Epoll_create_err
  | Epoll_ctl_err | Set_cli_nonblock_err | Accept_client | Session_closed

record 'w ep_state =
  session_map :: "int \<rightharpoonup> byte list list"
  rx :: "int \<Rightarrow> byte list"
  tx :: "int \<Rightarrow> byte list"
  ep_log :: "ep_msg list"
  kw :: 'w

definition say :: "ep_msg \<Rightarrow> 'w ep_state \<Rightarrow> 'w ep_state" where
  "say m s = s\<lparr>ep_log := ep_log s @ [m]\<rparr>"

section \<open>Start-up\<close>

definition setfd_noblock :: "'w ep_os \<Rightarrow> int \<Rightarrow> 'w \<Rightarrow> int \<times> 'w" where
  "setfd_noblock os fd w =
     (let (fdflag, w1) = k_fcntl_getfl os fd w in
      if fdflag = -1 then (-1, w1) else k_fcntl_setfl os fd (word_of_int fdflag OR O_NONBLOCK) w1)"

text \<open>Failures of the start-up calls are reported and otherwise ignored.\<close>

definition ep_setup :: "'w ep_os \<Rightarrow> 'w \<Rightarrow> int \<times> int \<times> 'w ep_state" where
  "ep_setup os w =
     (let (listenfd, w1) = k_socket os w;
          (nb, w2) = setfd_noblock os listenfd w1;
          (w3, l1) = (if nb = -1 then (k_close os listenfd w2, [Set_listen_nonblock_err]) else (w2, []));
          (so, w4) = k_setsockopt os listenfd w3;
          (w5, l2) = (if so = -1 then (k_close os listenfd w4, [Reuseaddr_err]) else (w4, []));
          (b, w6) = k_bind os listenfd 7890 w5;
          (li, w7) = k_listen os listenfd 5 w6;
          (epfd, w8) = k_epoll_create1 os w7;
          (c, w9) = k_epoll_add os epfd listenfd EPOLLIN w8
      in (listenfd, epfd, \<lparr>session_map = Map.empty, rx = (\<lambda>_. []), tx = (\<lambda>_. []),
            ep_log = l1 @ l2 @ (if b \<noteq> 0 then [Bind_err] else []) @ (if li \<noteq> 0 then [Listen_err] else [])
              @ (if epfd = -1 then [Epoll_create_err] else []) @ (if c = -1 then [Epoll_ctl_err] else []),
            kw = w9\<rparr>))"

section \<open>One event\<close>

text \<open>
  The event of the listening socket; the flag says whether the \<open>continue\<close> was taken.
\<close>

definition accept_client :: "'w ep_os \<Rightarrow> int \<Rightarrow> int \<Rightarrow> 'w ep_state \<Rightarrow> bool \<times> 'w ep_state" where
  "accept_client os listenfd epfd s =
     (let (clientfd, w1) = k_accept os listenfd (kw s); s1 = s\<lparr>kw := w1\<rparr> in
      if clientfd > 0 then
        let (nb, w2) = setfd_noblock os clientfd w1 in
        if nb = -1 then (True, say Set_cli_nonblock_err (s1\<lparr>kw := w2\<rparr>))
        else let (c, w3) = k_epoll_add os epfd clientfd (EPOLLIN OR EPOLLOUT OR EPOLLET) w2
             in (False, say Accept_client (s1\<lparr>kw := w3\<rparr>))
      else (False, say Accept_client s1))"

text \<open>
  A string of \<open>n\<close> bytes was read: a descriptor without a queue gets the first half of it back at
  once and the rest queued, any other has it queued whole. A failed \<open>write\<close> makes the string
  constructor read in front of the buffer.
\<close>

definition take_data :: "'w ep_os \<Rightarrow> int \<Rightarrow> byte list \<Rightarrow> 'w ep_state \<Rightarrow> 'w ep_state res" where
  "take_data os fd d s =
     (case session_map s fd of
        None \<Rightarrow>
          (let (nwrite, w1) = k_write os fd (take (length d div 2) d) (kw s);
               s1 = s\<lparr>kw := w1\<rparr> in
           if nwrite \<noteq> int (length d) then
             if nwrite < 0 \<or> int (length d) < nwrite then Inl OutOfBounds
             else Inr (s1\<lparr>session_map := (session_map s)(fd \<mapsto> [drop (nat nwrite) d]),
                          tx := (tx s)(fd := tx s fd @ take (nat nwrite) d)\<rparr>)
           else Inr (s1\<lparr>tx := (tx s)(fd := tx s fd @ d)\<rparr>))
      | Some q \<Rightarrow> Inr (s\<lparr>session_map := (session_map s)(fd \<mapsto> q @ [d])\<rparr>))"

partial_function (option) read_loop :: "'w ep_os \<Rightarrow> int \<Rightarrow> 'w ep_state \<Rightarrow> 'w ep_state res option" where
  "read_loop os fd s =
     (case k_read os fd 1024 (kw s) of
        (ReadErr e, w1) \<Rightarrow>
          if e = EAGAIN \<or> e = EWOULDBLOCK then Some (Inr (s\<lparr>kw := w1\<rparr>))
          else read_loop os fd (say Session_closed (s\<lparr>kw := w1, session_map := (session_map s)(fd := None)\<rparr>))
      | (ReadData d, w1) \<Rightarrow>
          if d = [] then Some (Inr (s\<lparr>kw := w1\<rparr>))
          else (case take_data os fd d (s\<lparr>kw := w1, rx := (rx s)(fd := rx s fd @ d)\<rparr>) of
                  Inl e \<Rightarrow> Some (Inl e)
                | Inr s1 \<Rightarrow> read_loop os fd s1))"

text \<open>
  One string is written per event. The comparison \<open>nwrite < out_data.size()\<close> is made on unsigned
  64-bit values, so the -1 of a failed \<open>write\<close> counts as a large number of bytes.
\<close>

definition write_front :: "'w ep_os \<Rightarrow> int \<Rightarrow> 'w ep_state \<Rightarrow> 'w ep_state res" where
  "write_front os fd s =
     (case session_map s fd of
        None \<Rightarrow> Inr s
      | Some [] \<Rightarrow> Inl EmptyFront
      | Some (out_data # q) \<Rightarrow>
          (let (nwrite, w1) = k_write os fd out_data (kw s);
               s1 = s\<lparr>kw := w1, tx := (tx s)(fd := tx s fd @ take (nat nwrite) out_data)\<rparr> in
           if nwrite > 1024 then Inl AssertFail
           else if nat (nwrite mod 2 ^ 64) < length out_data
           then Inr (s1\<lparr>session_map := (session_map s)(fd \<mapsto> drop (nat nwrite) out_data # q)\<rparr>)
           else Inr (s1\<lparr>session_map := (session_map s)(fd \<mapsto> q)\<rparr>)))"

definition handle_event ::
  "'w ep_os \<Rightarrow> int \<Rightarrow> int \<Rightarrow> int \<times> 32 word \<Rightarrow> 'w ep_state \<Rightarrow> 'w ep_state res option" where
  "handle_event os listenfd epfd ev s =
     (case ev of (fd, flags) \<Rightarrow>
       let out = (\<lambda>s1. Some (if flags AND EPOLLOUT \<noteq> 0 then write_front os fd s1 else Inr s1)) in
       if flags AND EPOLLIN \<noteq> 0 then
         if fd = listenfd then
           (case accept_client os listenfd epfd s of (skip, s1) \<Rightarrow> if skip then Some (Inr s1) else out s1)
         else (case read_loop os fd s of
                 None \<Rightarrow> None | Some (Inl e) \<Rightarrow> Some (Inl e) | Some (Inr s1) \<Rightarrow> out s1)
       else out s)"

fun handle_events ::
  "'w ep_os \<Rightarrow> int \<Rightarrow> int \<Rightarrow> (int \<times> 32 word) list \<Rightarrow> 'w ep_state \<Rightarrow> 'w ep_state res option" where
  "handle_events os listenfd epfd [] s = Some (Inr s)"
| "handle_events os listenfd epfd (ev # evs) s = (case handle_event os listenfd epfd ev s of
     None \<Rightarrow> None | Some (Inl e) \<Rightarrow> Some (Inl e) | Some (Inr s1) \<Rightarrow> handle_events os listenfd epfd evs s1)"

definition ep_iteration :: "'w ep_os \<Rightarrow> int \<Rightarrow> int \<Rightarrow> 'w ep_state \<Rightarrow> 'w ep_state res option" where
  "ep_iteration os listenfd epfd s =
     (let (evs, w1) = k_epoll_wait os epfd 20 (kw s) in handle_events os listenfd epfd evs (s\<lparr>kw := w1\<rparr>))"

section \<open>The bytes in the server\<close>

definition unsent :: "'w ep_state \<Rightarrow> int \<Rightarrow> byte list" where
  "unsent s fd = (case session_map s fd of None \<Rightarrow> [] | Some q \<Rightarrow> concat q)"

text \<open>
  The invariant: nothing was lost, duplicated or reordered, and every queued string has between
  1 and 1024 bytes.
\<close>

definition ep_inv :: "'w ep_state \<Rightarrow> bool" where
  "ep_inv s \<longleftrightarrow> (\<forall>fd. rx s fd = tx s fd @ unsent s fd) \<and>
     (\<forall>fd q. session_map s fd = Some q \<longrightarrow> (\<forall>x \<in> set q. x \<noteq> [] \<and> length x \<le> 1024))"

text \<open>
  The system calls behave: \<open>write\<close> accepts some of the bytes and never fails, \<open>read\<close> yields at most
  what was asked for and fails only because there is nothing to read.
\<close>

definition well_behaved :: "'w ep_os \<Rightarrow> bool" where
  "well_behaved os \<longleftrightarrow>
     (\<forall>fd b w. 0 \<le> fst (k_write os fd b w) \<and> fst (k_write os fd b w) \<le> int (length b)) \<and>
     (\<forall>fd n w. case fst (k_read os fd n w) of
        ReadErr e \<Rightarrow> e = EAGAIN \<or> e = EWOULDBLOCK | ReadData d \<Rightarrow> length d \<le> n)"

lemma say_simps [simp]: "session_map (say m s) = session_map s" "rx (say m s) = rx s" "tx (say m s) = tx s"
    "kw (say m s) = kw s" "ep_inv (say m s) = ep_inv s"
  by (simp_all add: say_def ep_inv_def unsent_def)

lemma ep_inv_kw [simp]: "ep_inv (s\<lparr>kw := w\<rparr>) = ep_inv s"
  by (simp add: ep_inv_def unsent_def)

lemma ep_inv_accept: "ep_inv s \<Longrightarrow> ep_inv (snd (accept_client os l e s))"
    "tx (snd (accept_client os l e s)) = tx s"
  by (simp_all add: accept_client_def Let_def case_prod_beta)

lemma well_behavedD:
  assumes "well_behaved os"
  shows "0 \<le> fst (k_write os fd b w)" "fst (k_write os fd b w) \<le> int (length b)"
    and "k_read os fd n w = (ReadErr e, w') \<Longrightarrow> e = EAGAIN \<or> e = EWOULDBLOCK"
    and "k_read os fd n w = (ReadData d, w') \<Longrightarrow> length d \<le> n"
  using assms unfolding well_behaved_def by (auto split: read_result.splits) (metis fst_conv)+

text \<open>Induction over the passes of a read loop that returned.\<close>

lemma read_loop_passes:
  assumes ret: "read_loop os fd s = Some (Inr s')"
    and stop: "\<And>s w. Q s (s\<lparr>kw := w\<rparr>)"
    and err: "\<And>s s' e w. k_read os fd 1024 (kw s) = (ReadErr e, w) \<Longrightarrow> e \<noteq> EAGAIN \<Longrightarrow> e \<noteq> EWOULDBLOCK \<Longrightarrow>
      Q (say Session_closed (s\<lparr>kw := w, session_map := (session_map s)(fd := None)\<rparr>)) s' \<Longrightarrow> Q s s'"
    and data: "\<And>s s1 s' d w. k_read os fd 1024 (kw s) = (ReadData d, w) \<Longrightarrow> d \<noteq> [] \<Longrightarrow>
      take_data os fd d (s\<lparr>kw := w, rx := (rx s)(fd := rx s fd @ d)\<rparr>) = Inr s1 \<Longrightarrow> Q s1 s' \<Longrightarrow> Q s s'"
  shows "Q s s'"
proof -
  have "os' = os \<longrightarrow> fd' = fd \<longrightarrow> (\<forall>s'. r = Inr s' \<longrightarrow> Q s s')" if "read_loop os' fd' s = Some r" for os' fd' r
    using that
  proof (rule read_loop.raw_induct
      [where P = "\<lambda>os' fd' s r. os' = os \<longrightarrow> fd' = fd \<longrightarrow> (\<forall>s'. r = Inr s' \<longrightarrow> Q s s')", rotated])
    fix f :: "'a ep_os \<Rightarrow> int \<Rightarrow> 'a ep_state \<Rightarrow> 'a ep_state res option" and os' fd' s r
    assume IH: "\<And>os' fd' s r. f os' fd' s = Some r \<Longrightarrow> os' = os \<longrightarrow> fd' = fd \<longrightarrow> (\<forall>s'. r = Inr s' \<longrightarrow> Q s s')"
      and eq: "(case k_read os' fd' 1024 (kw s) of
        (ReadErr e, w1) \<Rightarrow>
          if e = EAGAIN \<or> e = EWOULDBLOCK then Some (Inr (s\<lparr>kw := w1\<rparr>))
          else f os' fd' (say Session_closed (s\<lparr>kw := w1, session_map := (session_map s)(fd' := None)\<rparr>))
      | (ReadData d, w1) \<Rightarrow>
          if d = [] then Some (Inr (s\<lparr>kw := w1\<rparr>))
          else (case take_data os' fd' d (s\<lparr>kw := w1, rx := (rx s)(fd' := rx s fd' @ d)\<rparr>) of
                  Inl e \<Rightarrow> Some (Inl e)
                | Inr s1 \<Rightarrow> f os' fd' s1)) = Some r"
    obtain rr w1 where rd: "k_read os' fd' 1024 (kw s) = (rr, w1)" by force
    show "os' = os \<longrightarrow> fd' = fd \<longrightarrow> (\<forall>s'. r = Inr s' \<longrightarrow> Q s s')"
      using eq rd IH by (cases rr) (auto intro: stop err data split: if_splits sum.splits)
  qed
  with ret show ?thesis by blast
qed

lemma ep_inv_balance: "ep_inv s \<Longrightarrow> rx s fd = tx s fd @ unsent s fd"
  and ep_inv_chunks: "ep_inv s \<Longrightarrow> session_map s fd = Some q \<Longrightarrow> x \<in> set q \<Longrightarrow> x \<noteq> [] \<and> length x \<le> 1024"
  by (auto simp: ep_inv_def)

lemma ep_inv_update:
  assumes "ep_inv s" "session_map s' = (session_map s)(fd \<mapsto> q)" "tx s' = (tx s)(fd := t)" "rx s' = (rx s)(fd := r)"
    and "r = t @ concat q" "\<And>x. x \<in> set q \<Longrightarrow> x \<noteq> [] \<and> length x \<le> 1024"
  shows "ep_inv s'"
  using assms by (fastforce simp: ep_inv_def unsent_def)

text \<open>Queueing and writing keep the invariant and only extend what was sent.\<close>

lemma take_data_inv:
  assumes os: "well_behaved os" and inv: "ep_inv s" and d: "d \<noteq> []" "length d \<le> 1024"
    and t: "take_data os fd d (s\<lparr>kw := w, rx := (rx s)(fd := rx s fd @ d)\<rparr>) = Inr s'"
  shows "ep_inv s' \<and> prefix (tx s c) (tx s' c)"
proof (cases "session_map s fd")
  case None
  let ?h = "take (length d div 2) d"
  define n where "n = fst (k_write os fd ?h w)"
  have n: "0 \<le> n" "n \<le> int (length ?h)" unfolding n_def by (rule well_behavedD [OF os])+
  moreover have "length ?h < length d" using d by (cases d) auto
  ultimately have lt: "nat n < length d" by linarith
  with n t None have s': "session_map s' = (session_map s)(fd \<mapsto> [drop (nat n) d])"
      "tx s' = (tx s)(fd := tx s fd @ take (nat n) d)" "rx s' = (rx s)(fd := rx s fd @ d)"
    by (auto simp: take_data_def Let_def case_prod_beta n_def [symmetric] split: if_splits)
  have "ep_inv s'"
    using ep_inv_balance [OF inv, of fd] None d lt by (intro ep_inv_update [OF inv s']) (auto simp: unsent_def)
  with s' show ?thesis by auto
next
  case (Some q)
  with t have s': "session_map s' = (session_map s)(fd \<mapsto> q @ [d])" "tx s' = (tx s)(fd := tx s fd)"
      "rx s' = (rx s)(fd := rx s fd @ d)" by (auto simp: take_data_def)
  have "ep_inv s'"
    using ep_inv_balance [OF inv, of fd] Some d ep_inv_chunks [OF inv Some]
    by (intro ep_inv_update [OF inv s']) (auto simp: unsent_def)
  with s' show ?thesis by auto
qed

lemma read_loop_inv:
  assumes os: "well_behaved os" and r: "read_loop os fd s = Some (Inr s')"
  shows "ep_inv s \<longrightarrow> ep_inv s' \<and> prefix (tx s c) (tx s' c)"
proof (rule read_loop_passes [OF r])
  fix s s1 s' d w
  assume "k_read os fd 1024 (kw s) = (ReadData d, w)" "d \<noteq> []"
    and t: "take_data os fd d (s\<lparr>kw := w, rx := (rx s)(fd := rx s fd @ d)\<rparr>) = Inr s1"
    and IH: "ep_inv s1 \<longrightarrow> ep_inv s' \<and> prefix (tx s1 c) (tx s' c)"
  then show "ep_inv s \<longrightarrow> ep_inv s' \<and> prefix (tx s c) (tx s' c)"
    using take_data_inv [OF os _ _ well_behavedD(4) [OF os] t] by (blast intro: prefix_order.trans)
qed (auto dest: well_behavedD(3) [OF os])

lemma write_front_inv:
  assumes os: "well_behaved os" and inv: "ep_inv s" and w: "write_front os fd s = Inr s'"
  shows "ep_inv s' \<and> prefix (tx s c) (tx s' c)"
proof (cases "session_map s fd")
  case None
  with w inv show ?thesis by (simp add: write_front_def)
next
  case (Some q)
  with w obtain x q' where q: "q = x # q'" by (cases q) (auto simp: write_front_def)
  define n where "n = fst (k_write os fd x (kw s))"
  have n: "0 \<le> n" "n \<le> int (length x)" using well_behavedD(1,2) [OF os] by (simp_all add: n_def)
  note ch = ep_inv_chunks [OF inv Some]
  have x: "x \<noteq> []" "length x \<le> 1024" "length x - k \<le> 1024" for k
    using ch [of x] q by auto
  then have m: "nat (n mod 2 ^ 64) = nat n" using n by simp
  let ?q = "if nat n < length x then drop (nat n) x # q' else q'"
  from w Some q n m have s': "session_map s' = (session_map s)(fd \<mapsto> ?q)"
      "tx s' = (tx s)(fd := tx s fd @ take (nat n) x)" "rx s' = (rx s)(fd := rx s fd)"
    by (auto simp: write_front_def Let_def case_prod_beta n_def [symmetric] split: if_splits)
  have "ep_inv s'"
    using ep_inv_balance [OF inv, of fd] Some q ch x
    by (intro ep_inv_update [OF inv s']) (auto simp: unsent_def split: if_splits)
  with s' show ?thesis by auto
qed

lemma handle_event_inv:
  assumes os: "well_behaved os" and inv: "ep_inv s"
    and h: "handle_event os l e ev s = Some (Inr s')"
  shows "ep_inv s' \<and> prefix (tx s c) (tx s' c)"
proof -
  obtain fd fl where ev: "ev = (fd, fl)" by (cases ev)
  have "ep_inv s' \<and> prefix (tx s1 c) (tx s' c)"
    if "ep_inv s1" "(if fl AND EPOLLOUT \<noteq> 0 then write_front os fd s1 else Inr s1) = Inr s'" for s1
    using write_front_inv [OF os that(1)] that by (auto split: if_splits)
  then show ?thesis
    using h ev inv read_loop_inv [OF os, of fd s _ c] ep_inv_accept(1) [OF inv, of os l e] ep_inv_accept(2) [of os l e s]
    by (fastforce simp: handle_event_def Let_def case_prod_beta split: if_splits option.splits sum.splits
        intro: prefix_order.trans)
qed

section \<open>The server as an echo service\<close>

text \<open>One event handled under some well-behaved system.\<close>

inductive ep_step :: "'w ep_state \<Rightarrow> 'w ep_state \<Rightarrow> bool" where
  event: "well_behaved os \<Longrightarrow> handle_event os l e ev s = Some (Inr s') \<Longrightarrow> ep_step s s'"

inductive_cases ep_stepE: "ep_step s s'"

definition ep_initial :: "'w ep_state \<Rightarrow> bool" where
  "ep_initial s \<longleftrightarrow> (\<exists>os w. s = snd (snd (ep_setup os w)))"

lemma ep_setup_state: "session_map (snd (snd (ep_setup os w))) = Map.empty"
    "rx (snd (snd (ep_setup os w))) = (\<lambda>_. [])" "tx (snd (snd (ep_setup os w))) = (\<lambda>_. [])"
  by (simp_all add: ep_setup_def Let_def case_prod_beta)

interpretation ep: echo_service ep_initial ep_step rx tx unsent ep_inv
proof unfold_locales
  fix s :: "'w ep_state"
  assume "ep_initial s"
  then show "ep_inv s" by (auto simp: ep_initial_def ep_inv_def unsent_def ep_setup_state)
next
  fix s s' :: "'w ep_state"
  assume "ep_step s s'" "ep_inv s"
  then show "ep_inv s'" by (auto elim!: ep_stepE dest: handle_event_inv)
next
  fix s s' :: "'w ep_state" and c
  assume "ep_step s s'" "ep_inv s"
  then show "prefix (tx s c) (tx s' c)" by (auto elim!: ep_stepE dest: handle_event_inv)
qed (rule ep_inv_balance)

section \<open>Termination and faults\<close>

text \<open>
  \<open>m\<close> bounds what is left to read: every \<open>read\<close> that does not end the loop makes it smaller, and
  writing does not bring more input.
\<close>

definition finite_input :: "'w ep_os \<Rightarrow> int \<Rightarrow> ('w \<Rightarrow> nat) \<Rightarrow> bool" where
  "finite_input os fd m \<longleftrightarrow>
     (\<forall>w. case k_read os fd 1024 w of
        (ReadErr e, w') \<Rightarrow> e = EAGAIN \<or> e = EWOULDBLOCK \<or> m w' < m w
      | (ReadData d, w') \<Rightarrow> d = [] \<or> m w' < m w) \<and>
     (\<forall>b w. m (snd (k_write os fd b w)) \<le> m w)"

lemma take_data_kw:
  assumes "take_data os fd d s = Inr s'"
  shows "kw s' = kw s \<or> (\<exists>b. kw s' = snd (k_write os fd b (kw s)))"
  using assms by (auto simp: take_data_def Let_def case_prod_beta split: option.splits if_splits)

lemma finite_input_decreases:
  assumes fin: "finite_input os fd m"
  shows "k_read os fd 1024 w = (ReadErr e, w') \<Longrightarrow> e \<noteq> EAGAIN \<Longrightarrow> e \<noteq> EWOULDBLOCK \<Longrightarrow> m w' < m w"
    and "k_read os fd 1024 w = (ReadData d, w') \<Longrightarrow> d \<noteq> [] \<Longrightarrow> kw s = w' \<Longrightarrow>
      take_data os fd d s = Inr s1 \<Longrightarrow> m (kw s1) < m w"
proof -
  have step: "case k_read os fd 1024 w of
        (ReadErr e, w') \<Rightarrow> e = EAGAIN \<or> e = EWOULDBLOCK \<or> m w' < m w
      | (ReadData d, w') \<Rightarrow> d = [] \<or> m w' < m w" and wr: "m (snd (k_write os fd b v)) \<le> m v" for b v
    using fin by (auto simp: finite_input_def)
  show "k_read os fd 1024 w = (ReadErr e, w') \<Longrightarrow> e \<noteq> EAGAIN \<Longrightarrow> e \<noteq> EWOULDBLOCK \<Longrightarrow> m w' < m w"
    using step by auto
  assume "k_read os fd 1024 w = (ReadData d, w')" "d \<noteq> []" "kw s = w'" "take_data os fd d s = Inr s1"
  with step take_data_kw [of os fd d s s1] show "m (kw s1) < m w" by (auto intro: le_less_trans [OF wr])
qed

lemma read_loop_terminates:
  assumes fin: "finite_input os fd m"
  shows "\<exists>r. read_loop os fd s = Some r"
proof (induction "m (kw s)" arbitrary: s rule: less_induct)
  case less
  obtain rr w where rd: "k_read os fd 1024 (kw s) = (rr, w)" by force
  show ?case
  proof (cases rr)
    case (ReadErr e)
    with rd less finite_input_decreases(1) [OF fin] show ?thesis
      by (subst read_loop.simps) auto
  next
    case (ReadData d)
    have "\<exists>r. read_loop os fd s1 = Some r" if "d \<noteq> []"
        "take_data os fd d (s\<lparr>kw := w, rx := (rx s)(fd := rx s fd @ d)\<rparr>) = Inr s1" for s1
      using less finite_input_decreases(2) [OF fin _ that(1) _ that(2)] rd ReadData by simp
    with rd ReadData show ?thesis by (subst read_loop.simps) (auto split: sum.splits)
  qed
qed

text \<open>A read error that does not go away keeps the loop from ever returning.\<close>

lemma read_loop_hangs:
  assumes stuck: "\<And>w. k_read os fd 1024 w = (ReadErr (E w), W w)" "\<And>w. E w \<noteq> EAGAIN \<and> E w \<noteq> EWOULDBLOCK"
  shows "read_loop os fd s = None"
proof (rule ccontr)
  assume "read_loop os fd s \<noteq> None"
  then obtain r where "read_loop os fd s = Some r" by blast
  then have "os = os \<longrightarrow> fd = fd \<longrightarrow> False"
  proof (rule read_loop.raw_induct [where P = "\<lambda>os' fd' s r. os' = os \<longrightarrow> fd' = fd \<longrightarrow> False", rotated])
    fix f :: "'a ep_os \<Rightarrow> int \<Rightarrow> 'a ep_state \<Rightarrow> 'a ep_state res option" and os' fd' s r
    assume "\<And>os' fd' s r. f os' fd' s = Some r \<Longrightarrow> os' = os \<longrightarrow> fd' = fd \<longrightarrow> False"
      and "(case k_read os' fd' 1024 (kw s) of
        (ReadErr e, w1) \<Rightarrow>
          if e = EAGAIN \<or> e = EWOULDBLOCK then Some (Inr (s\<lparr>kw := w1\<rparr>))
          else f os' fd' (say Session_closed (s\<lparr>kw := w1, session_map := (session_map s)(fd' := None)\<rparr>))
      | (ReadData d, w1) \<Rightarrow>
          if d = [] then Some (Inr (s\<lparr>kw := w1\<rparr>))
          else (case take_data os' fd' d (s\<lparr>kw := w1, rx := (rx s)(fd' := rx s fd' @ d)\<rparr>) of
                  Inl e \<Rightarrow> Some (Inl e)
                | Inr s1 \<Rightarrow> f os' fd' s1)) = Some r"
    with stuck show "os' = os \<longrightarrow> fd' = fd \<longrightarrow> False" by fastforce
  qed
  then show False by simp
qed

text \<open>With a well-behaved system the only fault is \<open>front()\<close> on an empty queue.\<close>

lemma take_data_no_fault: "well_behaved os \<Longrightarrow> \<exists>s'. take_data os fd d s = Inr s'"
proof -
  assume os: "well_behaved os"
  let ?n = "fst (k_write os fd (take (length d div 2) d) (kw s))"
  have "\<not> ?n < 0" "\<not> int (length d) < ?n"
    using well_behavedD(1,2) [OF os, of fd "take (length d div 2) d" "kw s"] by auto
  then show ?thesis by (simp add: take_data_def Let_def case_prod_beta split: option.split)
qed

lemma read_loop_no_fault:
  assumes os: "well_behaved os" and fin: "finite_input os fd m"
  shows "\<exists>s'. read_loop os fd s = Some (Inr s')"
proof (induction "m (kw s)" arbitrary: s rule: less_induct)
  case less
  obtain rr w where rd: "k_read os fd 1024 (kw s) = (rr, w)" by force
  show ?case
  proof (cases rr)
    case (ReadErr e)
    with rd well_behavedD(3) [OF os] show ?thesis by (subst read_loop.simps) auto
  next
    case (ReadData d)
    obtain s1 where t: "take_data os fd d (s\<lparr>kw := w, rx := (rx s)(fd := rx s fd @ d)\<rparr>) = Inr s1"
      using take_data_no_fault [OF os] by blast
    have "\<exists>s'. read_loop os fd s1 = Some (Inr s')" if "d \<noteq> []"
      using less finite_input_decreases(2) [OF fin _ that _ t] rd ReadData by simp
    with rd ReadData t show ?thesis by (subst read_loop.simps) auto
  qed
qed

lemma write_front_fault:
  assumes os: "well_behaved os" and inv: "ep_inv s" and f: "write_front os fd s = Inl f"
  shows "f = EmptyFront \<and> session_map s fd = Some []"
proof (cases "session_map s fd")
  case None
  with f show ?thesis by (simp add: write_front_def)
next
  case (Some q)
  show ?thesis
  proof (cases q)
    case Nil
    with Some f show ?thesis by (simp add: write_front_def)
  next
    case (Cons x q')
    have "fst (k_write os fd x (kw s)) \<le> 1024"
      using well_behavedD(2) [OF os, of fd x "kw s"] ep_inv_chunks [OF inv Some, of x] Cons by simp
    with Some Cons f show ?thesis by (auto simp: write_front_def Let_def case_prod_beta split: if_splits)
  qed
qed

section \<open>Properties\<close>

text \<open>A system for the examples: the world is the list of strings still to be read.\<close>

definition demo_ep :: "byte list list ep_os" where
  "demo_ep = \<lparr>k_socket = (\<lambda>w. (3, w)), k_close = (\<lambda>k w. w), k_fcntl_getfl = (\<lambda>k w. (2, w)),
     k_fcntl_setfl = (\<lambda>k f w. (0, w)), k_setsockopt = (\<lambda>k w. (0, w)), k_bind = (\<lambda>k p w. (0, w)),
     k_listen = (\<lambda>k n w. (0, w)), k_epoll_create1 = (\<lambda>w. (4, w)), k_epoll_add = (\<lambda>e k f w. (0, w)),
     k_epoll_wait = (\<lambda>e n w. ([], w)), k_accept = (\<lambda>k w. (5, w)),
     k_read = (\<lambda>k n w. case w of [] \<Rightarrow> (ReadErr EAGAIN, []) | x # xs \<Rightarrow> (ReadData (take n x), xs)),
     k_write = (\<lambda>k b w. (int (length b), w))\<rparr>"

lemma demo_ep_well_behaved: "well_behaved demo_ep"
  by (auto simp: well_behaved_def demo_ep_def split: list.splits)

lemma demo_ep_finite: "finite_input demo_ep fd length"
  by (auto simp: finite_input_def demo_ep_def split: list.splits)

definition demo_ep_state :: "byte list list ep_state" where
  "demo_ep_state = \<lparr>session_map = [5 \<mapsto> [[72], [105]]], rx = (\<lambda>_. [])(5 := [33, 72, 105]),
     tx = (\<lambda>_. [])(5 := [33]), ep_log = [], kw = []\<rparr>"

lemma demo_ep_state_inv: "ep_inv demo_ep_state"
  by (auto simp: ep_inv_def unsent_def demo_ep_state_def)

text \<open>C2: after any number of events handled under well-behaved systems, for every descriptor: the
  bytes read are the bytes written back followed by the queued ones, so what was sent is a prefix
  of what was received, byte for byte and in order, and it is all of it once the queue is empty.\<close>

theorem epoll_server_echoes:
  assumes "ep_initial s0" "ep_step\<^sup>*\<^sup>* s0 s"
  shows "rx s fd = tx s fd @ unsent s fd \<and> prefix (tx s fd) (rx s fd) \<and>
    (unsent s fd = [] \<longrightarrow> tx s fd = rx s fd)"
  using ep.run_balance [OF assms] ep.run_sent_prefix [OF assms] ep.run_complete [OF assms] by blast

theorem epoll_server_echoes_witness:
  "\<exists>s. ep_step\<^sup>*\<^sup>* (snd (snd (ep_setup demo_ep [[72, 105]]))) s \<and> rx s 5 = [72, 105] \<and>
     rx s 5 = tx s 5 @ unsent s 5 \<and> prefix (tx s 5) (rx s 5)"
proof -
  let ?s0 = "snd (snd (ep_setup demo_ep [[72, 105]]))"
  have s0: "?s0 = \<lparr>session_map = Map.empty, rx = \<lambda>_. [], tx = \<lambda>_. [], ep_log = [], kw = [[72, 105]]\<rparr>"
    by (simp add: ep_setup_def setfd_noblock_def demo_ep_def)
  have "\<exists>s. handle_event demo_ep 3 4 (5, EPOLLIN) ?s0 = Some (Inr s) \<and> rx s 5 = [72, 105]"
    unfolding s0 by (simp add: handle_event_def EPOLLIN_def EPOLLOUT_def read_loop.simps take_data_def demo_ep_def)
  then obtain s where "ep_step ?s0 s" "rx s 5 = [72, 105]"
    by (auto intro: ep_step.event [OF demo_ep_well_behaved])
  moreover have "ep_initial ?s0" by (auto simp: ep_initial_def)
  ultimately show ?thesis using epoll_server_echoes [of ?s0 s 5] by (intro exI [of _ s]) auto
qed

text \<open>C13: reading a descriptor always comes to an end when its input does: for every system whose
  input is finite the loop returns, and under a well-behaved one it returns without a fault.\<close>

theorem read_loop_returns:
  assumes "finite_input os fd m"
  shows "(\<exists>r. read_loop os fd s = Some r) \<and> (well_behaved os \<longrightarrow> (\<exists>s'. read_loop os fd s = Some (Inr s')))"
  using read_loop_terminates [OF assms] read_loop_no_fault [OF _ assms] by blast

theorem read_loop_returns_witness: "\<exists>s'. read_loop demo_ep 5 demo_ep_state = Some (Inr s')"
  using read_loop_returns [OF demo_ep_finite] demo_ep_well_behaved by blast

text \<open>C15: a \<open>read\<close> that keeps failing with an error other than "try again" makes the server hang:
  the error branch erases the queue and does not leave the loop.\<close>

theorem read_error_hangs:
  assumes "\<And>w. k_read os fd 1024 w = (ReadErr (E w), W w)" "\<And>w. E w \<noteq> EAGAIN \<and> E w \<noteq> EWOULDBLOCK"
    and "flags AND EPOLLIN \<noteq> 0" "fd \<noteq> listenfd"
  shows "handle_event os listenfd epfd (fd, flags) s = None"
  using read_loop_hangs [OF assms(1,2)] assms(3,4) by (simp add: handle_event_def Let_def)

theorem read_error_hangs_witness:
  "handle_event (demo_ep\<lparr>k_read := (\<lambda>k n w. (ReadErr 9, w))\<rparr>) 3 4 (5, EPOLLIN) demo_ep_state = None"
  by (rule read_error_hangs [where E = "\<lambda>_. 9" and W = "\<lambda>w. w"])
    (simp_all add: EAGAIN_def EWOULDBLOCK_def EPOLLIN_def)

text \<open>A failed \<open>write\<close> of a queued string loses the string: nothing was sent, yet the string is
  taken off the queue, because -1 compared as an unsigned number is not less than its size. From
  a state that had lost nothing this reaches one that has.\<close>

theorem failed_write_loses_data:
  assumes "ep_inv s" "session_map s fd = Some (x # q)" "fst (k_write os fd x (kw s)) = -1"
  shows "\<exists>s'. write_front os fd s = Inr s' \<and> tx s' = tx s \<and> session_map s' = (session_map s)(fd \<mapsto> q) \<and>
    rx s' fd = tx s' fd @ x @ unsent s' fd \<and> rx s' fd \<noteq> tx s' fd @ unsent s' fd"
proof -
  have x: "x \<noteq> []" "length x \<le> 1024" using ep_inv_chunks [OF assms(1,2), of x] by auto
  have "\<not> nat (- 1 mod 2 ^ 64) < length x" using x by simp
  then have "write_front os fd s = Inr (s\<lparr>kw := snd (k_write os fd x (kw s)),
      tx := (tx s)(fd := tx s fd), session_map := (session_map s)(fd \<mapsto> q)\<rparr>)"
    using assms(2,3) by (simp add: write_front_def Let_def case_prod_beta)
  moreover have "rx s fd = tx s fd @ x @ concat q"
    using ep_inv_balance [OF assms(1), of fd] assms(2) by (simp add: unsent_def)
  ultimately show ?thesis using x by (auto simp: unsent_def)
qed

theorem failed_write_loses_data_witness:
  "\<exists>s'. write_front (demo_ep\<lparr>k_write := (\<lambda>k b w. (-1, w))\<rparr>) 5 demo_ep_state = Inr s' \<and>
     rx s' 5 \<noteq> tx s' 5 @ unsent s' 5"
  using failed_write_loses_data [OF demo_ep_state_inv, of 5 "[72]" "[[105]]" "demo_ep\<lparr>k_write := (\<lambda>k b w. (-1, w))\<rparr>"]
  by (auto simp: demo_ep_state_def)

text \<open>A read loop leaves an empty queue exactly when it found one and read nothing.\<close>

lemma take_data_not_drained:
  assumes "well_behaved os" "d \<noteq> []"
    and "take_data os fd d (s\<lparr>kw := w, rx := (rx s)(fd := rx s fd @ d)\<rparr>) = Inr s1"
  shows "session_map s1 fd \<noteq> Some [] \<and> rx s1 fd = rx s fd @ d"
proof -
  have "fst (k_write os fd (take (length d div 2) d) w) < int (length d)"
    using well_behavedD(2) [OF assms(1), of fd "take (length d div 2) d" w] assms(2) by (cases d) auto
  with assms(3) show ?thesis
    by (auto simp: take_data_def Let_def case_prod_beta split: option.splits if_splits)
qed

lemma read_loop_drained:
  assumes os: "well_behaved os" and r: "read_loop os fd s = Some (Inr s')"
  shows "(session_map s' fd = Some [] \<longleftrightarrow> session_map s fd = Some [] \<and> rx s' fd = rx s fd) \<and>
    prefix (rx s fd) (rx s' fd)"
proof (rule read_loop_passes [OF r])
  fix s s1 s' d w
  assume d: "d \<noteq> []" and t: "take_data os fd d (s\<lparr>kw := w, rx := (rx s)(fd := rx s fd @ d)\<rparr>) = Inr s1"
    and IH: "(session_map s' fd = Some [] \<longleftrightarrow> session_map s1 fd = Some [] \<and> rx s' fd = rx s1 fd) \<and>
      prefix (rx s1 fd) (rx s' fd)"
  with take_data_not_drained [OF os d t]
  show "(session_map s' fd = Some [] \<longleftrightarrow> session_map s fd = Some [] \<and> rx s' fd = rx s fd) \<and>
      prefix (rx s fd) (rx s' fd)" by (auto simp: prefix_def)
qed (auto dest: well_behavedD(3) [OF os])

lemma write_front_faults:
  assumes "well_behaved os" "ep_inv s"
  shows "write_front os fd s = Inl f \<longleftrightarrow> f = EmptyFront \<and> session_map s fd = Some []"
  using write_front_fault [OF assms] by (auto simp: write_front_def)

text \<open>C14: in a state in which queues hold what was read and not yet sent (\<open>ep_inv\<close>), with
  well-behaved system calls and finite input on the descriptor, an event faults for exactly one
  reason: it carries EPOLLOUT, the queue of its descriptor was drained and left in the map, and
  nothing refills it before the write, because the event has no EPOLLIN, or its reading brings no
  byte (for the listening socket: the accepted client was not skipped). The fault is then \<open>front()\<close> on
  the empty queue; the assertion on the size of a write and the string construction never fail.\<close>

theorem only_drained_queue_faults:
  assumes "well_behaved os" "finite_input os fd m" "ep_inv s"
  shows "handle_event os l e (fd, flags) s = Some (Inl f) \<longleftrightarrow>
    f = EmptyFront \<and> flags AND EPOLLOUT \<noteq> 0 \<and> session_map s fd = Some [] \<and>
    (flags AND EPOLLIN = 0 \<or>
     (if fd = l then \<not> fst (accept_client os l e s)
      else \<exists>s1. read_loop os fd s = Some (Inr s1) \<and> rx s1 fd = rx s fd))"
proof -
  obtain s1 where r: "read_loop os fd s = Some (Inr s1)" using read_loop_no_fault [OF assms(1,2)] by blast
  then have "ep_inv s1" using read_loop_inv [OF assms(1)] assms(3) by blast
  note wf = write_front_faults [OF assms(1) this] write_front_faults [OF assms(1,3)]
    write_front_faults [OF assms(1) ep_inv_accept(1) [OF assms(3)]]
  have "session_map (snd (accept_client os l e s)) = session_map s"
    by (simp add: accept_client_def Let_def case_prod_beta)
  with r wf read_loop_drained [OF assms(1) r] show ?thesis
    by (auto simp: handle_event_def Let_def case_prod_beta split: if_splits)
qed

theorem only_drained_queue_faults_witness:
  "handle_event demo_ep 3 4 (5, EPOLLOUT) (demo_ep_state\<lparr>session_map := [5 \<mapsto> []], tx := rx demo_ep_state\<rparr>) =
    Some (Inl EmptyFront)"
proof -
  let ?s = "demo_ep_state\<lparr>session_map := [5 \<mapsto> []], tx := rx demo_ep_state\<rparr>"
  have "ep_inv ?s" by (auto simp: ep_inv_def unsent_def demo_ep_state_def)
  from only_drained_queue_faults [OF demo_ep_well_behaved demo_ep_finite [of 5] this, of 3 4 EPOLLOUT EmptyFront]
  show ?thesis by (simp add: EPOLLIN_def EPOLLOUT_def)
qed

end
