(* ===== verification/Asio_Echo.thy ===== *)
theory Asio_Echo
  imports Echo_Contract
begin

text \<open>
  The Boost.Asio echo server (\<open>echo/boost-asio/echo_server.cpp\<close>): the completion handlers of its
  sessions and of its acceptor. Boost is not part of the repository: what a completed operation
  did to a session's buffer is chosen by the step, and whether \<open>shared_from_this\<close> of
  \<open>boost::enable_shared_from_this\<close> works for an object owned by a \<open>std::shared_ptr\<close> is the parameter
  \<open>sft\<close>. Boost documents that it works for a \<open>boost::shared_ptr\<close>, so the program is the case
  False, in which no byte is ever served.
\<close>

section \<open>Sessions and the server\<close>

datatype asio_op = OpRead | OpWrite

record asio_session =
  sbuf :: "byte list"
  outstanding :: "asio_op option"

record asio_server =
  as_sessions :: "nat \<rightharpoonup> asio_session"
  accepting :: "nat option"
  as_next :: nat
  arx :: "nat \<Rightarrow> byte list"
  atx :: "nat \<Rightarrow> byte list"

definition post_op :: "nat \<Rightarrow> asio_op \<Rightarrow> asio_server \<Rightarrow> asio_server" where
  "post_op sid p st = (case as_sessions st sid of None \<Rightarrow> st
     | Some x \<Rightarrow> st\<lparr>as_sessions := (as_sessions st)(sid \<mapsto> x\<lparr>outstanding := Some p\<rparr>)\<rparr>)"

text \<open>\<open>session::start\<close>, \<open>handle_read\<close> and \<open>handle_write\<close>; the error code is not looked at.\<close>

definition session_start :: "bool \<Rightarrow> nat \<Rightarrow> asio_server \<Rightarrow> asio_server res" where
  "session_start sft sid st = (if \<not> sft then Inl Uncaught else Inr (post_op sid OpRead st))"

definition handle_read :: "bool \<Rightarrow> nat \<Rightarrow> bool \<Rightarrow> asio_server \<Rightarrow> asio_server res" where
  "handle_read sft sid ec st = (if \<not> sft then Inl Uncaught else Inr (post_op sid OpWrite st))"

definition handle_write :: "bool \<Rightarrow> nat \<Rightarrow> bool \<Rightarrow> asio_server \<Rightarrow> asio_server res" where
  "handle_write sft sid ec st = (if \<not> sft then Inl Uncaught else Inr (post_op sid OpRead st))"

text \<open>A new session object, waiting to be connected by the acceptor.\<close>

definition new_accept :: "asio_server \<Rightarrow> asio_server" where
  "new_accept st = st\<lparr>as_sessions := (as_sessions st)(as_next st \<mapsto> \<lparr>sbuf = [], outstanding = None\<rparr>),
     accepting := Some (as_next st), as_next := Suc (as_next st)\<rparr>"

definition server_start :: "asio_server" where
  "server_start = new_accept \<lparr>as_sessions = Map.empty, accepting = None, as_next = 0,
     arx = (\<lambda>_. []), atx = (\<lambda>_. [])\<rparr>"

definition handle_accept :: "bool \<Rightarrow> nat \<Rightarrow> bool \<Rightarrow> asio_server \<Rightarrow> asio_server res" where
  "handle_accept sft sid error st =
     (let st1 = st\<lparr>accepting := None\<rparr> in
      if error then Inr st1
      else bindr (session_start sft sid st1) (\<lambda>st2. Inr (new_accept st2)))"

section \<open>The event loop\<close>

text \<open>
  A finished read appended bytes to the buffer, a finished write sent bytes from its front (none,
  when it failed), a finished accept connected the waiting session or failed.
\<close>

inductive asio_step :: "bool \<Rightarrow> asio_server \<Rightarrow> asio_server \<Rightarrow> bool" for sft where
  read_done: "as_sessions st sid = Some x \<Longrightarrow> outstanding x = Some OpRead \<Longrightarrow>
    handle_read sft sid ec (st\<lparr>as_sessions := (as_sessions st)(sid \<mapsto> x\<lparr>sbuf := sbuf x @ d, outstanding := None\<rparr>),
      arx := (arx st)(sid := arx st sid @ d)\<rparr>) = Inr st' \<Longrightarrow> asio_step sft st st'"
| write_done: "as_sessions st sid = Some x \<Longrightarrow> outstanding x = Some OpWrite \<Longrightarrow> sbuf x = d @ r \<Longrightarrow>
    handle_write sft sid ec (st\<lparr>as_sessions := (as_sessions st)(sid \<mapsto> x\<lparr>sbuf := r, outstanding := None\<rparr>),
      atx := (atx st)(sid := atx st sid @ d)\<rparr>) = Inr st' \<Longrightarrow> asio_step sft st st'"
| accept_done: "accepting st = Some sid \<Longrightarrow> handle_accept sft sid err st = Inr st' \<Longrightarrow> asio_step sft st st'"

inductive_cases asio_stepE: "asio_step sft st st'"

definition as_held :: "asio_server \<Rightarrow> nat \<Rightarrow> byte list" where
  "as_held st sid = (case as_sessions st sid of None \<Rightarrow> [] | Some x \<Rightarrow> sbuf x)"

text \<open>
  The invariant: bytes are accounted for, identifiers are used once, the session the acceptor
  waits for has no operation in flight, and every session that was connected has one.
\<close>

definition asio_inv :: "asio_server \<Rightarrow> bool" where
  "asio_inv st \<longleftrightarrow>
     (\<forall>sid. arx st sid = atx st sid @ as_held st sid) \<and>
     (\<forall>sid. as_sessions st sid \<noteq> None \<longrightarrow> sid < as_next st) \<and>
     (\<forall>sid. as_sessions st sid = None \<longrightarrow> arx st sid = [] \<and> atx st sid = []) \<and>
     (\<forall>sid. accepting st = Some sid \<longrightarrow> as_sessions st sid \<noteq> None)"

lemma asio_inv_start: "asio_inv server_start"
  by (auto simp: asio_inv_def server_start_def new_accept_def as_held_def split: if_splits)

lemma asio_inv_new_accept: "asio_inv st \<Longrightarrow> asio_inv (new_accept st)"
  by (force simp: asio_inv_def new_accept_def as_held_def split: if_splits)

lemma asio_inv_post: "asio_inv st \<Longrightarrow> asio_inv (post_op sid p st)"
  by (auto simp: asio_inv_def post_op_def as_held_def split: option.splits if_splits)

lemma asio_inv_step: "asio_step sft st st' \<Longrightarrow> asio_inv st \<Longrightarrow> asio_inv st'"
proof (erule asio_stepE)
  fix sid x ec d
  assume x: "as_sessions st sid = Some x" and inv: "asio_inv st"
    and h: "handle_read sft sid ec (st\<lparr>as_sessions := (as_sessions st)(sid \<mapsto> x\<lparr>sbuf := sbuf x @ d, outstanding := None\<rparr>),
      arx := (arx st)(sid := arx st sid @ d)\<rparr>) = Inr st'" (is "handle_read _ _ _ ?st = _")
  from x inv have "asio_inv ?st" by (auto simp: asio_inv_def as_held_def split: if_splits)
  with h show "asio_inv st'" by (auto simp: handle_read_def asio_inv_post split: if_splits)
next
  fix sid x d r ec
  assume x: "as_sessions st sid = Some x" "sbuf x = d @ r" and inv: "asio_inv st"
    and h: "handle_write sft sid ec (st\<lparr>as_sessions := (as_sessions st)(sid \<mapsto> x\<lparr>sbuf := r, outstanding := None\<rparr>),
      atx := (atx st)(sid := atx st sid @ d)\<rparr>) = Inr st'" (is "handle_write _ _ _ ?st = _")
  from x inv have "asio_inv ?st" by (auto simp: asio_inv_def as_held_def split: if_splits)
  with h show "asio_inv st'" by (auto simp: handle_write_def asio_inv_post split: if_splits)
next
  fix sid err
  assume "handle_accept sft sid err st = Inr st'" "asio_inv st"
  moreover have "asio_inv (st\<lparr>accepting := None\<rparr>)" if "asio_inv st"
    using that by (auto simp: asio_inv_def as_held_def)
  ultimately show "asio_inv st'"
    by (auto simp: handle_accept_def session_start_def Let_def asio_inv_post asio_inv_new_accept
        split: if_splits)
qed

lemma atx_post [simp]: "atx (post_op sid p st) = atx st" "atx (new_accept st) = atx st"
  by (simp_all add: post_op_def new_accept_def split: option.split)

lemma asio_step_sent: "asio_step sft st st' \<Longrightarrow> prefix (atx st c) (atx st' c)"
  by (erule asio_stepE)
    (auto simp: handle_read_def handle_write_def handle_accept_def session_start_def Let_def split: if_splits)

interpretation asio: echo_service "\<lambda>st. st = server_start" "asio_step sft" arx atx as_held asio_inv
  for sft
  by unfold_locales (auto simp: asio_inv_start asio_step_sent dest: asio_inv_step, simp add: asio_inv_def)

text \<open>Every session but the waiting one has exactly one operation in flight.\<close>

definition one_op_each :: "asio_server \<Rightarrow> bool" where
  "one_op_each st \<longleftrightarrow> (\<forall>sid x. as_sessions st sid = Some x \<longrightarrow>
     (outstanding x = None \<longleftrightarrow> accepting st = Some sid \<or> (accepting st = None \<and> Suc sid = as_next st)))"

lemma one_op_each_start: "one_op_each server_start"
  by (auto simp: one_op_each_def server_start_def new_accept_def)

lemma accepting_last: "(asio_step sft)\<^sup>*\<^sup>* server_start st \<Longrightarrow> accepting st = Some sid \<Longrightarrow> Suc sid = as_next st"
proof (induction arbitrary: sid rule: rtranclp_induct)
  case base
  then show ?case by (simp add: server_start_def new_accept_def)
next
  case (step st st')
  then show ?case
    by (elim asio_stepE) (auto simp: handle_read_def handle_write_def handle_accept_def session_start_def
        post_op_def new_accept_def Let_def split: if_splits)
qed

lemma one_op_each_step:
  assumes "asio_step sft st st'" "asio_inv st" "one_op_each st"
    and last: "\<And>sid. accepting st = Some sid \<Longrightarrow> Suc sid = as_next st"
  shows "one_op_each st'"
  using assms(1)
proof (rule asio_stepE)
  fix sid err
  assume a: "accepting st = Some sid" "handle_accept sft sid err st = Inr st'"
  from assms(2) a(1) obtain x where x: "as_sessions st sid = Some x" by (auto simp: asio_inv_def)
  have lt: "\<And>k y. as_sessions st k = Some y \<Longrightarrow> k < as_next st" using assms(2) by (auto simp: asio_inv_def)
  from a assms(3) last [OF a(1)] x show "one_op_each st'"
    by (auto simp: one_op_each_def handle_accept_def session_start_def post_op_def new_accept_def Let_def
        split: if_splits dest: lt)
qed (use assms(3) in \<open>force simp: one_op_each_def handle_read_def handle_write_def post_op_def split: if_splits\<close>)+

lemma one_op_each_run: "(asio_step sft)\<^sup>*\<^sup>* server_start st \<Longrightarrow> one_op_each st"
proof (induction rule: rtranclp_induct)
  case base
  show ?case by (rule one_op_each_start)
next
  case (step st st')
  from asio.invar_run [OF refl step.hyps(1)] show ?case
    by (rule one_op_each_step [OF step.hyps(2) _ step.IH]) (rule accepting_last [OF step.hyps(1)])
qed

lemma accepting_stays_off: "(asio_step sft)\<^sup>*\<^sup>* st st' \<Longrightarrow> accepting st = None \<Longrightarrow> accepting st' = None"
proof (induction rule: rtranclp_induct)
  case (step st' st'')
  from step.hyps(2) step.IH step.prems show ?case
    by (elim asio_stepE) (auto simp: handle_read_def handle_write_def post_op_def split: if_splits option.splits)
qed

section \<open>Properties\<close>

text \<open>A session waiting for input can always read it and send back everything it holds.\<close>

lemma asio_echo_round:
  assumes "as_sessions st sid = Some x" "outstanding x = Some OpRead" "asio_inv st"
  obtains st' where "(asio_step True)\<^sup>*\<^sup>* st st'" "arx st' sid = arx st sid @ d" "atx st' sid = arx st' sid"
proof -
  let ?x1 = "x\<lparr>sbuf := sbuf x @ d, outstanding := Some OpWrite\<rparr>"
  let ?st1 = "st\<lparr>as_sessions := (as_sessions st)(sid \<mapsto> ?x1), arx := (arx st)(sid := arx st sid @ d)\<rparr>"
  let ?st2 = "?st1\<lparr>as_sessions := (as_sessions st)(sid \<mapsto> x\<lparr>sbuf := [], outstanding := Some OpRead\<rparr>),
    atx := (atx st)(sid := atx st sid @ sbuf x @ d)\<rparr>"
  have "asio_step True st ?st1"
    by (rule asio_step.read_done [OF assms(1,2), of _ False d]) (simp add: handle_read_def post_op_def)
  moreover have "asio_step True ?st1 ?st2"
    by (rule asio_step.write_done [of _ sid ?x1 "sbuf x @ d" "[]" _ False])
      (simp_all add: handle_write_def post_op_def)
  ultimately have run: "(asio_step True)\<^sup>*\<^sup>* st ?st2"
    by (meson converse_rtranclp_into_rtranclp r_into_rtranclp)
  have "arx st sid = atx st sid @ sbuf x" using assms(1,3) by (simp add: asio_inv_def as_held_def)
  then show thesis by (intro that [OF run]) simp_all
qed

text \<open>If the owner of a session were recognised (\<open>sft\<close>), its handlers would echo: every session has
  sent back a prefix of what it received and holds the rest, in order, in its buffer, whatever
  completions occur in whatever order; and a session that waits for input can, whatever a read
  brings, reach a state in which all of it was sent back. The read of the program is
  \<open>async_read\<close> on a \<open>streambuf\<close>, which completes only at the end of the input, at an error or
  when the buffer is full.\<close>

theorem asio_server_echoes:
  assumes "(asio_step True)\<^sup>*\<^sup>* server_start st"
  shows "arx st sid = atx st sid @ as_held st sid \<and> prefix (atx st sid) (arx st sid) \<and>
    (\<forall>x d. as_sessions st sid = Some x \<longrightarrow> outstanding x = Some OpRead \<longrightarrow>
       (\<exists>st'. (asio_step True)\<^sup>*\<^sup>* st st' \<and> arx st' sid = arx st sid @ d \<and> atx st' sid = arx st' sid))"
  using asio.run_balance [OF refl assms] asio.run_sent_prefix [OF refl assms]
    asio_echo_round [OF _ _ asio.invar_run [OF refl assms]] by metis

text \<open>A run: a connection is accepted and sends one byte.\<close>

definition demo_asio1 :: asio_server where
  "demo_asio1 = new_accept (post_op 0 OpRead (server_start\<lparr>accepting := None\<rparr>))"

definition demo_asio2 :: asio_server where
  "demo_asio2 = post_op 0 OpWrite (demo_asio1\<lparr>as_sessions := (as_sessions demo_asio1)(0 \<mapsto> \<lparr>sbuf = [7], outstanding = None\<rparr>),
     arx := (arx demo_asio1)(0 := [7])\<rparr>)"

lemma demo_asio_run1: "(asio_step True)\<^sup>*\<^sup>* server_start demo_asio1"
proof -
  have "asio_step True server_start demo_asio1"
    by (rule asio_step.accept_done [of _ 0 _ False])
      (simp_all add: handle_accept_def session_start_def demo_asio1_def server_start_def new_accept_def Let_def)
  then show ?thesis by blast
qed

lemma demo_asio_run: "(asio_step True)\<^sup>*\<^sup>* server_start demo_asio2"
proof -
  have "asio_step True demo_asio1 demo_asio2"
    by (rule asio_step.read_done [of _ 0 "\<lparr>sbuf = [], outstanding = Some OpRead\<rparr>" _ False "[7]"])
      (simp_all add: handle_read_def demo_asio2_def demo_asio1_def server_start_def new_accept_def post_op_def)
  with demo_asio_run1 show ?thesis by simp
qed

theorem asio_server_echoes_witness:
  "arx demo_asio2 0 = [7] \<and> arx demo_asio2 0 = atx demo_asio2 0 @ as_held demo_asio2 0 \<and>
   prefix (atx demo_asio2 0) (arx demo_asio2 0) \<and>
   (\<exists>st'. (asio_step True)\<^sup>*\<^sup>* demo_asio1 st' \<and> arx st' 0 = [7, 8] \<and> atx st' 0 = [7, 8])"
proof -
  have "as_sessions demo_asio1 0 = Some \<lparr>sbuf = [], outstanding = Some OpRead\<rparr>" "arx demo_asio1 0 = []"
    by (simp_all add: demo_asio1_def server_start_def new_accept_def post_op_def)
  with asio_server_echoes [OF demo_asio_run1, of 0]
  have "\<exists>st'. (asio_step True)\<^sup>*\<^sup>* demo_asio1 st' \<and> arx st' 0 = [7, 8] \<and> atx st' 0 = [7, 8]" by fastforce
  moreover have "arx demo_asio2 0 = [7]"
    by (simp add: demo_asio2_def demo_asio1_def server_start_def new_accept_def post_op_def)
  ultimately show ?thesis using asio_server_echoes [OF demo_asio_run, of 0] by blast
qed

text \<open>A connected session always has exactly one read or write in flight: it never stops, not
  even after a completion with an error, so the session of a closed connection is never
  destroyed.\<close>

theorem asio_session_never_ends:
  assumes "(asio_step sft)\<^sup>*\<^sup>* server_start st" "as_sessions st sid = Some x" "Suc sid < as_next st"
  shows "outstanding x \<noteq> None"
  using one_op_each_run [OF assms(1)] accepting_last [OF assms(1)] assms(2,3)
  by (fastforce simp: one_op_each_def)

theorem asio_session_never_ends_witness:
  "\<exists>x. as_sessions demo_asio2 0 = Some x \<and> outstanding x \<noteq> None"
proof -
  have "\<exists>x. as_sessions demo_asio2 0 = Some x" "Suc 0 < as_next demo_asio2"
    by (simp_all add: demo_asio2_def demo_asio1_def server_start_def new_accept_def post_op_def)
  with asio_session_never_ends [OF demo_asio_run] show ?thesis by blast
qed

text \<open>The sessions are owned by \<open>std::shared_ptr\<close>s; if \<open>boost::enable_shared_from_this\<close> does not
  recognise such an owner, accepting a connection raises an exception nobody catches, and in no
  reachable state of the server has a byte been received.\<close>

theorem asio_unowned_session_serves_nothing:
  assumes "(asio_step False)\<^sup>*\<^sup>* server_start st"
  shows "handle_accept False sid False st = Inl Uncaught \<and> arx st k = [] \<and> atx st k = []"
  using assms
proof (induction rule: rtranclp_induct)
  case base
  then show ?case by (simp add: handle_accept_def session_start_def server_start_def new_accept_def Let_def)
next
  case (step st st')
  from step.hyps(2) step.IH show ?case
    by (elim asio_stepE)
      (auto simp: handle_read_def handle_write_def handle_accept_def session_start_def Let_def split: if_splits)
qed

theorem asio_unowned_session_serves_nothing_witness:
  "handle_accept False 0 False server_start = Inl Uncaught \<and> arx server_start 0 = [] \<and> atx server_start 0 = []"
  by (rule asio_unowned_session_serves_nothing) simp

text \<open>a failed accept ends accepting for good: the handler returns without posting another
  accept, and no later completion posts one.\<close>

theorem asio_accept_error_is_final:
  assumes "handle_accept sft sid True st = Inr st'" "(asio_step sft)\<^sup>*\<^sup>* st' st''"
  shows "accepting st'' = None"
  using accepting_stays_off [OF assms(2)] assms(1) by (auto simp: handle_accept_def Let_def)

theorem asio_accept_error_is_final_witness:
  "handle_accept True 0 True server_start = Inr (server_start\<lparr>accepting := None\<rparr>) \<and>
   accepting (server_start\<lparr>accepting := None\<rparr>) = None"
proof -
  have "handle_accept True 0 True server_start = Inr (server_start\<lparr>accepting := None\<rparr>)"
    by (simp add: handle_accept_def Let_def)
  from asio_accept_error_is_final [OF this rtranclp.rtrancl_refl] this show ?thesis by simp
qed

end
