(* ===== verification/Echo_Session.thy ===== *)
theory Echo_Session
  imports Libevent_Echo Epoll_Echo Asio_Echo
begin

text \<open>
  One connection of the load client (\<open>echo_client.cpp\<close>) to an echo server. The client runs the
  callbacks of \<open>Libevent_Echo\<close> on its own world; the server is any service that keeps the contract
  \<open>echo_service\<close>; between them are two byte streams that lose and reorder nothing. The steps of the
  two programs and of the library interleave in any order. Main results, for each of the three
  servers: the client gets back its message over and over, byte for byte, and the bytes under way are always
  exactly one message; and with the libevent server the exchange can always go on.
\<close>

section \<open>The composed system\<close>

record ('c, 's) echo_session =
  cl :: 'c
  connected :: bool
  c2s :: "byte list"
  s2c :: "byte list"
  c_sent :: "byte list"
  c_recv :: "byte list"
  srv :: 's

text \<open>
  The library reports the connection once, then it moves bytes between the client's buffers and the
  streams and calls the read callback. A step of the server takes what it receives from one stream
  and puts what it sends on the other.
\<close>

inductive session_step ::
  "'c ev_api \<Rightarrow> ptr \<Rightarrow> ('c \<Rightarrow> ptr \<Rightarrow> byte list) \<Rightarrow> ('c \<Rightarrow> ptr \<Rightarrow> byte list) \<Rightarrow>
    ('s \<Rightarrow> 's \<Rightarrow> bool) \<Rightarrow> ('s \<Rightarrow> byte list) \<Rightarrow> ('s \<Rightarrow> byte list) \<Rightarrow>
    ('c, 's) echo_session \<Rightarrow> ('c, 's) echo_session \<Rightarrow> bool"
  for api bev inb outb sstep received sent where
  connect: "\<not> connected s \<Longrightarrow> event_cb api bev BEV_EVENT_CONNECTED (cl s) = Inr (m, w') \<Longrightarrow>
    session_step api bev inb outb sstep received sent s (s\<lparr>cl := w', connected := True\<rparr>)"
| c_arrive: "s2c s = d @ r \<Longrightarrow> inb w' bev = inb (cl s) bev @ d \<Longrightarrow> outb w' bev = outb (cl s) bev \<Longrightarrow>
    session_step api bev inb outb sstep received sent s (s\<lparr>cl := w', s2c := r, c_recv := c_recv s @ d\<rparr>)"
| c_callback: "session_step api bev inb outb sstep received sent s (s\<lparr>cl := client_read_cb api bev (cl s)\<rparr>)"
| c_flush: "outb (cl s) bev = d @ r \<Longrightarrow> outb w' bev = r \<Longrightarrow> inb w' bev = inb (cl s) bev \<Longrightarrow>
    session_step api bev inb outb sstep received sent s (s\<lparr>cl := w', c2s := c2s s @ d, c_sent := c_sent s @ d\<rparr>)"
| server: "sstep (srv s) t \<Longrightarrow> c2s s = d @ r \<Longrightarrow> received t = received (srv s) @ d \<Longrightarrow>
    sent t = sent (srv s) @ e \<Longrightarrow>
    session_step api bev inb outb sstep received sent s (s\<lparr>srv := t, c2s := r, s2c := s2c s @ e\<rparr>)"

inductive_cases session_stepE: "session_step api bev inb outb sstep received sent s s'"

text \<open>\<open>bufferevent_write\<close> appends to the output, \<open>bufferevent_write_buffer\<close> moves the input there.\<close>

definition write_contract ::
  "'w ev_api \<Rightarrow> ('w \<Rightarrow> ptr \<Rightarrow> byte list) \<Rightarrow> ('w \<Rightarrow> ptr \<Rightarrow> byte list) \<Rightarrow> bool" where
  "write_contract api inb outb \<longleftrightarrow>
     (\<forall>bev d w. let w' = snd (bufferevent_write api bev d w) in
        outb w' = (outb w)(bev := outb w bev @ d) \<and> inb w' = inb w)"

definition session_initial :: "ptr \<Rightarrow> ('c \<Rightarrow> ptr \<Rightarrow> byte list) \<Rightarrow> ('c \<Rightarrow> ptr \<Rightarrow> byte list) \<Rightarrow>
    ('s \<Rightarrow> byte list) \<Rightarrow> ('s \<Rightarrow> byte list) \<Rightarrow> ('c, 's) echo_session \<Rightarrow> bool" where
  "session_initial bev inb outb received sent s \<longleftrightarrow>
     \<not> connected s \<and> c2s s = [] \<and> s2c s = [] \<and> c_sent s = [] \<and> c_recv s = [] \<and>
     inb (cl s) bev = [] \<and> outb (cl s) bev = [] \<and> received (srv s) = [] \<and> sent (srv s) = []"

section \<open>Streams that go round\<close>

text \<open>The bytes on their way, from the ones the client gets next to the ones it got last.\<close>

definition under_way :: "ptr \<Rightarrow> ('c \<Rightarrow> ptr \<Rightarrow> byte list) \<Rightarrow> ('c \<Rightarrow> ptr \<Rightarrow> byte list) \<Rightarrow>
    ('s \<Rightarrow> byte list) \<Rightarrow> ('c, 's) echo_session \<Rightarrow> byte list" where
  "under_way bev inb outb pending s =
     s2c s @ pending (srv s) @ c2s s @ outb (cl s) bev @ inb (cl s) bev"

lemma round_trip_period:
  assumes "M @ x = x @ R" and "M \<noteq> []"
  shows "R = rotate (length x) M" and "\<And>i. i < length x \<Longrightarrow> x ! i = M ! (i mod length M)"
proof -
  have "R = rotate (length x) M \<and> (\<forall>i < length x. x ! i = M ! (i mod length M))"
    using assms(1)
  proof (induction "length x" arbitrary: x rule: less_induct)
    case less
    from less.prems have "(\<exists>y. x = M @ y) \<or> (\<exists>z. M = x @ z)"
      by (auto simp: append_eq_append_conv2)
    then consider y where "x = M @ y" | z where "M = x @ z" by blast
    then show ?case
    proof cases
      case 1
      with less.prems have "M @ y = y @ R" by simp
      moreover have "length y < length x" using 1 assms(2) by simp
      ultimately have IH: "R = rotate (length y) M" "\<And>i. i < length y \<Longrightarrow> y ! i = M ! (i mod length M)"
        using less.hyps by blast+
      have "x ! i = M ! (i mod length M)" if "i < length x" for i
        using that IH(2) [of "i - length M"] 1
        by (cases "i < length M") (simp_all add: nth_append le_mod_geq)
      moreover have "rotate (length x) M = R" using IH(1) 1 by (simp add: rotate_rotate [symmetric] add.commute)
      ultimately show ?thesis by simp
    next
      case 2
      with less.prems have "R = z @ x" by simp
      with 2 show ?thesis by (auto simp: rotate_append nth_append)
    qed
  qed
  then show "R = rotate (length x) M" and "\<And>i. i < length x \<Longrightarrow> x ! i = M ! (i mod length M)" by auto
qed

lemma MSG_nonempty: "MSG \<noteq> []"
  by (simp add: MSG_def)

lemma client_read_cb_buffers:
  assumes "write_buffer_contract api inb outb"
  shows "outb (client_read_cb api bev w) bev = outb w bev @ inb w bev" "inb (client_read_cb api bev w) bev = []"
  using assms by (auto simp: write_buffer_contract_def client_read_cb_def Let_def)

lemma event_cb_connected:
  assumes "write_contract api inb outb" and "event_cb api bev BEV_EVENT_CONNECTED w = Inr (m, w')"
  shows "outb w' bev = outb w bev @ MSG" "inb w' bev = inb w bev"
  using assms
  by (auto simp: event_cb_def BEV_EVENT_EOF_def BEV_EVENT_ERROR_def BEV_EVENT_CONNECTED_def write_contract_def Let_def)

section \<open>A session with any server that keeps the contract\<close>

context echo_service
begin

abbreviation sess where
  "sess api bev inb outb conn \<equiv> session_step api bev inb outb step (\<lambda>t. received t conn) (\<lambda>t. sent t conn)"

definition sess_inv where
  "sess_inv bev inb outb conn s \<longleftrightarrow> invar (srv s) \<and> c_sent s = received (srv s) conn @ c2s s \<and>
     sent (srv s) conn = c_recv s @ s2c s \<and> (\<not> connected s \<longrightarrow> c_recv s = []) \<and>
     (if connected s then MSG else []) @ c_recv s = c_sent s @ outb (cl s) bev @ inb (cl s) bev"

lemma nothing_before_connection:
  assumes "sess_inv bev inb outb conn s" and "\<not> connected s"
  shows "s2c s = []" "outb (cl s) bev = []" "inb (cl s) bev = []" "c_sent s = []"
  using assms balance [of "srv s" conn] by (auto simp: sess_inv_def)

lemma sess_inv_step:
  assumes "sess api bev inb outb conn s s'" and "sess_inv bev inb outb conn s"
    and "write_buffer_contract api inb outb" and "write_contract api inb outb"
  shows "sess_inv bev inb outb conn s'"
  using assms(1)
proof (cases rule: session_step.cases)
  case (connect m w')
  then show ?thesis using assms(2) nothing_before_connection [OF assms(2)]
    by (auto simp: sess_inv_def event_cb_connected [OF assms(4) connect(3)])
next
  case (c_arrive d r w')
  then show ?thesis using assms(2) nothing_before_connection [OF assms(2)]
    by (auto simp: sess_inv_def)
next
  case c_callback
  then show ?thesis using assms(2) by (simp add: sess_inv_def client_read_cb_buffers [OF assms(3)])
next
  case (c_flush d r w')
  then show ?thesis using assms(2) by (simp add: sess_inv_def)
next
  case (server t d r e)
  then show ?thesis using assms(2) invar_step by (auto simp: sess_inv_def)
qed

lemma sess_inv_run:
  assumes "initial (srv s0)" "session_initial bev inb outb (\<lambda>t. received t conn) (\<lambda>t. sent t conn) s0"
    and "(sess api bev inb outb conn)\<^sup>*\<^sup>* s0 s"
    and "write_buffer_contract api inb outb" "write_contract api inb outb"
  shows "sess_inv bev inb outb conn s"
  using assms(3)
proof (induction rule: rtranclp_induct)
  case base
  then show ?case using assms(1,2) invar_initial by (simp add: sess_inv_def session_initial_def)
qed (rule sess_inv_step [OF _ _ assms(4,5)])

lemma sess_round_trip:
  assumes "sess_inv bev inb outb conn s" and "connected s"
  shows "MSG @ c_recv s = c_recv s @ under_way bev inb outb (\<lambda>t. pending t conn) s"
  using assms balance [of "srv s" conn] by (simp add: sess_inv_def under_way_def)

lemma session_repeats_message:
  assumes "initial (srv s0)" "session_initial bev inb outb (\<lambda>t. received t conn) (\<lambda>t. sent t conn) s0"
    and "(sess api bev inb outb conn)\<^sup>*\<^sup>* s0 s" and "connected s"
    and "write_buffer_contract api inb outb" "write_contract api inb outb"
  shows "under_way bev inb outb (\<lambda>t. pending t conn) s = rotate (length (c_recv s)) MSG \<and>
    (\<forall>i < length (c_recv s). c_recv s ! i = MSG ! (i mod length MSG))"
  using round_trip_period [OF sess_round_trip [OF sess_inv_run [OF assms(1-3,5,6)] assms(4)]] MSG_nonempty by blast

end


section \<open>The exchange goes on\<close>

text \<open>
  What the library does by itself: it can take bytes that arrived into an input buffer, and bytes at the
  front of an output buffer onto the network.
\<close>

definition library_moves :: "('w \<Rightarrow> ptr \<Rightarrow> byte list) \<Rightarrow> ('w \<Rightarrow> ptr \<Rightarrow> byte list) \<Rightarrow> bool" where
  "library_moves inb outb \<longleftrightarrow> (\<forall>w bev d.
     (\<exists>w'. inb w' = (inb w)(bev := inb w bev @ d) \<and> outb w' = outb w) \<and>
     (\<exists>w'. outb w' = (outb w)(bev := []) \<and> inb w' = inb w))"

lemma library_arrives:
  assumes "library_moves inb outb"
  obtains w' where "inb w' = (inb w)(bev := inb w bev @ d)" "outb w' = outb w"
  using assms unfolding library_moves_def by blast

lemma library_flushes:
  assumes "library_moves inb outb"
  obtains w' where "outb w' = (outb w)(bev := [])" "inb w' = inb w"
  using assms unfolding library_moves_def by blast

text \<open>The session of the client with the libevent server; both run on the same library.\<close>

abbreviation lev_session ::
  "'c ev_api \<Rightarrow> ptr \<Rightarrow> ('c \<Rightarrow> ptr \<Rightarrow> byte list) \<Rightarrow> ('c \<Rightarrow> ptr \<Rightarrow> byte list) \<Rightarrow> ptr \<Rightarrow>
    ('c, 'c lev_state) echo_session \<Rightarrow> ('c, 'c lev_state) echo_session \<Rightarrow> bool" where
  "lev_session api bev inb outb conn \<equiv>
     session_step api bev inb outb (lev_step api inb outb) (\<lambda>t. lrx t conn) (\<lambda>t. ltx t conn)"

lemma client_turn:
  assumes "write_buffer_contract api inb outb" and "library_moves inb outb"
  obtains s' where "(lev_session api bev inb outb conn)\<^sup>*\<^sup>* s s'"
    and "c2s s' = c2s s @ outb (cl s) bev @ inb (cl s) bev" and "s2c s' = s2c s" and "srv s' = srv s"
    and "c_recv s' = c_recv s" and "connected s' = connected s"
proof -
  let ?s1 = "s\<lparr>cl := client_read_cb api bev (cl s)\<rparr>"
  from library_flushes [OF assms(2), of "cl ?s1" bev] obtain w where
    w: "outb w = (outb (cl ?s1))(bev := [])" "inb w = inb (cl ?s1)" .
  let ?d = "outb (cl ?s1) bev"
  let ?s2 = "?s1\<lparr>cl := w, c2s := c2s ?s1 @ ?d, c_sent := c_sent ?s1 @ ?d\<rparr>"
  have "lev_session api bev inb outb conn s ?s1" by (rule session_step.c_callback)
  moreover have "lev_session api bev inb outb conn ?s1 ?s2" by (rule session_step.c_flush [of outb _ bev _ "[]"]) (simp_all add: w)
  ultimately have "(lev_session api bev inb outb conn)\<^sup>*\<^sup>* s ?s2"
    by (meson converse_rtranclp_into_rtranclp r_into_rtranclp)
  then show thesis by (rule that) (simp_all add: client_read_cb_buffers [OF assms(1)])
qed

lemma server_turn:
  assumes "write_buffer_contract api inb outb" and "library_moves inb outb"
  obtains s' where "(lev_session api bev inb outb conn)\<^sup>*\<^sup>* s s'"
    and "s2c s' = s2c s @ lev_held inb outb (srv s) conn @ c2s s" and "cl s' = cl s"
    and "c_recv s' = c_recv s" and "connected s' = connected s"
proof -
  let ?t = "srv s"
  from library_arrives [OF assms(2), of "lw ?t" conn "c2s s"] obtain w where
    w: "inb w = (inb (lw ?t))(conn := inb (lw ?t) conn @ c2s s)" "outb w = outb (lw ?t)" .
  let ?t1 = "?t\<lparr>lw := w, lrx := (lrx ?t)(conn := lrx ?t conn @ c2s s)\<rparr>"
  let ?t2 = "?t1\<lparr>lw := read_cb api conn (lw ?t1)\<rparr>"
  from library_flushes [OF assms(2), of "lw ?t2" conn] obtain v where
    v: "outb v = (outb (lw ?t2))(conn := [])" "inb v = inb (lw ?t2)" .
  let ?e = "outb (lw ?t2) conn"
  let ?t3 = "?t2\<lparr>lw := v, ltx := (ltx ?t2)(conn := ltx ?t2 conn @ ?e)\<rparr>"
  have t: "lev_step api inb outb ?t ?t1" "lev_step api inb outb ?t1 ?t2" "lev_step api inb outb ?t2 ?t3"
    using lev_step.arrive [of inb w ?t conn "c2s s" outb api] lev_step.callback [of api inb outb ?t1 conn]
      lev_step.flush [of outb ?t2 conn ?e "[]" v inb api] w v by simp_all
  let ?s1 = "s\<lparr>srv := ?t1, c2s := [], s2c := s2c s @ []\<rparr>"
  let ?s2 = "?s1\<lparr>srv := ?t2, c2s := [], s2c := s2c ?s1 @ []\<rparr>"
  let ?s3 = "?s2\<lparr>srv := ?t3, c2s := [], s2c := s2c ?s2 @ ?e\<rparr>"
  have "lev_session api bev inb outb conn s ?s1" by (rule session_step.server [where d = "c2s s"]) (use t(1) in simp_all)
  moreover have "lev_session api bev inb outb conn ?s1 ?s2" by (rule session_step.server [where d = "[]"]) (use t(2) in simp_all)
  moreover have "lev_session api bev inb outb conn ?s2 ?s3" by (rule session_step.server [where d = "[]"]) (use t(3) in simp_all)
  ultimately have "(lev_session api bev inb outb conn)\<^sup>*\<^sup>* s ?s3"
    by (meson converse_rtranclp_into_rtranclp r_into_rtranclp)
  then show thesis by (rule that) (simp_all add: read_cb_buffers [OF assms(1)] w lev_held_def)
qed

text \<open>After a turn of each, and delivery, the client has got all bytes that were under way.\<close>

lemma one_round:
  assumes "lev.sess_inv api inb outb bev inb outb conn s" and "connected s"
    and "write_buffer_contract api inb outb" and "library_moves inb outb"
  shows "\<exists>s'. (lev_session api bev inb outb conn)\<^sup>*\<^sup>* s s' \<and> connected s' \<and> length (c_recv s') = length (c_recv s) + length MSG"
proof -
  from client_turn [OF assms(3,4), of bev conn s] obtain s1 where
    s1: "(lev_session api bev inb outb conn)\<^sup>*\<^sup>* s s1" "c2s s1 = c2s s @ outb (cl s) bev @ inb (cl s) bev"
      "s2c s1 = s2c s" "srv s1 = srv s" "c_recv s1 = c_recv s" "connected s1 = connected s" .
  from server_turn [OF assms(3,4), of bev conn s1] obtain s2 where
    s2: "(lev_session api bev inb outb conn)\<^sup>*\<^sup>* s1 s2" "s2c s2 = s2c s1 @ lev_held inb outb (srv s1) conn @ c2s s1"
      "cl s2 = cl s1" "c_recv s2 = c_recv s1" "connected s2 = connected s1" .
  from library_arrives [OF assms(4), of "cl s2" bev "s2c s2"] obtain w where
    w: "inb w = (inb (cl s2))(bev := inb (cl s2) bev @ s2c s2)" "outb w = outb (cl s2)" .
  let ?s3 = "s2\<lparr>cl := w, s2c := [], c_recv := c_recv s2 @ s2c s2\<rparr>"
  have "lev_session api bev inb outb conn s2 ?s3" by (rule session_step.c_arrive) (simp_all add: w)
  with s1(1) s2(1) have "(lev_session api bev inb outb conn)\<^sup>*\<^sup>* s ?s3"
    by (meson rtranclp_trans rtranclp.rtrancl_into_rtrancl)
  moreover have "s2c s2 = under_way bev inb outb (\<lambda>t. lev_held inb outb t conn) s"
    by (simp add: under_way_def s1 s2)
  with lev.sess_round_trip [OF assms(1,2)] have "length (s2c s2) = length MSG"
    by (metis add_left_cancel length_append add.commute)
  ultimately show ?thesis using assms(2) s1 s2 by (intro exI [of _ ?s3]) simp
qed

lemma rounds:
  assumes "lev.sess_inv api inb outb bev inb outb conn s" and "connected s"
    and "write_buffer_contract api inb outb" "write_contract api inb outb" "library_moves inb outb"
  shows "\<exists>s'. (lev_session api bev inb outb conn)\<^sup>*\<^sup>* s s' \<and> connected s' \<and> n \<le> length (c_recv s')"
proof (induction n)
  case (Suc n)
  then obtain s1 where s1: "(lev_session api bev inb outb conn)\<^sup>*\<^sup>* s s1" "connected s1" "n \<le> length (c_recv s1)" by blast
  have "lev.sess_inv api inb outb bev inb outb conn s1"
    using s1(1)
  proof (induction rule: rtranclp_induct)
    case (step y z)
    show ?case by (rule lev.sess_inv_step [OF step.hyps(2) step.IH assms(3,4)])
  qed (rule assms(1))
  from one_round [OF this s1(2) assms(3,5)] obtain s2 where
    "(lev_session api bev inb outb conn)\<^sup>*\<^sup>* s1 s2" "connected s2" "length (c_recv s2) = length (c_recv s1) + length MSG"
    by blast
  with s1 show ?case by (intro exI [of _ s2]) (auto simp: MSG_def intro: rtranclp_trans)
qed (use assms(2) in auto)

lemma connects:
  assumes "\<not> connected s"
  shows "\<exists>s'. lev_session api bev inb outb conn s s' \<and> connected s'"
proof -
  have "event_cb api bev BEV_EVENT_CONNECTED (cl s) = Inr (Connected_msg, snd (bufferevent_write api bev MSG (cl s)))"
    by (simp add: event_cb_def BEV_EVENT_EOF_def BEV_EVENT_ERROR_def BEV_EVENT_CONNECTED_def)
  from session_step.connect [of s api bev Connected_msg, OF assms this] show ?thesis by fastforce
qed

section \<open>Properties\<close>

text \<open>
C9: on a connection of the load client to the libevent server the message goes round for ever. In every
reachable state the i-th byte the client has received is byte i mod 1024 of its message, and once it is connected the bytes
in the four buffers and the two streams are exactly one message, in order from the next byte the client will
get. From every reachable state the two programs can go on until the client has received any given number of bytes.
\<close>

theorem client_and_server_exchange_forever:
  assumes "write_buffer_contract api inb outb" "write_contract api inb outb" "library_moves inb outb"
    and "lev_initial inb outb (srv s0)" "session_initial bev inb outb (\<lambda>t. lrx t conn) (\<lambda>t. ltx t conn) s0"
    and "(lev_session api bev inb outb conn)\<^sup>*\<^sup>* s0 s"
  shows "(\<forall>i < length (c_recv s). c_recv s ! i = MSG ! (i mod 1024)) \<and>
    (connected s \<longrightarrow> s2c s @ lev_held inb outb (srv s) conn @ c2s s @ outb (cl s) bev @ inb (cl s) bev
       = rotate (length (c_recv s)) MSG) \<and>
    (\<exists>s'. (lev_session api bev inb outb conn)\<^sup>*\<^sup>* s s' \<and> n \<le> length (c_recv s'))"
proof (intro conjI)
  note start = conjI [OF assms(1,4)]
  note inv = lev.sess_inv_run [OF start assms(5,6,1,2)]
  show "\<exists>s'. (lev_session api bev inb outb conn)\<^sup>*\<^sup>* s s' \<and> n \<le> length (c_recv s')"
  proof (cases "connected s")
    case False
    then obtain s1 where s1: "lev_session api bev inb outb conn s s1" "connected s1" using connects by blast
    with rounds [OF lev.sess_inv_step [OF s1(1) inv assms(1,2)] s1(2) assms(1-3), of n] show ?thesis
      by (meson converse_rtranclp_into_rtranclp)
  qed (use rounds [OF inv _ assms(1-3)] in blast)
  show "\<forall>i < length (c_recv s). c_recv s ! i = MSG ! (i mod 1024)"
  proof (cases "connected s")
    case True
    then show ?thesis using lev.session_repeats_message [OF start assms(5,6) _ assms(1,2)] by (simp add: MSG_def)
  qed (use inv in \<open>simp add: lev.sess_inv_def\<close>)
qed (use lev.session_repeats_message [OF conjI [OF assms(1,4)] assms(5,6) _ assms(1,2)] in \<open>simp add: under_way_def\<close>)

text \<open>A run of the example library up to the connection.\<close>

lemma demo_api_writes: "write_contract demo_api fst snd"
  by (simp add: write_contract_def demo_api_def)

lemma demo_library_moves: "library_moves fst (snd :: (ptr \<Rightarrow> byte list) \<times> (ptr \<Rightarrow> byte list) \<Rightarrow> _)"
  by (auto simp: library_moves_def)

theorem client_and_server_exchange_forever_witness:
  "\<exists>s. s2c s @ lev_held fst snd (srv s) 3 @ c2s s @ snd (cl s) 7 @ fst (cl s) 7 = MSG \<and>
    (\<exists>s'. (lev_session demo_api 7 fst snd 3)\<^sup>*\<^sup>* s s' \<and> 5000 \<le> length (c_recv s'))"
proof -
  let ?w = "(\<lambda>_. [], \<lambda>_. []) :: (ptr \<Rightarrow> byte list) \<times> (ptr \<Rightarrow> byte list)"
  let ?init = "\<lparr>cl = ?w, connected = False, c2s = [], s2c = [], c_sent = [], c_recv = [],
    srv = \<lparr>lw = ?w, lrx = \<lambda>_. [], ltx = \<lambda>_. []\<rparr>\<rparr>"
  let ?t = "?init\<lparr>cl := snd (bufferevent_write demo_api 7 MSG (cl ?init)), connected := True\<rparr>"
  have "lev_session demo_api 7 fst snd 3 ?init ?t"
    by (rule session_step.connect [where m = Connected_msg])
      (simp_all add: event_cb_def BEV_EVENT_EOF_def BEV_EVENT_ERROR_def BEV_EVENT_CONNECTED_def)
  then have "(lev_session demo_api 7 fst snd 3)\<^sup>*\<^sup>* ?init ?t" by simp
  from client_and_server_exchange_forever [OF demo_api_contract demo_api_writes demo_library_moves _ _ this, of 5000]
  show ?thesis by (intro exI [of _ ?t]) (simp add: lev_initial_def session_initial_def)
qed

text \<open>The same safety of the epoll server and of the Asio server.\<close>

theorem client_with_epoll_server:
  assumes "write_buffer_contract api inb outb" "write_contract api inb outb"
    and "ep_initial (srv s0)" "session_initial bev inb outb (\<lambda>t. rx t fd) (\<lambda>t. tx t fd) s0"
    and "(session_step api bev inb outb ep_step (\<lambda>t. rx t fd) (\<lambda>t. tx t fd))\<^sup>*\<^sup>* s0 s" and "connected s"
  shows "under_way bev inb outb (\<lambda>t. unsent t fd) s = rotate (length (c_recv s)) MSG \<and>
    (\<forall>i < length (c_recv s). c_recv s ! i = MSG ! (i mod length MSG))"
  by (rule ep.session_repeats_message [OF assms(3-6,1,2)])

theorem client_with_asio_server:
  assumes "write_buffer_contract api inb outb" "write_contract api inb outb"
    and "srv s0 = server_start" "session_initial bev inb outb (\<lambda>t. arx t sid) (\<lambda>t. atx t sid) s0"
    and "(session_step api bev inb outb (asio_step sft) (\<lambda>t. arx t sid) (\<lambda>t. atx t sid))\<^sup>*\<^sup>* s0 s" and "connected s"
  shows "under_way bev inb outb (\<lambda>t. as_held t sid) s = rotate (length (c_recv s)) MSG \<and>
    (\<forall>i < length (c_recv s). c_recv s ! i = MSG ! (i mod length MSG))"
  by (rule asio.session_repeats_message [OF assms(3-6,1,2)])

end
