(* ===== verification/Gtest_Linked_Ptr.thy ===== *)
theory Gtest_Linked_Ptr
  imports Prelude
begin

text \<open>
  The shared-ownership pointer of the bundled googletest (\<open>gtest/internal/gtest-linked_ptr.h\<close>),
  which gmock's matchers, expectations and parameter generators are held by. Every \<open>linked_ptr\<close>
  of an object is a node of a circular list; the pointer that leaves a circle of one deletes
  the object. The circles are kept in a heap of pointer nodes beside the set of live objects. The
  global mutex serialises the operations, so each is one step here. Main result: on every legal
  history of operations the circles implement reference counting.
\<close>

section \<open>Nodes and state\<close>

record linked_ptr =
  lp_value :: ptr
  lp_next :: ptr

record lp_state =
  lps :: "ptr \<rightharpoonup> linked_ptr"
  objs :: "ptr set"

text \<open>Updates of the two fields of a node; a node under construction is storage with no contents yet.\<close>

definition set_lp_next :: "ptr \<Rightarrow> ptr \<Rightarrow> lp_state \<Rightarrow> lp_state res" where
  "set_lp_next p q s = bindr (deref (lps s) p) (\<lambda>n. Inr (s\<lparr>lps := (lps s)(p \<mapsto> n\<lparr>lp_next := q\<rparr>)\<rparr>))"

definition set_lp_value :: "ptr \<Rightarrow> ptr \<Rightarrow> lp_state \<Rightarrow> lp_state res" where
  "set_lp_value p v s = bindr (deref (lps s) p) (\<lambda>n. Inr (s\<lparr>lps := (lps s)(p \<mapsto> n\<lparr>lp_value := v\<rparr>)\<rparr>))"

definition lp_storage :: "ptr \<Rightarrow> linked_ptr \<Rightarrow> lp_state \<Rightarrow> lp_state" where
  "lp_storage p garbage s = s\<lparr>lps := (lps s)(p \<mapsto> garbage)\<rparr>"

section \<open>linked_ptr_internal\<close>

definition join_new :: "ptr \<Rightarrow> lp_state \<Rightarrow> lp_state res" where
  "join_new this s = set_lp_next this this s"

text \<open>The loops of \<open>join\<close> and \<open>depart\<close>; \<open>None\<close> is a loop that never ends.\<close>

partial_function (option) join_loop :: "(ptr \<rightharpoonup> linked_ptr) \<Rightarrow> ptr \<Rightarrow> ptr \<Rightarrow> ptr \<Rightarrow> ptr res option" where
  "join_loop L this p0 p =
     (case deref L p of
        Inl e \<Rightarrow> Some (Inl e)
      | Inr n \<Rightarrow>
          if lp_next n = p0 then Some (Inr p)
          else if lp_next n = this then Some (Inl AssertFail)
          else join_loop L this p0 (lp_next n))"

definition join :: "ptr \<Rightarrow> ptr \<Rightarrow> lp_state \<Rightarrow> lp_state res option" where
  "join this p0 s = map_option (\<lambda>r. bindr r (\<lambda>p.
     bindr (set_lp_next p this s) (\<lambda>s1. set_lp_next this p0 s1))) (join_loop (lps s) this p0 p0)"

partial_function (option) depart_loop :: "(ptr \<rightharpoonup> linked_ptr) \<Rightarrow> ptr \<Rightarrow> ptr \<Rightarrow> ptr \<Rightarrow> ptr res option" where
  "depart_loop L this nxt p =
     (case deref L p of
        Inl e \<Rightarrow> Some (Inl e)
      | Inr n \<Rightarrow>
          if lp_next n = this then Some (Inr p)
          else if lp_next n = nxt then Some (Inl AssertFail)
          else depart_loop L this nxt (lp_next n))"

definition depart_ring :: "ptr \<Rightarrow> lp_state \<Rightarrow> (bool \<times> lp_state) res option" where
  "depart_ring this s =
     (case deref (lps s) this of
        Inl e \<Rightarrow> Some (Inl e)
      | Inr n \<Rightarrow>
          if lp_next n = this then Some (Inr (True, s))
          else map_option (\<lambda>r. bindr r (\<lambda>p.
                 bindr (set_lp_next p (lp_next n) s) (\<lambda>s1. Inr (False, s1))))
               (depart_loop (lps s) this (lp_next n) (lp_next n)))"

section \<open>linked_ptr\<close>

definition delete_obj :: "ptr \<Rightarrow> lp_state \<Rightarrow> lp_state res" where
  "delete_obj v s =
     (if v = NULL then Inr s
      else if v \<in> objs s then Inr (s\<lparr>objs := objs s - {v}\<rparr>)
      else Inl BadFree)"

definition lp_get :: "ptr \<Rightarrow> lp_state \<Rightarrow> ptr res" where
  "lp_get p s = bindr (deref (lps s) p) (\<lambda>n. Inr (lp_value n))"

definition lp_depart :: "ptr \<Rightarrow> lp_state \<Rightarrow> lp_state res option" where
  "lp_depart this s = map_option (\<lambda>r. bindr r (\<lambda>(last_one, s1).
     if last_one then bindr (lp_get this s1) (\<lambda>v. delete_obj v s1) else Inr s1)) (depart_ring this s)"

definition capture :: "ptr \<Rightarrow> ptr \<Rightarrow> lp_state \<Rightarrow> lp_state res" where
  "capture this v s = bindr (set_lp_value this v s) (\<lambda>s1. join_new this s1)"

definition lp_copy :: "ptr \<Rightarrow> ptr \<Rightarrow> lp_state \<Rightarrow> lp_state res option" where
  "lp_copy this src s =
     (case bindr (lp_get src s) (\<lambda>v. bindr (set_lp_value this v s) (\<lambda>s1. Inr (v, s1))) of
        Inl e \<Rightarrow> Some (Inl e)
      | Inr (v, s1) \<Rightarrow> if v \<noteq> NULL then join this src s1 else Some (join_new this s1))"

text \<open>Constructors, assignment, \<open>reset\<close> and the destructor.\<close>

definition lp_construct :: "ptr \<Rightarrow> linked_ptr \<Rightarrow> ptr \<Rightarrow> lp_state \<Rightarrow> lp_state res option" where
  "lp_construct this garbage v s = Some (capture this v (lp_storage this garbage s))"

definition lp_copy_construct :: "ptr \<Rightarrow> linked_ptr \<Rightarrow> ptr \<Rightarrow> lp_state \<Rightarrow> lp_state res option" where
  "lp_copy_construct this garbage src s =
     (if src = this then Some (Inl AssertFail) else lp_copy this src (lp_storage this garbage s))"

definition and_then :: "lp_state res option \<Rightarrow> (lp_state \<Rightarrow> lp_state res option) \<Rightarrow> lp_state res option" where
  "and_then m f = (case m of None \<Rightarrow> None | Some (Inl e) \<Rightarrow> Some (Inl e) | Some (Inr s) \<Rightarrow> f s)"

definition lp_assign :: "ptr \<Rightarrow> ptr \<Rightarrow> lp_state \<Rightarrow> lp_state res option" where
  "lp_assign this src s =
     (if src \<noteq> this then and_then (lp_depart this s) (lp_copy this src) else Some (Inr s))"

definition lp_reset :: "ptr \<Rightarrow> ptr \<Rightarrow> lp_state \<Rightarrow> lp_state res option" where
  "lp_reset this v s = and_then (lp_depart this s) (\<lambda>s1. Some (capture this v s1))"

definition lp_destroy :: "ptr \<Rightarrow> lp_state \<Rightarrow> lp_state res option" where
  "lp_destroy this s = and_then (lp_depart this s) (\<lambda>s1. Some (Inr (s1\<lparr>lps := (lps s1)(this := None)\<rparr>)))"

definition lp_eq_raw :: "ptr \<Rightarrow> ptr \<Rightarrow> lp_state \<Rightarrow> bool res" where
  "lp_eq_raw p v s = bindr (lp_get p s) (\<lambda>w. Inr (w = v))"

definition lp_eq :: "ptr \<Rightarrow> ptr \<Rightarrow> lp_state \<Rightarrow> bool res" where
  "lp_eq p q s = bindr (lp_get p s) (\<lambda>v. bindr (lp_get q s) (\<lambda>w. Inr (v = w)))"

lemma and_then_simps [simp]:
  "and_then None f = None"
  "and_then (Some (Inl e)) f = Some (Inl e)"
  "and_then (Some (Inr s)) f = f s"
  by (simp_all add: and_then_def)

section \<open>Reference counting, the contract\<close>

text \<open>The owners of every object, by pointer, and the objects that are live.\<close>

record refcount =
  owns :: "ptr \<rightharpoonup> ptr"
  alive :: "ptr set"

definition release :: "ptr \<Rightarrow> refcount \<Rightarrow> refcount" where
  "release p r =
     (case owns r p of
        None \<Rightarrow> r
      | Some v \<Rightarrow>
          let rest = (owns r)(p := None)
          in if v = NULL \<or> v \<in> ran rest then r\<lparr>owns := rest\<rparr>
             else r\<lparr>owns := rest, alive := alive r - {v}\<rparr>)"

definition hold :: "ptr \<Rightarrow> ptr \<Rightarrow> refcount \<Rightarrow> refcount" where
  "hold p v r = r\<lparr>owns := (owns r)(p \<mapsto> v)\<rparr>"

datatype lp_op =
    Construct ptr linked_ptr ptr
  | CopyConstruct ptr linked_ptr ptr
  | Assign ptr ptr
  | Reset ptr ptr
  | Destroy ptr

fun lp_step :: "lp_op \<Rightarrow> lp_state \<Rightarrow> lp_state res option" where
  "lp_step (Construct p g v) s = lp_construct p g v s"
| "lp_step (CopyConstruct p g q) s = lp_copy_construct p g q s"
| "lp_step (Assign p q) s = lp_assign p q s"
| "lp_step (Reset p v) s = lp_reset p v s"
| "lp_step (Destroy p) s = lp_destroy p s"

fun rc_step :: "lp_op \<Rightarrow> refcount \<Rightarrow> refcount" where
  "rc_step (Construct p g v) r = hold p v r"
| "rc_step (CopyConstruct p g q) r = hold p (the (owns r q)) r"
| "rc_step (Assign p q) r = (if p = q then r else hold p (the (owns r q)) (release p r))"
| "rc_step (Reset p v) r = hold p v (release p r)"
| "rc_step (Destroy p) r = release p r"

text \<open>
  What the callers keep to: a pointer is constructed in unused storage and used only while it
  exists, and a raw pointer handed over is NULL or a live object nothing owns yet.
\<close>

definition unowned :: "ptr \<Rightarrow> refcount \<Rightarrow> bool" where
  "unowned v r \<longleftrightarrow> v = NULL \<or> v \<in> alive r \<and> v \<notin> ran (owns r)"

fun lp_legal :: "lp_op \<Rightarrow> refcount \<Rightarrow> bool" where
  "lp_legal (Construct p g v) r \<longleftrightarrow> p \<noteq> NULL \<and> owns r p = None \<and> unowned v r"
| "lp_legal (CopyConstruct p g q) r \<longleftrightarrow> p \<noteq> NULL \<and> owns r p = None \<and> owns r q \<noteq> None"
| "lp_legal (Assign p q) r \<longleftrightarrow> owns r p \<noteq> None \<and> owns r q \<noteq> None"
| "lp_legal (Reset p v) r \<longleftrightarrow> owns r p \<noteq> None \<and> unowned v r"
| "lp_legal (Destroy p) r \<longleftrightarrow> owns r p \<noteq> None"

fun lp_run :: "lp_op list \<Rightarrow> lp_state \<Rightarrow> lp_state res option" where
  "lp_run [] s = Some (Inr s)"
| "lp_run (op # ops) s = and_then (lp_step op s) (lp_run ops)"

fun rc_run :: "lp_op list \<Rightarrow> refcount \<Rightarrow> refcount" where
  "rc_run [] r = r"
| "rc_run (op # ops) r = rc_run ops (rc_step op r)"

fun lp_legal_run :: "lp_op list \<Rightarrow> refcount \<Rightarrow> bool" where
  "lp_legal_run [] r \<longleftrightarrow> True"
| "lp_legal_run (op # ops) r \<longleftrightarrow> lp_legal op r \<and> lp_legal_run ops (rc_step op r)"

definition abs_lp :: "lp_state \<Rightarrow> refcount" where
  "abs_lp s = \<lparr>owns = (\<lambda>p. map_option lp_value (lps s p)), alive = objs s\<rparr>"

section \<open>Circles\<close>

fun seg :: "(ptr \<rightharpoonup> linked_ptr) \<Rightarrow> ptr \<Rightarrow> ptr list \<Rightarrow> ptr \<Rightarrow> bool" where
  "seg L p [] q \<longleftrightarrow> p = q"
| "seg L p (x # xs) q \<longleftrightarrow> p = x \<and> (\<exists>n. L x = Some n \<and> seg L (lp_next n) xs q)"

definition owners :: "(ptr \<rightharpoonup> linked_ptr) \<Rightarrow> ptr \<Rightarrow> ptr set" where
  "owners L v = {q. \<exists>n. L q = Some n \<and> lp_value n = v}"

definition circle :: "(ptr \<rightharpoonup> linked_ptr) \<Rightarrow> ptr list \<Rightarrow> bool" where
  "circle L xs \<longleftrightarrow> xs \<noteq> [] \<and> distinct xs \<and> seg L (hd xs) xs (hd xs)"

text \<open>
  The invariant: the owners of each object form one circle and the object is live; a null
  pointer is in a circle of its own.
\<close>

definition lp_wf :: "lp_state \<Rightarrow> bool" where
  "lp_wf s \<longleftrightarrow> lps s NULL = None
     \<and> (\<forall>p n. lps s p = Some n \<longrightarrow> lp_value n = NULL \<longrightarrow> lp_next n = p)
     \<and> (\<forall>v. v \<noteq> NULL \<longrightarrow> owners (lps s) v \<noteq> {} \<longrightarrow>
          v \<in> objs s \<and> (\<exists>xs. circle (lps s) xs \<and> set xs = owners (lps s) v))"

lemma seg_append: "seg L p (xs @ ys) q \<longleftrightarrow> (\<exists>r. seg L p xs r \<and> seg L r ys q)"
  by (induction xs arbitrary: p) auto

lemma seg_frame: "seg L p xs q \<Longrightarrow> (\<And>x. x \<in> set xs \<Longrightarrow> L' x = L x) \<Longrightarrow> seg L' p xs q"
  by (induction xs arbitrary: p) auto

lemma seg_retarget:
  assumes "seg L p (ys @ [l]) q" "l \<notin> set ys" "L l = Some n"
  shows "seg (L(l \<mapsto> n\<lparr>lp_next := r\<rparr>)) p (ys @ [l]) r"
  using assms by (auto simp: seg_append intro!: exI[of _ l] elim!: seg_frame)

lemma circle_from:
  assumes "circle L xs" "p \<in> set xs"
  shows "\<exists>ys. circle L (p # ys) \<and> set (p # ys) = set xs"
proof -
  obtain as bs where xs: "xs = as @ p # bs" using assms(2) by (meson split_list)
  have "seg L p (p # bs) (hd xs)" "seg L (hd xs) as p"
    using assms(1) by (auto simp: circle_def xs seg_append)
  then have "seg L p (p # bs @ as) p" by (auto simp: seg_append)
  then show ?thesis using assms(1) by (auto simp: circle_def xs intro!: exI[of _ "bs @ as"])
qed

lemma join_loop_seg:
  "seg L p (p # xs) e \<Longrightarrow> NULL \<notin> set (p # xs) \<Longrightarrow> e \<notin> set xs \<Longrightarrow> t \<notin> set xs \<Longrightarrow>
     join_loop L t e p = Some (Inr (last (p # xs)))"
proof (induction xs arbitrary: p)
  case Nil
  then show ?case by (subst join_loop.simps) auto
next
  case (Cons x xs)
  then obtain n where n: "L p = Some n" "lp_next n = x" "seg L x (x # xs) e" by auto
  with Cons.prems have "join_loop L t e p = join_loop L t e x"
    by (subst join_loop.simps) auto
  then show ?case using Cons.IH [OF n(3)] Cons.prems by simp
qed

lemma depart_loop_seg:
  "seg L p (p # xs) e \<Longrightarrow> NULL \<notin> set (p # xs) \<Longrightarrow> e \<notin> set xs \<Longrightarrow> t \<notin> set xs \<Longrightarrow>
     depart_loop L e t p = Some (Inr (last (p # xs)))"
proof (induction xs arbitrary: p)
  case Nil
  then show ?case by (subst depart_loop.simps) auto
next
  case (Cons x xs)
  then obtain n where n: "L p = Some n" "lp_next n = x" "seg L x (x # xs) e" by auto
  with Cons.prems have "depart_loop L e t p = depart_loop L e t x"
    by (subst depart_loop.simps) auto
  then show ?case using Cons.IH [OF n(3)] Cons.prems by simp
qed

lemma lp_wf_circle:
  assumes "lp_wf s" "lps s p = Some n" "lp_value n \<noteq> NULL"
  shows "lp_value n \<in> objs s"
    and "\<exists>ys. circle (lps s) (p # ys) \<and> set (p # ys) = owners (lps s) (lp_value n)"
proof -
  have p: "p \<in> owners (lps s) (lp_value n)" using assms by (auto simp: owners_def)
  then have ne: "owners (lps s) (lp_value n) \<noteq> {}" by blast
  show "lp_value n \<in> objs s" using assms(1,3) ne unfolding lp_wf_def by blast
  obtain xs where "circle (lps s) xs" "set xs = owners (lps s) (lp_value n)"
    using assms(1,3) ne unfolding lp_wf_def by blast
  then show "\<exists>ys. circle (lps s) (p # ys) \<and> set (p # ys) = owners (lps s) (lp_value n)"
    using circle_from p by metis
qed

lemma owners_live: "q \<in> owners L v \<Longrightarrow> \<exists>n. L q = Some n \<and> lp_value n = v"
  by (auto simp: owners_def)

lemma circle_live: "seg L p xs q \<Longrightarrow> x \<in> set xs \<Longrightarrow> \<exists>n. L x = Some n"
  by (induction xs arbitrary: p) auto

lemma circle_frame: "circle L xs \<Longrightarrow> (\<And>x. x \<in> set xs \<Longrightarrow> L' x = L x) \<Longrightarrow> circle L' xs"
  by (auto simp: circle_def elim!: seg_frame)

text \<open>Changing only the class of one object keeps the invariant of all the others.\<close>

lemma lp_wf_class:
  assumes wf: "lp_wf s" and v: "v \<noteq> NULL" and null: "L NULL = None"
    and out: "\<And>x. x \<notin> owners (lps s) v \<Longrightarrow> x \<noteq> p \<Longrightarrow> L x = lps s x"
    and cls: "\<And>x n. x \<in> owners (lps s) v \<or> x = p \<Longrightarrow> L x = Some n \<Longrightarrow> lp_value n = v"
    and p: "lps s p = None \<or> p \<in> owners (lps s) v"
    and ring: "owners L v \<noteq> {} \<Longrightarrow> v \<in> O' \<and> (\<exists>xs. circle L xs \<and> set xs = owners L v)"
    and O: "objs s - {v} \<subseteq> O'"
  shows "lp_wf \<lparr>lps = L, objs = O'\<rparr>"
proof -
  have other: "owners L w = owners (lps s) w" if "w \<noteq> v" for w
  proof -
    have "(\<exists>n. L x = Some n \<and> lp_value n = w) \<longleftrightarrow> (\<exists>n. lps s x = Some n \<and> lp_value n = w)" for x
    proof (cases "x \<in> owners (lps s) v \<or> x = p")
      case True
      then have "lps s x = None \<or> x \<in> owners (lps s) v" using p by auto
      then show ?thesis using cls [OF True] that by (auto simp: owners_def)
    next
      case False
      then show ?thesis using out [of x] by simp
    qed
    then show ?thesis by (auto simp: owners_def)
  qed
  have same: "L x = lps s x" if "x \<in> owners (lps s) w" "w \<noteq> v" for x w
    using that out [of x] p by (cases "x = p") (auto simp: owners_def)
  have null_next: "lp_next n = x" if "L x = Some n" "lp_value n = NULL" for x n
  proof -
    have x: "x \<in> owners (lps s) NULL" using that other [of NULL] v by (auto simp: owners_def)
    then have "lps s x = Some n" using same [OF x] that v by simp
    then show ?thesis using wf that by (auto simp: lp_wf_def)
  qed
  have cl: "w \<in> O' \<and> (\<exists>xs. circle L xs \<and> set xs = owners L w)"
    if w: "w \<noteq> NULL" and ne: "owners L w \<noteq> {}" for w
  proof (cases "w = v")
    case True
    then show ?thesis using ring ne by simp
  next
    case False
    then obtain xs where xs: "w \<in> objs s" "circle (lps s) xs" "set xs = owners (lps s) w"
      using wf w ne other [OF False] unfolding lp_wf_def by metis
    have "circle L xs" using xs same False by (blast intro: circle_frame)
    then show ?thesis using xs other [OF False] O False by auto
  qed
  show ?thesis using null null_next cl by (simp add: lp_wf_def)
qed

lemma abs_lp_storage: "lps s p = None \<Longrightarrow>
    abs_lp (lp_storage p g s) = hold p (lp_value g) (abs_lp s)"
  by (auto simp: abs_lp_def lp_storage_def hold_def)

lemma ran_abs_lp: "v \<in> ran (owns (abs_lp s)) \<longleftrightarrow> owners (lps s) v \<noteq> {}"
  by (auto simp: ran_def abs_lp_def owners_def)

lemma capture_storage:
  assumes "p \<noteq> NULL"
  shows "capture p v (lp_storage p g s) =
    Inr \<lparr>lps = (lps s)(p \<mapsto> \<lparr>lp_value = v, lp_next = p\<rparr>), objs = objs s\<rparr>"
  using assms by (cases g) (simp add: capture_def set_lp_value_def join_new_def set_lp_next_def lp_storage_def)

lemma capture_refines:
  assumes wf: "lp_wf s" and p: "p \<noteq> NULL" "lps s p = None" and v: "unowned v (abs_lp s)"
  shows "\<exists>s'. capture p v (lp_storage p g s) = Inr s' \<and> lp_wf s' \<and> abs_lp s' = hold p v (abs_lp s)"
proof -
  let ?L = "(lps s)(p \<mapsto> \<lparr>lp_value = v, lp_next = p\<rparr>)"
  let ?s = "\<lparr>lps = ?L, objs = objs s\<rparr>"
  have "lp_wf ?s"
  proof (cases "v = NULL")
    case True
    have fr: "owners ?L w = owners (lps s) w" if "w \<noteq> NULL" for w
      using that p True by (auto simp: owners_def)
    have cf: "circle ?L xs" if "circle (lps s) xs" "set xs = owners (lps s) w" for xs w
      using that p by (auto intro!: circle_frame [OF that(1)] simp: owners_def)
    have "w \<in> objs s \<and> (\<exists>xs. circle ?L xs \<and> set xs = owners ?L w)"
      if "w \<noteq> NULL" "owners ?L w \<noteq> {}" for w
    proof -
      have "w \<in> objs s" "\<exists>xs. circle (lps s) xs \<and> set xs = owners (lps s) w"
        using wf that fr [OF that(1)] by (simp_all add: lp_wf_def)
      then show ?thesis using cf fr [OF that(1)] by auto
    qed
    then show ?thesis using wf p True by (simp add: lp_wf_def)
  next
    case False
    then have none: "owners (lps s) v = {}" and ob: "v \<in> objs s"
      using v ran_abs_lp [of v s] by (auto simp: unowned_def abs_lp_def)
    have "circle ?L [p]" "owners ?L v = {p}" using p none by (auto simp: circle_def owners_def)
    then show ?thesis using wf False p none ob
      by (intro lp_wf_class [of s v _ p]) (auto simp: lp_wf_def intro!: exI [of _ "[p]"])
  qed
  then show ?thesis using capture_storage [OF p(1)] p(2) by (auto simp: abs_lp_def hold_def)
qed

lemma lp_copy_refines:
  assumes wf: "lp_wf s" and p: "p \<noteq> NULL" "lps s p = None" and q: "lps s q = Some n"
  shows "\<exists>s'. lp_copy p q (lp_storage p g s) = Some (Inr s') \<and> lp_wf s' \<and>
    abs_lp s' = hold p (lp_value n) (abs_lp s)"
proof -
  have qN: "q \<noteq> NULL" "q \<noteq> p" using wf p q by (metis lp_wf_def option.distinct(1))+
  let ?v = "lp_value n"
  let ?s1 = "lp_storage p (g\<lparr>lp_value := ?v\<rparr>) s"
  have cp: "lp_copy p q (lp_storage p g s) = (if ?v \<noteq> NULL then join p q ?s1 else Some (join_new p ?s1))"
    using p q qN by (simp add: lp_copy_def lp_get_def set_lp_value_def lp_storage_def)
  show ?thesis
  proof (cases "?v = NULL")
    case True
    then have "capture p NULL (lp_storage p g s) = join_new p ?s1"
      using p by (simp add: capture_def set_lp_value_def lp_storage_def)
    then show ?thesis using cp capture_refines [OF wf p, of NULL g] True by (auto simp: unowned_def)
  next
    case False
    obtain ys where ys: "circle (lps s) (q # ys)" "set (q # ys) = owners (lps s) ?v" "?v \<in> objs s"
      using lp_wf_circle [OF wf q False] by blast
    obtain zs l where zl: "q # ys = zs @ [l]" by (metis list.distinct(1) rev_exhaust)
    have l: "last (q # ys) = l" "l \<in> owners (lps s) ?v" using ys(2) by (simp_all add: zl flip: ys(2))
    obtain nl where nl: "lps s l = Some nl" "lp_value nl = ?v" using owners_live [OF l(2)] by auto
    have pn: "p \<notin> set (q # ys)" using ys(2) p by (auto simp: owners_def)
    have nn: "NULL \<notin> set (q # ys)" using ys(2) wf by (auto simp: owners_def lp_wf_def)
    have lN: "l \<noteq> NULL" "l \<noteq> p" using nn pn zl by (metis in_set_conv_decomp)+
    have dist: "distinct (q # ys)" using ys by (simp add: circle_def)
    have sg: "seg (lps s) q (q # ys) q" using ys by (simp add: circle_def)
    have sg1: "seg (lps ?s1) q (q # ys) q"
      by (rule seg_frame [OF sg]) (use pn in \<open>auto simp: lp_storage_def\<close>)
    have lp: "join_loop (lps ?s1) p q q = Some (Inr l)"
      using join_loop_seg [OF sg1 nn] dist pn l by auto
    let ?L = "(lps s)(l \<mapsto> nl\<lparr>lp_next := p\<rparr>, p \<mapsto> \<lparr>lp_value = ?v, lp_next = q\<rparr>)"
    have jn: "join p q ?s1 = Some (Inr \<lparr>lps = ?L, objs = objs s\<rparr>)"
      using lp nl lN p by (cases g)
        (simp add: join_def set_lp_next_def lp_storage_def fun_upd_twist)
    have "seg ((lps s)(l \<mapsto> nl\<lparr>lp_next := p\<rparr>)) q (zs @ [l]) p"
      using seg_retarget [of "lps s" q zs l q nl p] sg dist zl nl by (metis distinct_append not_distinct_conv_prefix)
    then have "seg ?L q (q # ys) p"
      unfolding zl by (rule seg_frame) (use pn zl in auto)
    then have "circle ?L (q # ys @ [p])"
      using dist pn by (auto simp: circle_def seg_append)
    moreover have "owners ?L ?v = set (q # ys @ [p])"
      using ys(2) nl lN by (auto simp: owners_def)
    moreover have "lp_value m = ?v" if "x \<in> owners (lps s) ?v \<or> x = p" "?L x = Some m" for x m
      using that nl by (auto simp: owners_def split: if_splits)
    moreover have "?L x = lps s x" if "x \<notin> owners (lps s) ?v" "x \<noteq> p" for x
      using that l(2) by auto
    moreover have "?L NULL = None" using lN p wf by (simp add: lp_wf_def)
    ultimately have "lp_wf \<lparr>lps = ?L, objs = objs s\<rparr>"
      using wf p False ys(3) by (intro lp_wf_class [of s ?v _ p]) blast+
    then show ?thesis using cp jn False nl lN by (auto simp: abs_lp_def hold_def)
  qed
qed

lemma lp_wf_drop_null:
  assumes wf: "lp_wf s" and p: "lps s p = Some n" "lp_value n = NULL"
  shows "lp_wf (s\<lparr>lps := (lps s)(p := None)\<rparr>)"
proof -
  let ?L = "(lps s)(p := None)"
  have fr: "owners ?L w = owners (lps s) w" if "w \<noteq> NULL" for w
    using that p by (auto simp: owners_def)
  have "w \<in> objs s \<and> (\<exists>xs. circle ?L xs \<and> set xs = owners ?L w)"
    if w: "w \<noteq> NULL" "owners ?L w \<noteq> {}" for w
  proof -
    obtain xs where xs: "w \<in> objs s" "circle (lps s) xs" "set xs = owners (lps s) w"
      using wf w fr [OF w(1)] unfolding lp_wf_def by metis
    have "p \<notin> set xs" using xs(3) p w(1) by (auto simp: owners_def)
    then have "circle ?L xs" by (intro circle_frame [OF xs(2)]) auto
    then show ?thesis using xs fr [OF w(1)] by auto
  qed
  then show ?thesis using wf by (simp add: lp_wf_def)
qed

lemma release_abs:
  assumes "lps s p = Some n"
  shows "release p (abs_lp s) =
    \<lparr>owns = (\<lambda>q. map_option lp_value (lps s q))(p := None),
     alive = (if lp_value n = NULL \<or> owners ((lps s)(p := None)) (lp_value n) \<noteq> {} then objs s
              else objs s - {lp_value n})\<rparr>"
proof -
  have "v \<in> ran ((\<lambda>q. map_option lp_value (lps s q))(p := None)) \<longleftrightarrow>
      owners ((lps s)(p := None)) v \<noteq> {}" for v
    by (auto simp: ran_def owners_def split: if_splits)
  then show ?thesis using assms by (auto simp: release_def abs_lp_def Let_def)
qed

text \<open>Departing leaves the node's storage behind and is a release for everybody else.\<close>

lemma depart_last:
  assumes wf: "lp_wf s" and p: "lps s p = Some n" and nx: "lp_next n = p"
    and v: "lp_value n \<noteq> NULL" and ow: "owners (lps s) (lp_value n) = {p}"
  shows "\<exists>s' g. lp_wf s' \<and> lps s' p = None \<and> lp_depart p s = Some (Inr (lp_storage p g s')) \<and>
    abs_lp s' = release p (abs_lp s)"
proof -
  let ?s = "\<lparr>lps = (lps s)(p := None), objs = objs s - {lp_value n}\<rparr>"
  have ob: "lp_value n \<in> objs s" using lp_wf_circle(1) [OF wf p v] .
  have pN: "p \<noteq> NULL" using wf p by (metis lp_wf_def option.distinct(1))
  have none: "owners ((lps s)(p := None)) (lp_value n) = {}"
    using ow by (auto simp: owners_def)
  have "lp_wf ?s"
    using wf v ow none by (intro lp_wf_class [of s "lp_value n" _ p]) (auto simp: lp_wf_def)
  moreover have "lp_depart p s = Some (Inr (lp_storage p n ?s))"
    using p pN nx v ob
    by (auto simp: lp_depart_def depart_ring_def lp_get_def delete_obj_def lp_storage_def fun_upd_idem)
  moreover have "abs_lp ?s = release p (abs_lp s)"
    unfolding release_abs [OF p] using none v by (auto simp: abs_lp_def)
  ultimately show ?thesis by (intro exI [of _ ?s] exI [of _ n]) simp
qed

lemma depart_shared:
  assumes wf: "lp_wf s" and p: "lps s p = Some n" and v: "lp_value n \<noteq> NULL"
    and cir: "circle (lps s) (p # x # zs)" "set (p # x # zs) = owners (lps s) (lp_value n)"
  shows "\<exists>s' g. lp_wf s' \<and> lps s' p = None \<and> lp_depart p s = Some (Inr (lp_storage p g s')) \<and>
    abs_lp s' = release p (abs_lp s)"
proof -
  let ?v = "lp_value n"
  obtain ws l where wl: "x # zs = ws @ [l]" by (metis list.distinct(1) rev_exhaust)
  have dist: "distinct (p # x # zs)" and sg: "seg (lps s) p (p # x # zs) p"
    using cir(1) by (simp_all add: circle_def)
  have nx: "lp_next n = x" and sgx: "seg (lps s) x (x # zs) p" using sg p by auto
  have nn: "NULL \<notin> set (p # x # zs)" using cir(2) wf by (auto simp: owners_def lp_wf_def)
  have lset: "l \<in> set (x # zs)" by (simp add: wl)
  have l: "l \<in> owners (lps s) ?v" using lset cir(2) by auto
  have lN: "l \<noteq> NULL" "l \<noteq> p" using lset nn dist by (metis list.set_intros(2), auto)
  obtain nl where nl: "lps s l = Some nl" "lp_value nl = ?v" using owners_live [OF l] by auto
  have lp: "depart_loop (lps s) p x x = Some (Inr l)"
    using depart_loop_seg [OF sgx] nn dist wl by (metis distinct.simps(2) last_snoc list.set_intros(2))
  let ?L1 = "(lps s)(l \<mapsto> nl\<lparr>lp_next := x\<rparr>)"
  let ?L = "?L1(p := None)"
  let ?s = "\<lparr>lps = ?L, objs = objs s\<rparr>"
  have dp: "lp_depart p s = Some (Inr (lp_storage p n ?s))"
  proof -
    have "p \<noteq> NULL" "x \<noteq> p" using nn dist by auto
    then show ?thesis using p nx lp lN nl
      by (simp add: lp_depart_def depart_ring_def set_lp_next_def lp_storage_def fun_upd_idem)
  qed
  have "seg ?L1 x (ws @ [l]) x"
    using seg_retarget [of "lps s" x ws l p nl x] sgx dist wl nl
    by (metis distinct.simps(2) distinct_append not_distinct_conv_prefix)
  then have "seg ?L x (x # zs) x"
    unfolding wl by (rule seg_frame) (use dist wl in auto)
  then have "circle ?L (x # zs)" using dist by (simp add: circle_def)
  moreover have own: "owners ?L ?v = set (x # zs)"
    using cir(2) nl lN dist by (auto simp: owners_def)
  moreover have "?v \<in> objs s" using lp_wf_circle(1) [OF wf p v] .
  moreover have "lp_value m = ?v" if "q \<in> owners (lps s) ?v \<or> q = p" "?L q = Some m" for q m
    using that nl by (auto simp: owners_def split: if_splits)
  moreover have "?L q = lps s q" if "q \<notin> owners (lps s) ?v" "q \<noteq> p" for q
    using that l by auto
  moreover have "?L NULL = None" using lN wf by (simp add: lp_wf_def)
  moreover have "p \<in> owners (lps s) ?v" using p by (simp add: owners_def)
  ultimately have "lp_wf ?s"
    using wf v by (intro lp_wf_class [of s ?v _ p]) blast+
  moreover have "abs_lp ?s = release p (abs_lp s)"
  proof -
    have "x \<in> owners ((lps s)(p := None)) ?v" using cir(2) dist by (auto simp: owners_def)
    then have "owners ((lps s)(p := None)) ?v \<noteq> {}" by blast
    then show ?thesis unfolding release_abs [OF p] using nl by (auto simp: abs_lp_def)
  qed
  ultimately show ?thesis using dp by (intro exI [of _ ?s] exI [of _ n]) simp
qed

lemma lp_depart_refines:
  assumes wf: "lp_wf s" and p: "lps s p = Some n"
  shows "\<exists>s' g. lp_wf s' \<and> lps s' p = None \<and> lp_depart p s = Some (Inr (lp_storage p g s')) \<and>
    abs_lp s' = release p (abs_lp s)"
proof (cases "lp_value n = NULL")
  case True
  have pN: "p \<noteq> NULL" using wf p by (metis lp_wf_def option.distinct(1))
  have "lp_next n = p" using wf p True by (auto simp: lp_wf_def)
  then have "lp_depart p s = Some (Inr (lp_storage p n (s\<lparr>lps := (lps s)(p := None)\<rparr>)))"
    using p pN True
    by (auto simp: lp_depart_def depart_ring_def lp_get_def delete_obj_def lp_storage_def fun_upd_idem)
  moreover have "abs_lp (s\<lparr>lps := (lps s)(p := None)\<rparr>) = release p (abs_lp s)"
    unfolding release_abs [OF p] using True by (auto simp: abs_lp_def)
  ultimately show ?thesis using lp_wf_drop_null [OF wf p True]
    by (intro exI [of _ "s\<lparr>lps := (lps s)(p := None)\<rparr>"] exI [of _ n]) simp
next
  case False
  then obtain ys where ys: "circle (lps s) (p # ys)" "set (p # ys) = owners (lps s) (lp_value n)"
    using lp_wf_circle(2) [OF wf p] by blast
  show ?thesis
  proof (cases ys)
    case Nil
    then have "lp_next n = p" using ys p by (simp add: circle_def)
    then show ?thesis using depart_last [OF wf p _ False] ys Nil by simp
  next
    case (Cons x zs)
    then show ?thesis using depart_shared [OF wf p False] ys by simp
  qed
qed

section \<open>Refinement\<close>

lemma lp_departE:
  assumes "lp_wf s" and "lps s p = Some n"
  obtains s1 g where "p \<noteq> NULL" and "lp_wf s1" and "lps s1 p = None"
    and "lp_depart p s = Some (Inr (lp_storage p g s1))" and "abs_lp s1 = release p (abs_lp s)"
proof -
  have "p \<noteq> NULL" using assms by (metis lp_wf_def option.distinct(1))
  with lp_depart_refines [OF assms] that show thesis by blast
qed

lemma lp_assign_refines:
  assumes wf: "lp_wf s" and n: "lps s p = Some n" and m: "lps s q = Some m" and "p \<noteq> q"
  shows "\<exists>s'. lp_step (Assign p q) s = Some (Inr s') \<and> lp_wf s' \<and>
    abs_lp s' = rc_step (Assign p q) (abs_lp s)"
proof -
  obtain s1 g where s1: "p \<noteq> NULL" "lp_wf s1" "lps s1 p = None"
      "lp_depart p s = Some (Inr (lp_storage p g s1))" "abs_lp s1 = release p (abs_lp s)"
    using lp_departE [OF wf n] .
  have "owns (abs_lp s1) q = owns (abs_lp s) q"
    unfolding s1(5) release_abs [OF n] using assms(4) by (simp add: abs_lp_def)
  then obtain m' where m': "lps s1 q = Some m'" "lp_value m' = lp_value m"
    using m by (auto simp: abs_lp_def)
  have "owns (abs_lp s) q = Some (lp_value m)" using m by (simp add: abs_lp_def)
  then show ?thesis
    using lp_copy_refines [OF s1(2,1,3) m'(1), of g] assms(4) s1 m m'
    by (auto simp: lp_assign_def)
qed

lemma lp_step_refines:
  assumes wf: "lp_wf s" and leg: "lp_legal op (abs_lp s)"
  shows "\<exists>s'. lp_step op s = Some (Inr s') \<and> lp_wf s' \<and> abs_lp s' = rc_step op (abs_lp s)"
proof (cases op)
  case (Construct p g v)
  then show ?thesis using capture_refines [OF wf, of p v g] leg
    by (auto simp: lp_construct_def abs_lp_def)
next
  case (CopyConstruct p g q)
  then obtain n where n: "lps s q = Some n" "lps s p = None" "p \<noteq> NULL"
    using leg by (auto simp: abs_lp_def)
  then have "q \<noteq> p" by auto
  with n show ?thesis using lp_copy_refines [OF wf, of p q n g] CopyConstruct
    by (auto simp: lp_copy_construct_def abs_lp_def)
next
  case (Assign p q)
  then obtain n m where "lps s p = Some n" "lps s q = Some m"
    using leg by (auto simp: abs_lp_def)
  then show ?thesis
    using lp_assign_refines [OF wf, of p n q m] Assign wf by (cases "p = q") (simp_all add: lp_assign_def)
next
  case (Reset p v)
  then obtain n where n: "lps s p = Some n" using leg by (auto simp: abs_lp_def)
  obtain s1 g where s1: "p \<noteq> NULL" "lp_wf s1" "lps s1 p = None"
      "lp_depart p s = Some (Inr (lp_storage p g s1))" "abs_lp s1 = release p (abs_lp s)"
    using lp_departE [OF wf n] .
  have "unowned v (abs_lp s1)"
    using leg Reset n unfolding s1(5) release_abs [OF n]
    by (auto simp: unowned_def abs_lp_def ran_def split: if_splits)
  then show ?thesis using capture_refines [OF s1(2,1,3), of v g] Reset s1
    by (auto simp: lp_reset_def)
next
  case (Destroy p)
  then obtain n where n: "lps s p = Some n" using leg by (auto simp: abs_lp_def)
  obtain s1 g where "lp_wf s1" "lps s1 p = None" "lp_depart p s = Some (Inr (lp_storage p g s1))"
      "abs_lp s1 = release p (abs_lp s)"
    using lp_departE [OF wf n] .
  then show ?thesis using Destroy by (simp add: lp_destroy_def lp_storage_def fun_upd_idem)
qed

lemma lp_run_refines:
  "lp_wf s \<Longrightarrow> lp_legal_run ops (abs_lp s) \<Longrightarrow>
     \<exists>s'. lp_run ops s = Some (Inr s') \<and> lp_wf s' \<and> abs_lp s' = rc_run ops (abs_lp s)"
proof (induction ops arbitrary: s)
  case (Cons op ops)
  then obtain s1 where "lp_step op s = Some (Inr s1)" "lp_wf s1" "abs_lp s1 = rc_step op (abs_lp s)"
    using lp_step_refines [of s op] by auto
  then show ?case using Cons.IH [of s1] Cons.prems by simp
qed simp

definition lp_start :: "ptr set \<Rightarrow> lp_state" where
  "lp_start O' = \<lparr>lps = Map.empty, objs = O'\<rparr>"

lemma lp_wf_start: "lp_wf (lp_start A)"
  by (simp add: lp_wf_def lp_start_def owners_def)

text \<open>C20: Every legal history of constructions, copies, assignments, resets and destructions of
  \<open>linked_ptr\<close>s returns without a failed assertion, a bad access or a double delete, and it leaves
  exactly the owners and the live objects that reference counting prescribes; whatever a pointer
  still owns is live.\<close>

theorem linked_ptr_counts_references:
  assumes "lp_legal_run ops \<lparr>owns = Map.empty, alive = A\<rparr>"
  shows "\<exists>s. lp_run ops (lp_start A) = Some (Inr s)
    \<and> abs_lp s = rc_run ops \<lparr>owns = Map.empty, alive = A\<rparr>
    \<and> (\<forall>p v. lp_get p s = Inr v \<longrightarrow> v = NULL \<or> v \<in> objs s)"
proof -
  have start: "abs_lp (lp_start A) = \<lparr>owns = Map.empty, alive = A\<rparr>"
    by (simp add: abs_lp_def lp_start_def)
  obtain s where s: "lp_run ops (lp_start A) = Some (Inr s)" "lp_wf s"
      "abs_lp s = rc_run ops \<lparr>owns = Map.empty, alive = A\<rparr>"
    using lp_run_refines [OF lp_wf_start, of ops A] assms start by auto
  have "v = NULL \<or> v \<in> objs s" if g: "lp_get p s = Inr v" for p v
  proof -
    obtain n where "lps s p = Some n" "lp_value n = v"
      using g by (auto simp: lp_get_def bindr_eq_Inr deref_Inr)
    then show ?thesis using lp_wf_circle(1) [OF s(2)] by blast
  qed
  then show ?thesis using s by blast
qed

theorem linked_ptr_counts_references_witness:
  "\<exists>s. lp_run [Construct 1 \<lparr>lp_value = 9, lp_next = 9\<rparr> 100, CopyConstruct 2 \<lparr>lp_value = 9, lp_next = 9\<rparr> 1,
          Destroy 1, Reset 2 200] (lp_start {100, 200}) = Some (Inr s)
    \<and> alive (abs_lp s) = {200} \<and> owns (abs_lp s) = [2 \<mapsto> 200]"
proof -
  let ?g = "\<lparr>lp_value = 9, lp_next = 9\<rparr>"
  let ?ops = "[Construct 1 ?g 100, CopyConstruct 2 ?g 1, Destroy 1, Reset 2 200]"
  let ?r = "\<lparr>owns = Map.empty, alive = {100, 200}\<rparr>"
  have mid: "rc_run [Construct 1 ?g 100, CopyConstruct 2 ?g 1, Destroy 1] ?r =
      \<lparr>owns = [2 \<mapsto> 100], alive = {100, 200}\<rparr>"
    by (auto simp: hold_def release_def ran_def Let_def fun_upd_def)
  have last: "rc_step (Reset 2 200) \<lparr>owns = [2 \<mapsto> 100], alive = {100, 200}\<rparr> =
      \<lparr>owns = [2 \<mapsto> 200], alive = {200}\<rparr>"
    by (auto simp: hold_def release_def ran_def Let_def fun_upd_def)
  have "lp_legal_run ?ops ?r"
    using mid by (simp add: hold_def unowned_def)
  then show ?thesis
    using linked_ptr_counts_references [of ?ops "{100, 200}"] mid last by auto
qed

end
