(* ===== verification/Gtest_Port.thy ===== *)
theory Gtest_Port
  imports Prelude "HOL-Library.Multiset"
begin

text \<open>
  Two utilities of gtest-port.h that own memory or edit in place: \<open>scoped_ptr\<close>, over a heap of
  live objects, and \<open>StripTrailingSpaces\<close>, whose loop moves an iterator while it erases; with
  the character tests they use. Main results: programs that hand objects only through
  \<open>scoped_ptr\<close> and plain pointers delete every object exactly once, and the loop removes
  exactly the trailing spaces.
\<close>

section \<open>scoped_ptr\<close>

record scoped_ptr = sp_ptr :: ptr

definition make_scoped_ptr :: "ptr \<Rightarrow> scoped_ptr" where
  "make_scoped_ptr p = \<lparr>sp_ptr = p\<rparr>"

definition sp_get :: "scoped_ptr \<Rightarrow> ptr" where
  "sp_get sp = sp_ptr sp"

definition sp_deref :: "(ptr \<rightharpoonup> 'v) \<Rightarrow> scoped_ptr \<Rightarrow> 'v res" where
  "sp_deref H sp = deref H (sp_ptr sp)"

definition sp_release :: "scoped_ptr \<Rightarrow> ptr \<times> scoped_ptr" where
  "sp_release sp = (sp_ptr sp, sp\<lparr>sp_ptr := NULL\<rparr>)"

definition sp_reset :: "(ptr \<rightharpoonup> 'v) \<Rightarrow> ptr \<Rightarrow> scoped_ptr \<Rightarrow> ((ptr \<rightharpoonup> 'v) \<times> scoped_ptr) res" where
  "sp_reset H p sp =
     (if p \<noteq> sp_ptr sp
      then bindr (free_at H (sp_ptr sp)) (\<lambda>H. Inr (H, sp\<lparr>sp_ptr := p\<rparr>))
      else Inr (H, sp))"

definition destroy_scoped_ptr :: "(ptr \<rightharpoonup> 'v) \<Rightarrow> scoped_ptr \<Rightarrow> (ptr \<rightharpoonup> 'v) res" where
  "destroy_scoped_ptr H sp = bindr (sp_reset H NULL sp) (\<lambda>(H, sp). Inr H)"

definition sp_swap :: "scoped_ptr \<Rightarrow> scoped_ptr \<Rightarrow> scoped_ptr \<times> scoped_ptr" where
  "sp_swap a b = (a\<lparr>sp_ptr := sp_ptr b\<rparr>, b\<lparr>sp_ptr := sp_ptr a\<rparr>)"

section \<open>Character tests and trailing spaces\<close>

text \<open>The classifications of the C locale, on the value of the char as unsigned.\<close>

definition IsDigit :: "char \<Rightarrow> bool" where
  "IsDigit ch \<longleftrightarrow> 48 \<le> (of_char ch :: nat) \<and> (of_char ch :: nat) \<le> 57"

definition IsLower :: "char \<Rightarrow> bool" where
  "IsLower ch \<longleftrightarrow> 97 \<le> (of_char ch :: nat) \<and> (of_char ch :: nat) \<le> 122"

definition IsUpper :: "char \<Rightarrow> bool" where
  "IsUpper ch \<longleftrightarrow> 65 \<le> (of_char ch :: nat) \<and> (of_char ch :: nat) \<le> 90"

definition IsAlpha :: "char \<Rightarrow> bool" where
  "IsAlpha ch \<longleftrightarrow> IsLower ch \<or> IsUpper ch"

definition IsAlNum :: "char \<Rightarrow> bool" where
  "IsAlNum ch \<longleftrightarrow> IsAlpha ch \<or> IsDigit ch"

definition IsSpace :: "char \<Rightarrow> bool" where
  "IsSpace ch \<longleftrightarrow> (of_char ch :: nat) = 32 \<or> 9 \<le> (of_char ch :: nat) \<and> (of_char ch :: nat) \<le> 13"

definition IsXDigit :: "char \<Rightarrow> bool" where
  "IsXDigit ch \<longleftrightarrow> IsDigit ch \<or> 97 \<le> (of_char ch :: nat) \<and> (of_char ch :: nat) \<le> 102 \<or>
     65 \<le> (of_char ch :: nat) \<and> (of_char ch :: nat) \<le> 70"

definition ToLower :: "char \<Rightarrow> char" where
  "ToLower ch = (if IsUpper ch then char_of ((of_char ch :: nat) + 32) else ch)"

definition ToUpper :: "char \<Rightarrow> char" where
  "ToUpper ch = (if IsLower ch then char_of ((of_char ch :: nat) - 32) else ch)"

text \<open>
  The iterator is an index. \<open>*--it\<close> moves it before the test, so it stays on the last character
  looked at when the loop ends; \<open>erase(it)\<close> removes that character and gives the same position.
\<close>

definition erase_at :: "nat \<Rightarrow> string \<Rightarrow> string" where
  "erase_at i str = take i str @ drop (Suc i) str"

fun strip_loop :: "nat \<Rightarrow> string \<Rightarrow> string" where
  "strip_loop 0 str = str"
| "strip_loop (Suc i) str =
     (if IsSpace (str ! i) then strip_loop i (erase_at i str) else str)"

definition StripTrailingSpaces :: "string \<Rightarrow> string" where
  "StripTrailingSpaces str = strip_loop (length str) str"

lemma strip_loop_snoc:
  "strip_loop (length str) str = rev (dropWhile IsSpace (rev str))"
  by (induction str rule: rev_induct) (simp_all add: erase_at_def)

lemma char_value_char_of: "n < 256 \<Longrightarrow> (of_char (char_of n :: char) :: nat) = n"
  by (simp add: of_char_of)

text \<open>\<open>StripTrailingSpaces\<close> and its loop, and the case conversions.\<close>

theorem strip_trailing_spaces_exact:
  "\<exists>ws. str = StripTrailingSpaces str @ ws \<and> list_all IsSpace ws \<and>
    (StripTrailingSpaces str = [] \<or> \<not> IsSpace (last (StripTrailingSpaces str)))"
proof -
  let ?s = "rev (dropWhile IsSpace (rev str))" and ?w = "rev (takeWhile IsSpace (rev str))"
  have "rev str = takeWhile IsSpace (rev str) @ dropWhile IsSpace (rev str)" by simp
  then have "str = ?s @ ?w" by (metis rev_append rev_rev_ident)
  moreover have "list_all IsSpace ?w" by (auto simp: list_all_iff dest: set_takeWhileD)
  moreover have "?s = [] \<or> \<not> IsSpace (last ?s)"
    using hd_dropWhile [of IsSpace "rev str"] by (auto simp: last_rev)
  ultimately show ?thesis
    by (auto simp: StripTrailingSpaces_def strip_loop_snoc)
qed

lemma ToLower_ToUpper:
  assumes "IsLower ch"
  shows "ToLower (ToUpper ch) = ch"
proof -
  let ?n = "of_char ch :: nat"
  from assms have n: "97 \<le> ?n" "?n \<le> 122" by (simp_all add: IsLower_def)
  then have "(?n - 32) mod 256 = ?n - 32" "65 \<le> ?n - 32" "?n - 32 \<le> 90" by simp_all
  with n show ?thesis by (simp add: ToLower_def ToUpper_def IsLower_def IsUpper_def)
qed

section \<open>Single ownership\<close>

text \<open>
  Programs over some \<open>scoped_ptr\<close> variables and the plain pointers the program still has to
  hand on. A plain pointer comes from \<open>new\<close> or \<open>release\<close> and goes into a \<open>reset\<close>.
\<close>

record 'v owners =
  ow_heap :: "ptr \<rightharpoonup> 'v"
  ow_scoped :: "scoped_ptr list"
  ow_plain :: "ptr list"

datatype 'v owner_op = New ptr 'v | Reset nat ptr | ResetNull nat | ResetSelf nat | Release nat | Swap nat nat

definition reset_at :: "nat \<Rightarrow> ptr \<Rightarrow> 'v owners \<Rightarrow> 'v owners res" where
  "reset_at i p st = bindr (sp_reset (ow_heap st) p (ow_scoped st ! i)) (\<lambda>(H, sp).
     Inr (st\<lparr>ow_heap := H, ow_scoped := (ow_scoped st)[i := sp]\<rparr>))"

fun owner_step :: "'v owner_op \<Rightarrow> 'v owners \<Rightarrow> 'v owners res" where
  "owner_step (New p v) st =
     Inr (st\<lparr>ow_heap := (ow_heap st)(p \<mapsto> v), ow_plain := p # ow_plain st\<rparr>)"
| "owner_step (Reset i p) st = reset_at i p (st\<lparr>ow_plain := remove1 p (ow_plain st)\<rparr>)"
| "owner_step (ResetNull i) st = reset_at i NULL st"
| "owner_step (ResetSelf i) st = reset_at i (sp_get (ow_scoped st ! i)) st"
| "owner_step (Release i) st = (case sp_release (ow_scoped st ! i) of (p, sp) \<Rightarrow>
     Inr (st\<lparr>ow_scoped := (ow_scoped st)[i := sp],
             ow_plain := (if p = NULL then ow_plain st else p # ow_plain st)\<rparr>))"
| "owner_step (Swap i j) st =
     (case sp_swap (ow_scoped st ! i) (ow_scoped st ! j) of (a, b) \<Rightarrow>
        Inr (st\<lparr>ow_scoped := (ow_scoped st)[i := a, j := b]\<rparr>))"

text \<open>\<open>new\<close> gives a fresh address; the other operations name variables and pointers there are.\<close>

fun owner_legal :: "'v owner_op \<Rightarrow> 'v owners \<Rightarrow> bool" where
  "owner_legal (New p v) st \<longleftrightarrow> p \<noteq> NULL \<and> ow_heap st p = None"
| "owner_legal (Reset i p) st \<longleftrightarrow> i < length (ow_scoped st) \<and> p \<in> set (ow_plain st)"
| "owner_legal (ResetNull i) st \<longleftrightarrow> i < length (ow_scoped st)"
| "owner_legal (ResetSelf i) st \<longleftrightarrow> i < length (ow_scoped st)"
| "owner_legal (Release i) st \<longleftrightarrow> i < length (ow_scoped st)"
| "owner_legal (Swap i j) st \<longleftrightarrow> i < length (ow_scoped st) \<and> j < length (ow_scoped st)"

definition owned :: "'v owners \<Rightarrow> ptr multiset" where
  "owned st = filter_mset (\<lambda>p. p \<noteq> NULL) (mset (map sp_ptr (ow_scoped st))) + mset (ow_plain st)"

definition single_owner :: "'v owners \<Rightarrow> bool" where
  "single_owner st \<longleftrightarrow> finite (dom (ow_heap st)) \<and> NULL \<notin> dom (ow_heap st) \<and>
     owned st = mset_set (dom (ow_heap st))"

lemma scoped_ptr_update: "(sp :: scoped_ptr)\<lparr>sp_ptr := p\<rparr> = \<lparr>sp_ptr = p\<rparr>"
  by (cases sp) simp

text \<open>What the variables other than the \<open>i\<close>th own.\<close>

lemma owned_split:
  assumes "i < length (ow_scoped st)"
  obtains M where "\<And>H sp. owned (st\<lparr>ow_heap := H, ow_scoped := (ow_scoped st)[i := sp]\<rparr>)
      = M + (if sp_ptr sp = NULL then {#} else {#sp_ptr sp#})"
    and "owned st = M + (if sp_ptr (ow_scoped st ! i) = NULL then {#} else {#sp_ptr (ow_scoped st ! i)#})"
proof
  let ?M = "filter_mset (\<lambda>p. p \<noteq> NULL) (mset (map sp_ptr (ow_scoped st)) - {#sp_ptr (ow_scoped st ! i)#})
    + mset (ow_plain st)"
  show upd: "owned (st\<lparr>ow_heap := H, ow_scoped := (ow_scoped st)[i := sp]\<rparr>)
      = ?M + (if sp_ptr sp = NULL then {#} else {#sp_ptr sp#})" for H sp
    using assms by (simp add: owned_def map_update mset_update del: mset_map)
  from upd [where H = "ow_heap st" and sp = "ow_scoped st ! i"]
  show "owned st = ?M + (if sp_ptr (ow_scoped st ! i) = NULL then {#} else {#sp_ptr (ow_scoped st ! i)#})"
    by simp
qed

lemma reset_at_owned:
  assumes fin: "finite (dom (ow_heap st))" and null: "NULL \<notin> dom (ow_heap st)"
    and i: "i < length (ow_scoped st)"
    and all: "owned st + (if p = NULL then {#} else {#p#}) = mset_set (dom (ow_heap st))"
  shows "\<exists>st'. reset_at i p st = Inr st' \<and> single_owner st'"
proof -
  let ?q = "sp_ptr (ow_scoped st ! i)" and ?H = "ow_heap st"
  let ?one = "\<lambda>p. if p = NULL then {#} else {#p#} :: ptr multiset"
  obtain M where M: "\<And>H sp. owned (st\<lparr>ow_heap := H, ow_scoped := (ow_scoped st)[i := sp]\<rparr>) = M + ?one (sp_ptr sp)"
    "owned st = M + ?one ?q"
    using owned_split [OF i] by metis
  show ?thesis
  proof (cases "?q = NULL")
    case True
    then have "mset_set (dom ?H) = M + ?one p" using all M(2) by simp
    moreover have "sp_reset ?H p (ow_scoped st ! i) = Inr (?H, make_scoped_ptr p)"
      using True by (auto simp: sp_reset_def make_scoped_ptr_def)
    ultimately show ?thesis
      using fin null M(1) [where H = ?H and sp = "make_scoped_ptr p"]
      by (simp add: reset_at_def single_owner_def make_scoped_ptr_def)
  next
    case False
    then have eq: "mset_set (dom ?H) = add_mset ?q (M + ?one p)" using all M(2) by simp
    then have q: "?q \<in> dom ?H" by (metis fin elem_mset_set union_single_eq_member add_mset_add_single)
    have "count (mset_set (dom ?H)) ?q \<le> 1" by (simp add: count_mset_set')
    with eq False have "p \<noteq> ?q" by auto
    with q False have "sp_reset ?H p (ow_scoped st ! i) = Inr (?H(?q := None), make_scoped_ptr p)"
      by (auto simp: sp_reset_def make_scoped_ptr_def)
    moreover have "mset_set (dom ?H - {?q}) = M + ?one p"
      using eq fin q by (simp add: mset_set_Diff)
    ultimately show ?thesis
      using fin null M(1) [where H = "?H(?q := None)" and sp = "make_scoped_ptr p"]
      by (simp add: reset_at_def single_owner_def make_scoped_ptr_def)
  qed
qed

lemma owner_step_ok:
  assumes inv: "single_owner st" and legal: "owner_legal op st"
  shows "\<exists>st'. owner_step op st = Inr st' \<and> single_owner st'"
proof (cases op)
  case (New p v)
  with legal have "p \<noteq> NULL" "p \<notin> dom (ow_heap st)" by auto
  with inv New show ?thesis by (simp add: single_owner_def owned_def)
next
  case (Reset i p)
  with legal have i: "i < length (ow_scoped st)" and p: "p \<in> set (ow_plain st)" by simp_all
  let ?st = "st\<lparr>ow_plain := remove1 p (ow_plain st)\<rparr>"
  have own: "owned st = owned ?st + {#p#}" using p by (simp add: owned_def)
  have "p \<in># owned st" by (simp add: own)
  then have "p \<noteq> NULL" using inv by (metis single_owner_def elem_mset_set)
  with own inv i show ?thesis
    using reset_at_owned [of ?st i p] Reset by (simp add: single_owner_def)
next
  case (ResetNull i)
  with inv legal show ?thesis
    using reset_at_owned [of st i NULL] by (simp add: single_owner_def)
next
  case (ResetSelf i)
  with inv legal show ?thesis
    by (simp add: reset_at_def sp_reset_def sp_get_def)
next
  case (Release i)
  with legal obtain M where M: "\<And>H sp. owned (st\<lparr>ow_heap := H, ow_scoped := (ow_scoped st)[i := sp]\<rparr>)
      = M + (if sp_ptr sp = NULL then {#} else {#sp_ptr sp#})"
    "owned st = M + (if sp_ptr (ow_scoped st ! i) = NULL then {#} else {#sp_ptr (ow_scoped st ! i)#})"
    using owned_split by (metis owner_legal.simps(5))
  have "M = owned (st\<lparr>ow_scoped := (ow_scoped st)[i := make_scoped_ptr NULL]\<rparr>)"
    using M(1) [where H = "ow_heap st" and sp = "make_scoped_ptr NULL"] by (simp add: make_scoped_ptr_def)
  with M(2) inv Release show ?thesis
    by (auto simp: sp_release_def single_owner_def owned_def make_scoped_ptr_def scoped_ptr_update)
next
  case (Swap i j)
  have "mset (map sp_ptr ((ow_scoped st)[i := fst (sp_swap (ow_scoped st ! i) (ow_scoped st ! j)),
      j := snd (sp_swap (ow_scoped st ! i) (ow_scoped st ! j))])) = mset (map sp_ptr (ow_scoped st))"
    using legal Swap mset_swap [of j "map sp_ptr (ow_scoped st)" i]
    by (simp add: map_update sp_swap_def del: mset_map)
  with inv Swap show ?thesis
    by (simp add: single_owner_def owned_def case_prod_beta del: mset_map)
qed

text \<open>Runs of legal operations.\<close>

fun owner_run :: "'v owner_op list \<Rightarrow> 'v owners \<Rightarrow> 'v owners res" where
  "owner_run [] st = Inr st"
| "owner_run (op # ops) st = bindr (owner_step op st) (owner_run ops)"

fun legal_run :: "'v owner_op list \<Rightarrow> 'v owners \<Rightarrow> bool" where
  "legal_run [] st \<longleftrightarrow> True"
| "legal_run (op # ops) st \<longleftrightarrow> owner_legal op st \<and>
     (case owner_step op st of Inl e \<Rightarrow> True | Inr st' \<Rightarrow> legal_run ops st')"

lemma owner_run_ok:
  "single_owner st \<Longrightarrow> legal_run ops st \<Longrightarrow> \<exists>st'. owner_run ops st = Inr st' \<and> single_owner st'"
proof (induction ops arbitrary: st)
  case (Cons op ops)
  then obtain st1 where "owner_step op st = Inr st1" "single_owner st1"
    using owner_step_ok by fastforce
  with Cons show ?case by simp
qed simp

text \<open>The destructors of all the variables, in turn.\<close>

fun destroy_all :: "(ptr \<rightharpoonup> 'v) \<Rightarrow> scoped_ptr list \<Rightarrow> (ptr \<rightharpoonup> 'v) res" where
  "destroy_all H [] = Inr H"
| "destroy_all H (sp # sps) = bindr (destroy_scoped_ptr H sp) (\<lambda>H. destroy_all H sps)"

lemma destroy_all_ok:
  assumes "finite (dom H)" and "NULL \<notin> dom H"
    and "filter_mset (\<lambda>p. p \<noteq> NULL) (mset (map sp_ptr sps)) + P = mset_set (dom H)"
  shows "\<exists>H'. destroy_all H sps = Inr H' \<and> finite (dom H') \<and> mset_set (dom H') = P"
  using assms
proof (induction sps arbitrary: H)
  case (Cons sp sps)
  let ?q = "sp_ptr sp"
  show ?case
  proof (cases "?q = NULL")
    case True
    with Cons show ?thesis by (simp add: destroy_scoped_ptr_def sp_reset_def)
  next
    case False
    with Cons.prems have eq: "mset_set (dom H)
        = add_mset ?q (filter_mset (\<lambda>p. p \<noteq> NULL) (mset (map sp_ptr sps)) + P)" by simp
    then have q: "?q \<in> dom H" by (metis Cons.prems(1) elem_mset_set union_single_eq_member)
    have "mset_set (dom H - {?q}) = filter_mset (\<lambda>p. p \<noteq> NULL) (mset (map sp_ptr sps)) + P"
      using eq q Cons.prems(1) by (simp add: mset_set_Diff)
    moreover have "destroy_scoped_ptr H sp = Inr (H(?q := None))"
      using q False by (auto simp: destroy_scoped_ptr_def sp_reset_def)
    moreover have "dom (H(?q := None)) = dom H - {?q}" by simp
    ultimately show ?thesis
      using Cons.IH [of "H(?q := None)"] Cons.prems(1,2) by (simp del: fun_upd_apply fun_upd_None_if_notin_dom)
  qed
qed simp

text \<open>
C34: programs that pass objects on only through \<open>scoped_ptr\<close> variables and plain pointers own every live
object exactly once: no run of allocations, resets (to a new object, to NULL, to the pointer already
held), releases and swaps deletes an object twice or touches a dead one, and once the destructors of the
variables have run the objects still live are exactly those the program released and did not hand back,
so nothing a \<open>scoped_ptr\<close> held leaks.
\<close>

theorem scoped_ptr_deletes_once:
  assumes "single_owner st" and "legal_run ops st"
  shows "\<exists>st' H. owner_run ops st = Inr st' \<and> single_owner st' \<and>
    destroy_all (ow_heap st') (ow_scoped st') = Inr H \<and> dom H = set (ow_plain st')"
proof -
  obtain st' where st': "owner_run ops st = Inr st'" "single_owner st'"
    using owner_run_ok [OF assms] by blast
  then obtain H where "destroy_all (ow_heap st') (ow_scoped st') = Inr H" "finite (dom H)"
      "mset_set (dom H) = mset (ow_plain st')"
    using destroy_all_ok [of "ow_heap st'" "ow_scoped st'" "mset (ow_plain st')"]
    by (auto simp: single_owner_def owned_def)
  with st' show ?thesis by (metis finite_set_mset_mset_set set_mset_mset)
qed

text \<open>
  Two variables: an object goes into the first, the variables swap, the second gives it up for
  a new one and is reset to what it holds; a third object is released and stays.
\<close>

definition sample_owner_ops :: "int owner_op list" where
  "sample_owner_ops = [New 4 10, Reset 0 4, Swap 0 1, New 8 20, Reset 1 8, ResetSelf 1, New 12 30,
     Reset 0 12, Release 0]"

definition sample_owners :: "int owners" where
  "sample_owners = \<lparr>ow_heap = Map.empty, ow_scoped = [make_scoped_ptr NULL, make_scoped_ptr NULL],
     ow_plain = []\<rparr>"

theorem scoped_ptr_deletes_once_witness:
  "single_owner sample_owners \<and> legal_run sample_owner_ops sample_owners \<and>
   (\<exists>st' H. owner_run sample_owner_ops sample_owners = Inr st' \<and>
      destroy_all (ow_heap st') (ow_scoped st') = Inr H \<and> dom H = {12})"
proof -
  note evals = sample_owners_def sample_owner_ops_def make_scoped_ptr_def reset_at_def sp_reset_def
    sp_get_def sp_release_def sp_swap_def
  have inv: "single_owner sample_owners"
    by (simp add: evals single_owner_def owned_def)
  have legal: "legal_run sample_owner_ops sample_owners"
    by (simp add: evals)
  have "\<exists>st'. owner_run sample_owner_ops sample_owners = Inr st' \<and> ow_plain st' = [12]"
    by (simp add: evals)
  with inv legal scoped_ptr_deletes_once [OF inv legal] show ?thesis by auto
qed

end
