(* ===== verification/Gtest_Threads.thy ===== *)
theory Gtest_Threads
  imports Prelude
begin

text \<open>
  The thread support of the bundled googletest on pthreads (\<open>gtest/internal/gtest-port.h\<close>): \<open>MutexBase\<close>
  with its owner fields, \<open>Notification\<close>, \<open>ThreadWithParam\<close> and \<open>ThreadLocal\<close>. Threads interleave
  at every access to a shared field. A call of a pthread function is one step: a mutex is free or
  held by a thread, and \<open>pthread_mutex_lock\<close> waits until it is free. Writes to the fields of \<open>MutexBase\<close>
  are made by the holder of the mutex, so a holder reads the last values; \<open>AssertHeld\<close> of any other thread reads plain
  fields while they may be written, and such a read may give any value the field ever had.
\<close>

section \<open>MutexBase\<close>

type_synonym tid = nat

record mutex_base =
  pthread_mutex :: "tid option"
  has_owner :: bool
  owner :: tid

text \<open>
  Where a thread is: outside or inside the critical section, or between two accesses of \<open>Lock\<close>, \<open>Unlock\<close>
  or \<open>AssertHeld\<close>. The argument of the last is the place of the call: inside the section or not.
\<close>

datatype pc = Outside | Lock_wait | Lock_owner | Lock_flag | Inside
  | Assert_flag bool | Assert_owner bool | Unlock_flag | Unlock_release

text \<open>The calls a program may make: it locks from outside and unlocks from inside, and asserts anywhere.\<close>

fun call_of :: "pc \<Rightarrow> pc list" where
  "call_of Outside = [Lock_wait, Assert_flag False]"
| "call_of Inside = [Unlock_flag, Assert_flag True]"
| "call_of _ = []"

fun Lock :: "tid \<Rightarrow> pc \<Rightarrow> mutex_base \<Rightarrow> (pc \<times> mutex_base) res option" where
  "Lock t Lock_wait m = (if pthread_mutex m = None then Some (Inr (Lock_owner, m\<lparr>pthread_mutex := Some t\<rparr>)) else None)"
| "Lock t Lock_owner m = Some (Inr (Lock_flag, m\<lparr>owner := t\<rparr>))"
| "Lock t Lock_flag m = Some (Inr (Inside, m\<lparr>has_owner := True\<rparr>))"
| "Lock t _ m = None"

fun Unlock :: "tid \<Rightarrow> pc \<Rightarrow> mutex_base \<Rightarrow> (pc \<times> mutex_base) res option" where
  "Unlock t Unlock_flag m = Some (Inr (Unlock_release, m\<lparr>has_owner := False\<rparr>))"
| "Unlock t Unlock_release m =
     Some (if pthread_mutex m = Some t then Inr (Outside, m\<lparr>pthread_mutex := None\<rparr>) else Inl Abort)"
| "Unlock t _ m = None"

text \<open>\<open>AssertHeld\<close> with the values that its reads of \<open>has_owner_\<close> and \<open>owner_\<close> give.\<close>

fun AssertHeld :: "tid \<Rightarrow> pc \<Rightarrow> bool \<times> tid \<Rightarrow> mutex_base \<Rightarrow> (pc \<times> mutex_base) res option" where
  "AssertHeld t (Assert_flag inside) (flag, own) m = Some (if flag then Inr (Assert_owner inside, m) else Inl Abort)"
| "AssertHeld t (Assert_owner inside) (flag, own) m =
     Some (if own = t then Inr (if inside then Inside else Outside, m) else Inl Abort)"
| "AssertHeld t _ v m = None"

definition access :: "tid \<Rightarrow> pc \<Rightarrow> bool \<times> tid \<Rightarrow> mutex_base \<Rightarrow> (pc \<times> mutex_base) res option" where
  "access t p v m = (case Lock t p m of Some r \<Rightarrow> Some r | None \<Rightarrow>
     (case Unlock t p m of Some r \<Rightarrow> Some r | None \<Rightarrow> AssertHeld t p v m))"

text \<open>The system records which values the two fields ever had and which threads ever acquired the mutex.\<close>

record mutex_system =
  mx :: mutex_base
  pcs :: "tid \<Rightarrow> pc"
  flags_written :: "bool set"
  owners_written :: "tid set"
  acquired :: "tid set"

text \<open>\<open>GTEST_DEFINE_STATIC_MUTEX_\<close>: whose identifier the initial \<open>owner_\<close> happens to be is not known.\<close>

definition static_mutex :: "tid \<Rightarrow> mutex_system" where
  "static_mutex o0 = \<lparr>mx = \<lparr>pthread_mutex = None, has_owner = False, owner = o0\<rparr>, pcs = (\<lambda>_. Outside),
     flags_written = {False}, owners_written = {o0}, acquired = {}\<rparr>"

text \<open>
  What a thread may read: the last values when it holds the mutex, or on a machine on which all
  accesses have one order (\<open>racy\<close> is False), and otherwise any values the fields ever had.
\<close>

definition visible :: "bool \<Rightarrow> mutex_system \<Rightarrow> tid \<Rightarrow> bool \<times> tid \<Rightarrow> bool" where
  "visible racy s t v \<longleftrightarrow>
     (if racy \<and> pthread_mutex (mx s) \<noteq> Some t then fst v \<in> flags_written s \<and> snd v \<in> owners_written s
      else v = (has_owner (mx s), owner (mx s)))"

definition after_access :: "tid \<Rightarrow> pc \<Rightarrow> mutex_base \<Rightarrow> mutex_system \<Rightarrow> mutex_system" where
  "after_access t p m s = s\<lparr>mx := m, pcs := (pcs s)(t := p), flags_written := insert (has_owner m) (flags_written s),
     owners_written := insert (owner m) (owners_written s), acquired := set_option (pthread_mutex m) \<union> acquired s\<rparr>"

inductive mx_step :: "bool \<Rightarrow> mutex_system \<Rightarrow> mutex_system \<Rightarrow> bool" for racy where
  call: "p \<in> set (call_of (pcs s t)) \<Longrightarrow> mx_step racy s (s\<lparr>pcs := (pcs s)(t := p)\<rparr>)"
| access: "visible racy s t v \<Longrightarrow> access t (pcs s t) v (mx s) = Some (Inr (p, m)) \<Longrightarrow>
    mx_step racy s (after_access t p m s)"

inductive_cases mx_stepE: "mx_step racy s s'"

fun holds :: "pc \<Rightarrow> bool" where
  "holds Lock_owner \<longleftrightarrow> True" | "holds Lock_flag \<longleftrightarrow> True" | "holds Inside \<longleftrightarrow> True"
| "holds (Assert_flag i) \<longleftrightarrow> i" | "holds (Assert_owner i) \<longleftrightarrow> i"
| "holds Unlock_flag \<longleftrightarrow> True" | "holds Unlock_release \<longleftrightarrow> True" | "holds _ \<longleftrightarrow> False"

text \<open>The places at which the fields name the thread.\<close>

fun named :: "pc \<Rightarrow> bool" where
  "named Inside \<longleftrightarrow> True" | "named (Assert_flag i) \<longleftrightarrow> i" | "named (Assert_owner i) \<longleftrightarrow> i"
| "named Unlock_flag \<longleftrightarrow> True" | "named _ \<longleftrightarrow> False"

definition mutex_inv :: "bool \<Rightarrow> mutex_system \<Rightarrow> bool" where
  "mutex_inv racy s \<longleftrightarrow>
     (\<forall>t. holds (pcs s t) \<longleftrightarrow> pthread_mutex (mx s) = Some t) \<and>
     (case pthread_mutex (mx s) of
        None \<Rightarrow> \<not> has_owner (mx s)
      | Some t \<Rightarrow> has_owner (mx s) = named (pcs s t) \<and>
          (named (pcs s t) \<or> pcs s t = Lock_flag \<longrightarrow> owner (mx s) = t)) \<and>
     (\<forall>t. \<not> racy \<and> pcs s t = Assert_owner False \<longrightarrow> owner (mx s) \<noteq> t)"

definition history_inv :: "tid \<Rightarrow> mutex_system \<Rightarrow> bool" where
  "history_inv o0 s \<longleftrightarrow> owner (mx s) \<in> owners_written s \<and> owners_written s \<subseteq> insert o0 (acquired s) \<and>
     set_option (pthread_mutex (mx s)) \<subseteq> acquired s"

lemma mutex_inv_init: "mutex_inv racy (static_mutex o0)" "history_inv o0 (static_mutex o0)"
  by (simp_all add: mutex_inv_def history_inv_def static_mutex_def)

lemma mutex_inv_at:
  assumes "mutex_inv racy s"
  shows "holds (pcs s t) \<longleftrightarrow> pthread_mutex (mx s) = Some t"
    and "holds (pcs s t) \<Longrightarrow> has_owner (mx s) = named (pcs s t)"
    and "named (pcs s t) \<Longrightarrow> owner (mx s) = t" "pcs s t = Lock_flag \<Longrightarrow> owner (mx s) = t"
    and "has_owner (mx s) \<Longrightarrow> \<not> holds (pcs s t) \<Longrightarrow> owner (mx s) \<noteq> t"
    and "\<not> racy \<Longrightarrow> pcs s t = Assert_owner False \<Longrightarrow> owner (mx s) \<noteq> t"
proof -
  have n: "named p \<or> p = Lock_flag \<Longrightarrow> holds p" for p by (cases p) auto
  have one: "holds (pcs s t) \<longleftrightarrow> pthread_mutex (mx s) = Some t" using assms by (simp add: mutex_inv_def)
  show "holds (pcs s t) \<longleftrightarrow> pthread_mutex (mx s) = Some t"
    and "holds (pcs s t) \<Longrightarrow> has_owner (mx s) = named (pcs s t)"
    and "named (pcs s t) \<Longrightarrow> owner (mx s) = t" "pcs s t = Lock_flag \<Longrightarrow> owner (mx s) = t"
    and "has_owner (mx s) \<Longrightarrow> \<not> holds (pcs s t) \<Longrightarrow> owner (mx s) \<noteq> t"
    and "\<not> racy \<Longrightarrow> pcs s t = Assert_owner False \<Longrightarrow> owner (mx s) \<noteq> t"
    using assms one n [of "pcs s t"] by (auto simp: mutex_inv_def split: option.splits)
qed

lemma mutex_inv_call:
  assumes "p \<in> set (call_of (pcs s t))"
  shows "mutex_inv racy s \<Longrightarrow> mutex_inv racy (s\<lparr>pcs := (pcs s)(t := p)\<rparr>)"
    and "history_inv o0 s \<Longrightarrow> history_inv o0 (s\<lparr>pcs := (pcs s)(t := p)\<rparr>)"
proof -
  have same: "holds p = holds (pcs s t)" "named p = named (pcs s t)" "p \<noteq> Lock_flag" "p \<noteq> Assert_owner False"
    using assms by (cases "pcs s t"; auto)+
  then show "mutex_inv racy s \<Longrightarrow> mutex_inv racy (s\<lparr>pcs := (pcs s)(t := p)\<rparr>)"
    by (auto simp: mutex_inv_def split: option.splits)
qed (simp add: history_inv_def)

lemma visible_current:
  assumes "visible racy s t v" "\<not> racy \<or> pthread_mutex (mx s) = Some t"
  shows "v = (has_owner (mx s), owner (mx s))"
  using assms by (auto simp: visible_def split: if_splits)

lemma mutex_inv_access:
  assumes inv: "mutex_inv racy s" and v: "visible racy s t v"
    and a: "access t (pcs s t) v (mx s) = Some (Inr (p, m))"
  shows "mutex_inv racy (after_access t p m s)"
proof -
  note at = mutex_inv_at [OF inv, of t] and defs = mutex_inv_def after_access_def
  obtain b own where v': "v = (b, own)" by (cases v)
  have quiet: "\<And>u. u \<noteq> t \<Longrightarrow> \<not> holds (pcs s u)" "pthread_mutex (mx s) = Some t" if "holds (pcs s t)"
    using mutex_inv_at(1) [OF inv] that by auto
  have late: "\<And>u. \<not> racy \<Longrightarrow> pcs s u = Assert_owner False \<Longrightarrow> owner (mx s) \<noteq> u" using mutex_inv_at(6) [OF inv] .
  show ?thesis
  proof (cases "pcs s t")
    case Lock_wait
    then have pm: "pthread_mutex (mx s) = None" "p = Lock_owner" "m = (mx s)\<lparr>pthread_mutex := Some t\<rparr>"
      using a by (auto simp: access_def split: if_splits)
    with inv late show ?thesis by (auto simp: defs)
  next
    case Lock_owner
    then have "p = Lock_flag" "m = (mx s)\<lparr>owner := t\<rparr>" using a by (auto simp: access_def)
    with Lock_owner quiet at(2) show ?thesis by (auto simp: defs)
  next
    case Lock_flag
    then have "p = Inside" "m = (mx s)\<lparr>has_owner := True\<rparr>" using a by (auto simp: access_def)
    with Lock_flag quiet at(4) late show ?thesis by (auto simp: defs)
  next
    case (Assert_flag i)
    then have "p = Assert_owner i" "m = mx s" "b" using a v' by (auto simp: access_def split: if_splits)
    moreover have "has_owner (mx s)" if "\<not> racy" using visible_current [OF v] that v' \<open>b\<close> by simp
    ultimately show ?thesis using Assert_flag inv at(1,5) by (auto simp: defs split: option.splits)
  next
    case (Assert_owner i)
    then have "p = (if i then Inside else Outside)" "m = mx s" using a v' by (auto simp: access_def split: if_splits)
    with Assert_owner inv at(1) show ?thesis by (auto simp: defs split: option.splits)
  next
    case Unlock_flag
    then have "p = Unlock_release" "m = (mx s)\<lparr>has_owner := False\<rparr>" using a by (auto simp: access_def)
    with Unlock_flag quiet late show ?thesis by (auto simp: defs)
  next
    case Unlock_release
    then have "p = Outside" "m = (mx s)\<lparr>pthread_mutex := None\<rparr>" using a by (auto simp: access_def split: if_splits)
    with Unlock_release quiet at(2) late show ?thesis by (auto simp: defs)
  qed (use a in \<open>auto simp: access_def\<close>)
qed

lemma access_writes:
  assumes "access t p v m = Some (Inr (p', m'))"
  shows "owner m' = owner m \<or> holds p \<and> owner m' = t"
    and "pthread_mutex m' \<in> {pthread_mutex m, None, Some t}"
  using assms by (cases p; cases v; auto simp: access_def split: if_splits)+

lemma history_inv_access:
  assumes inv: "mutex_inv racy s" and his: "history_inv o0 s"
    and a: "access t (pcs s t) v (mx s) = Some (Inr (p, m))"
  shows "history_inv o0 (after_access t p m s)"
  using access_writes [OF a] his mutex_inv_at(1) [OF inv, of t]
  by (auto simp: history_inv_def after_access_def)

lemma mutex_inv_run:
  "(mx_step racy)\<^sup>*\<^sup>* (static_mutex o0) s \<Longrightarrow> mutex_inv racy s \<and> history_inv o0 s"
proof (induction rule: rtranclp_induct)
  case (step s s')
  from step.hyps(2) step.IH show ?case
    by (elim mx_stepE) (auto intro: mutex_inv_call mutex_inv_access history_inv_access)
qed (simp add: mutex_inv_init)

text \<open>C24: take a program whose threads lock from outside and unlock from inside the critical section, where a thread
  that does not hold the mutex may read in \<open>AssertHeld\<close> any value the two fields ever had. In every state it can reach, at
  most one thread is in the critical section, and no \<open>Lock\<close>, \<open>Unlock\<close> or \<open>AssertHeld\<close> of the thread that holds the mutex
  aborts. \<open>AssertHeld\<close> of a thread that does not hold it aborts at its second access at the latest if the thread
  never acquired the mutex and is not the one the initial \<open>owner_\<close> happens to name; if it did acquire it before,
  this is certain only when all accesses have one global order.\<close>

theorem AssertHeld_verdict:
  assumes "(mx_step racy)\<^sup>*\<^sup>* (static_mutex o0) s"
  shows "(holds (pcs s t) \<and> holds (pcs s u) \<longrightarrow> t = u) \<and>
    (holds (pcs s t) \<and> visible racy s t v \<longrightarrow> access t (pcs s t) v (mx s) \<noteq> Some (Inl e)) \<and>
    (pcs s t = Assert_owner False \<and> visible racy s t v \<and> (t \<notin> insert o0 (acquired s) \<or> \<not> racy) \<longrightarrow>
      access t (pcs s t) v (mx s) = Some (Inl Abort))"
proof -
  have inv: "mutex_inv racy s" and his: "history_inv o0 s" using mutex_inv_run [OF assms] by simp_all
  note at = mutex_inv_at [OF inv]
  have "holds (pcs s t) \<and> holds (pcs s u) \<longrightarrow> t = u" using at(1) [of t] at(1) [of u] by auto
  moreover have "access t (pcs s t) v (mx s) \<noteq> Some (Inl e)" if "holds (pcs s t)" "visible racy s t v"
    using at(1,2,3) [of t] visible_current [OF that(2)] that(1) by (cases "pcs s t") (auto simp: access_def)
  moreover have "access t (pcs s t) v (mx s) = Some (Inl Abort)"
    if "pcs s t = Assert_owner False" "visible racy s t v" "t \<notin> insert o0 (acquired s) \<or> \<not> racy"
  proof -
    have "snd v \<noteq> t" using his that at(6) [OF _ that(1)] by (auto simp: history_inv_def visible_def split: if_splits)
    then show ?thesis using that(1) by (cases v) (simp add: access_def)
  qed
  ultimately show ?thesis by blast
qed

text \<open>
  A run: thread 2 locks and unlocks, thread 1 enters the critical section, and threads 2 and 3 assert
  that they hold the mutex. Thread 3 aborts whatever it reads, but a late read of \<open>owner_\<close> lets thread 2
  return: this is why the comment promises a crash only with high probability.
\<close>

lemmas mutex_run_simps = static_mutex_def access_def after_access_def visible_def

definition held_by :: "tid \<Rightarrow> mutex_system \<Rightarrow> mutex_system" where
  "held_by t s = s\<lparr>mx := \<lparr>pthread_mutex = Some t, has_owner = True, owner = t\<rparr>, pcs := (pcs s)(t := Inside),
     flags_written := insert True (flags_written s), owners_written := insert t (owners_written s), acquired := insert t (acquired s)\<rparr>"

lemma mx_locks:
  assumes "mx s = \<lparr>pthread_mutex = None, has_owner = False, owner = own\<rparr>" "pcs s t = Outside"
    "False \<in> flags_written s" "own \<in> owners_written s"
  shows "(mx_step racy)\<^sup>*\<^sup>* s (held_by t s)"
proof -
  have cur: "visible racy s' t (has_owner (mx s'), owner (mx s'))"
    if "pthread_mutex (mx s') = Some t \<or> has_owner (mx s') \<in> flags_written s' \<and> owner (mx s') \<in> owners_written s'" for s'
    using that by (auto simp: visible_def)
  define s1 where "s1 = s\<lparr>pcs := (pcs s)(t := Lock_wait)\<rparr>"
  define s2 where "s2 = after_access t Lock_owner ((mx s1)\<lparr>pthread_mutex := Some t\<rparr>) s1"
  define s3 where "s3 = after_access t Lock_flag ((mx s2)\<lparr>owner := t\<rparr>) s2"
  define s4 where "s4 = after_access t Inside ((mx s3)\<lparr>has_owner := True\<rparr>) s3"
  have "mx_step racy s s1" unfolding s1_def by (rule mx_step.call) (simp add: assms)
  moreover have "mx_step racy s1 s2" unfolding s2_def
    by (rule mx_step.access [OF cur]) (simp_all add: s1_def assms access_def)
  moreover have "mx_step racy s2 s3" unfolding s3_def
    by (rule mx_step.access [OF cur]) (simp_all add: s2_def s1_def after_access_def access_def)
  moreover have "mx_step racy s3 s4" unfolding s4_def
    by (rule mx_step.access [OF cur]) (simp_all add: s3_def s2_def s1_def after_access_def access_def)
  ultimately have "(mx_step racy)\<^sup>*\<^sup>* s s4" by (meson converse_rtranclp_into_rtranclp r_into_rtranclp)
  moreover have "s4 = held_by t s"
    using assms by (auto simp: s4_def s3_def s2_def s1_def after_access_def held_by_def insert_absorb)
  ultimately show ?thesis by simp
qed

definition freed_by :: "tid \<Rightarrow> mutex_system \<Rightarrow> mutex_system" where
  "freed_by t s = s\<lparr>mx := \<lparr>pthread_mutex = None, has_owner = False, owner = t\<rparr>, pcs := (pcs s)(t := Outside),
     flags_written := insert False (flags_written s)\<rparr>"

lemma mx_unlocks:
  assumes "mx s = \<lparr>pthread_mutex = Some t, has_owner = True, owner = t\<rparr>" "pcs s t = Inside"
    "t \<in> owners_written s" "t \<in> acquired s"
  shows "(mx_step racy)\<^sup>*\<^sup>* s (freed_by t s)"
proof -
  have cur: "visible racy s' t (has_owner (mx s'), owner (mx s'))" if "pthread_mutex (mx s') = Some t" for s'
    using that by (simp add: visible_def)
  define s1 where "s1 = s\<lparr>pcs := (pcs s)(t := Unlock_flag)\<rparr>"
  define s2 where "s2 = after_access t Unlock_release ((mx s1)\<lparr>has_owner := False\<rparr>) s1"
  define s3 where "s3 = after_access t Outside ((mx s2)\<lparr>pthread_mutex := None\<rparr>) s2"
  have "mx_step racy s s1" unfolding s1_def by (rule mx_step.call) (simp add: assms)
  moreover have "mx_step racy s1 s2" unfolding s2_def
    by (rule mx_step.access [OF cur]) (simp_all add: s1_def assms access_def)
  moreover have "mx_step racy s2 s3" unfolding s3_def
    by (rule mx_step.access [OF cur]) (simp_all add: s2_def s1_def assms after_access_def access_def)
  ultimately have "(mx_step racy)\<^sup>*\<^sup>* s s3" by (meson converse_rtranclp_into_rtranclp r_into_rtranclp)
  moreover have "s3 = freed_by t s"
    using assms by (auto simp: s3_def s2_def s1_def after_access_def freed_by_def insert_absorb)
  ultimately show ?thesis by simp
qed

definition asserting :: "tid \<Rightarrow> mutex_system \<Rightarrow> mutex_system" where
  "asserting t s = s\<lparr>pcs := (pcs s)(t := Assert_owner False)\<rparr>"

lemma mx_asserts:
  assumes "mx s = \<lparr>pthread_mutex = Some u, has_owner = True, owner = u\<rparr>" "pcs s t = Outside"
    "True \<in> flags_written s" "u \<in> owners_written s" "u \<in> acquired s"
  shows "(mx_step racy)\<^sup>*\<^sup>* s (asserting t s)"
proof -
  define s1 where "s1 = s\<lparr>pcs := (pcs s)(t := Assert_flag False)\<rparr>"
  have "mx_step racy s s1" unfolding s1_def by (rule mx_step.call) (simp add: assms)
  moreover have "visible racy s1 t (True, u)" using assms by (simp add: s1_def visible_def)
  then have "mx_step racy s1 (after_access t (Assert_owner False) (mx s1) s1)"
    by (rule mx_step.access) (simp add: s1_def access_def)
  moreover have "after_access t (Assert_owner False) (mx s1) s1 = asserting t s"
    using assms by (simp add: s1_def after_access_def asserting_def insert_absorb)
  ultimately show ?thesis by (metis converse_rtranclp_into_rtranclp r_into_rtranclp)
qed

definition demo_mutex :: mutex_system where
  "demo_mutex = asserting 3 (asserting 2 (held_by 1 (freed_by 2 (held_by 2 (static_mutex 0)))))"

lemmas demo_mutex_simps = demo_mutex_def asserting_def held_by_def freed_by_def static_mutex_def

lemma demo_mutex_run: "(mx_step racy)\<^sup>*\<^sup>* (static_mutex 0) demo_mutex"
proof -
  let ?s1 = "held_by 2 (static_mutex 0)"
  let ?s2 = "freed_by 2 ?s1"
  let ?s3 = "held_by 1 ?s2"
  let ?s4 = "asserting 2 ?s3"
  have "(mx_step racy)\<^sup>*\<^sup>* (static_mutex 0) ?s1"
    by (rule mx_locks [where own = 0]) (simp_all add: static_mutex_def)
  moreover have "(mx_step racy)\<^sup>*\<^sup>* ?s1 ?s2"
    by (rule mx_unlocks) (simp_all add: demo_mutex_simps)
  moreover have "(mx_step racy)\<^sup>*\<^sup>* ?s2 ?s3"
    by (rule mx_locks [where own = 2]) (simp_all add: demo_mutex_simps)
  moreover have "(mx_step racy)\<^sup>*\<^sup>* ?s3 ?s4"
    by (rule mx_asserts [where u = 1]) (simp_all add: demo_mutex_simps)
  moreover have "(mx_step racy)\<^sup>*\<^sup>* ?s4 demo_mutex" unfolding demo_mutex_def
    by (rule mx_asserts [where u = 1]) (simp_all add: demo_mutex_simps)
  ultimately show ?thesis by (metis rtranclp_trans)
qed

lemma stale_AssertHeld_returns:
  "(mx_step True)\<^sup>*\<^sup>* (static_mutex 0) demo_mutex" "\<not> holds (pcs demo_mutex 2)" "visible True demo_mutex 2 (True, 2)"
  "access 2 (pcs demo_mutex 2) (True, 2) (mx demo_mutex) = Some (Inr (Outside, mx demo_mutex))"
  using demo_mutex_run by (simp_all add: demo_mutex_simps visible_def access_def)

theorem AssertHeld_verdict_witness:
  "(mx_step True)\<^sup>*\<^sup>* (static_mutex 0) demo_mutex \<and>
   access 1 (pcs demo_mutex 1) (True, 1) (mx demo_mutex) \<noteq> Some (Inl Abort) \<and>
   access 3 (pcs demo_mutex 3) (True, 1) (mx demo_mutex) = Some (Inl Abort) \<and>
   access 3 (pcs demo_mutex 3) (True, 2) (mx demo_mutex) = Some (Inl Abort)"
  using AssertHeld_verdict [OF demo_mutex_run [of True], of 1 1 "(True, 1)" Abort]
    AssertHeld_verdict [OF demo_mutex_run [of True], of 3 3 "(True, 1)" Abort]
    AssertHeld_verdict [OF demo_mutex_run [of True], of 3 3 "(True, 2)" Abort] demo_mutex_run [of True]
  by (simp add: demo_mutex_simps visible_def)

section \<open>Notification and ThreadWithParam\<close>

text \<open>
  A controller thread, which is number 0, and worker threads. A worker either waits for the
  notification before it runs its function or has none to wait for (\<open>thread_can_start_\<close> is NULL).
\<close>

datatype wpc = W_new bool | W_lock | W_read | W_unlock bool | W_sleep | W_func | W_done
datatype cpc = C_main | C_lock | C_set | C_unlock | C_join tid

record notification_system =
  n_mutex :: "tid option"
  notified :: bool
  workers :: "tid \<Rightarrow> wpc"
  controller :: cpc
  finished :: "tid \<Rightarrow> bool"

fun WaitForNotification :: "tid \<Rightarrow> wpc \<Rightarrow> tid option \<Rightarrow> bool \<Rightarrow> (wpc \<times> tid option) option" where
  "WaitForNotification t W_lock m n = (if m = None then Some (W_read, Some t) else None)"
| "WaitForNotification t W_read m n = Some (W_unlock n, m)"
| "WaitForNotification t (W_unlock b) m n = Some (if b then W_func else W_sleep, None)"
| "WaitForNotification t W_sleep m n = Some (W_lock, m)"
| "WaitForNotification t _ m n = None"

fun Run :: "tid \<Rightarrow> wpc \<Rightarrow> tid option \<Rightarrow> bool \<Rightarrow> (wpc \<times> tid option) option" where
  "Run t (W_new can_start) m n = Some (if can_start then W_lock else W_func, m)"
| "Run t W_func m n = Some (W_done, m)"
| "Run t W_done m n = None"
| "Run t w m n = WaitForNotification t w m n"

fun Notify :: "cpc \<Rightarrow> tid option \<Rightarrow> bool \<Rightarrow> (cpc \<times> tid option \<times> bool) option" where
  "Notify C_lock m n = (if m = None then Some (C_set, Some 0, n) else None)"
| "Notify C_set m n = Some (C_unlock, m, True)"
| "Notify C_unlock m n = Some (C_main, None, n)"
| "Notify _ m n = None"

definition Join :: "tid \<Rightarrow> notification_system \<Rightarrow> notification_system option" where
  "Join t s = (if \<not> finished s t then
       if workers s t = W_done then Some (s\<lparr>controller := C_main, finished := (finished s)(t := True)\<rparr>) else None
     else Some (s\<lparr>controller := C_main\<rparr>))"

inductive nt_step :: "notification_system \<Rightarrow> notification_system \<Rightarrow> bool" where
  worker: "Run t (workers s t) (n_mutex s) (notified s) = Some (w, m) \<Longrightarrow> 0 < t \<Longrightarrow>
    nt_step s (s\<lparr>workers := (workers s)(t := w), n_mutex := m\<rparr>)"
| call: "controller s = C_main \<Longrightarrow> c = C_lock \<or> (\<exists>t > 0. c = C_join t) \<Longrightarrow> nt_step s (s\<lparr>controller := c\<rparr>)"
| notify: "Notify (controller s) (n_mutex s) (notified s) = Some (c, m, n) \<Longrightarrow>
    nt_step s (s\<lparr>controller := c, n_mutex := m, notified := n\<rparr>)"
| join: "controller s = C_join t \<Longrightarrow> Join t s = Some s' \<Longrightarrow> nt_step s s'"

inductive_cases nt_stepE: "nt_step s s'"

text \<open>At the start no thread has run; \<open>gate t\<close> says whether thread \<open>t\<close> was given the notification.\<close>

definition nt_init :: "(tid \<Rightarrow> bool) \<Rightarrow> notification_system" where
  "nt_init gate = \<lparr>n_mutex = None, notified = False, workers = (\<lambda>t. W_new (gate t)), controller = C_main,
     finished = (\<lambda>_. False)\<rparr>"

fun reading :: "wpc \<Rightarrow> bool" where
  "reading W_read \<longleftrightarrow> True" | "reading (W_unlock b) \<longleftrightarrow> True" | "reading _ \<longleftrightarrow> False"

fun past_gate :: "wpc \<Rightarrow> bool" where
  "past_gate (W_unlock b) \<longleftrightarrow> b" | "past_gate W_func \<longleftrightarrow> True" | "past_gate W_done \<longleftrightarrow> True" | "past_gate _ \<longleftrightarrow> False"

fun waits :: "wpc \<Rightarrow> bool" where
  "waits (W_new b) \<longleftrightarrow> False" | "waits W_func \<longleftrightarrow> False" | "waits W_done \<longleftrightarrow> False" | "waits _ \<longleftrightarrow> True"

text \<open>A worker's place agrees with the mutex, the flag and whether it was given the notification.\<close>

definition worker_ok :: "bool \<Rightarrow> tid option \<Rightarrow> bool \<Rightarrow> tid \<Rightarrow> wpc \<Rightarrow> bool" where
  "worker_ok g m n t w \<longleftrightarrow> (reading w \<longleftrightarrow> m = Some t) \<and> (past_gate w \<longrightarrow> g \<longrightarrow> n) \<and>
     (\<forall>b. w = W_new b \<longrightarrow> b = g) \<and> (waits w \<longrightarrow> g)"

definition nt_inv :: "(tid \<Rightarrow> bool) \<Rightarrow> notification_system \<Rightarrow> bool" where
  "nt_inv gate s \<longleftrightarrow>
     (\<forall>t > 0. worker_ok (gate t) (n_mutex s) (notified s) t (workers s t)) \<and>
     (n_mutex s = Some 0 \<longleftrightarrow> controller s = C_set \<or> controller s = C_unlock) \<and>
     (\<forall>t. finished s t \<longrightarrow> workers s t = W_done)"

lemma nt_inv_init: "nt_inv gate (nt_init gate)"
  by (simp add: nt_inv_def nt_init_def worker_ok_def)

lemma Run_ok:
  assumes "Run t w m n = Some (w', m')" "worker_ok g m n t w"
  shows "worker_ok g m' n t w'" "w \<noteq> W_done" "m' = m \<or> m = None \<and> m' = Some t \<or> m = Some t \<and> m' = None"
  using assms by (cases w; auto simp: worker_ok_def split: if_splits)+

lemma worker_ok_frame: "worker_ok g m n u w \<Longrightarrow> (m' = Some u \<longleftrightarrow> m = Some u) \<Longrightarrow> (n \<longrightarrow> n') \<Longrightarrow> worker_ok g m' n' u w"
  by (auto simp: worker_ok_def)

lemma nt_inv_worker:
  assumes "nt_inv gate s" "Run t (workers s t) (n_mutex s) (notified s) = Some (w, m)" "0 < t"
  shows "nt_inv gate (s\<lparr>workers := (workers s)(t := w), n_mutex := m\<rparr>)"
proof -
  have ok: "worker_ok (gate t) (n_mutex s) (notified s) t (workers s t)" using assms(1,3) by (simp add: nt_inv_def)
  note r = Run_ok [OF assms(2) ok]
  have "worker_ok (gate u) m (notified s) u (workers s u)" if "0 < u" "u \<noteq> t" for u
    by (rule worker_ok_frame [of _ "n_mutex s" "notified s"]) (use assms(1) that r(3) in \<open>auto simp: nt_inv_def\<close>)
  moreover have "m = Some 0 \<longleftrightarrow> n_mutex s = Some 0" using r(3) assms(3) by auto
  ultimately show ?thesis using r(1,2) assms(1) by (auto simp: nt_inv_def)
qed

lemma nt_inv_notify:
  assumes "nt_inv gate s" "Notify (controller s) (n_mutex s) (notified s) = Some (c, m, n)"
  shows "nt_inv gate (s\<lparr>controller := c, n_mutex := m, notified := n\<rparr>)"
proof -
  have m: "m = n_mutex s \<or> n_mutex s = None \<and> m = Some 0 \<or> n_mutex s = Some 0 \<and> m = None" "notified s \<longrightarrow> n"
    "m = Some 0 \<longleftrightarrow> c = C_set \<or> c = C_unlock"
    using assms by (cases "controller s"; auto simp: nt_inv_def split: if_splits)+
  have "worker_ok (gate u) m n u (workers s u)" if "0 < u" for u
    by (rule worker_ok_frame [of _ "n_mutex s" "notified s"]) (use assms(1) that m in \<open>auto simp: nt_inv_def\<close>)
  with m(3) assms(1) show ?thesis by (simp add: nt_inv_def)
qed

lemma nt_inv_run: "nt_step\<^sup>*\<^sup>* (nt_init gate) s \<Longrightarrow> nt_inv gate s"
proof (induction rule: rtranclp_induct)
  case (step s s')
  from step.hyps(2) step.IH show ?case
  proof (elim nt_stepE)
    fix t
    assume "controller s = C_join t" "Join t s = Some s'"
    with step.IH show ?thesis by (auto simp: Join_def nt_inv_def split: if_splits)
  next
    fix t w m
    assume "s' = s\<lparr>workers := (workers s)(t := w), n_mutex := m\<rparr>"
      "Run t (workers s t) (n_mutex s) (notified s) = Some (w, m)" "0 < t"
    with step.IH show ?thesis by (simp add: nt_inv_worker)
  next
    fix c m n
    assume "s' = s\<lparr>controller := c, n_mutex := m, notified := n\<rparr>"
      "Notify (controller s) (n_mutex s) (notified s) = Some (c, m, n)"
    with step.IH show ?thesis by (simp add: nt_inv_notify)
  next
    fix c
    assume "s' = s\<lparr>controller := c\<rparr>" "controller s = C_main" "c = C_lock \<or> (\<exists>t > 0. c = C_join t)"
    with step.IH show ?thesis by (auto simp: nt_inv_def)
  qed
qed (rule nt_inv_init)
text \<open>Progress: once notified, a worker can always be run to the end of its function.\<close>

abbreviation moved :: "notification_system \<Rightarrow> tid \<Rightarrow> wpc \<Rightarrow> tid option \<Rightarrow> notification_system" where
  "moved s t w m \<equiv> s\<lparr>workers := (workers s)(t := w), n_mutex := m\<rparr>"

text \<open>Whoever holds the mutex can be run until it gives it up.\<close>

lemma controller_unlocks:
  assumes "controller s = C_set \<or> controller s = C_unlock" and "notified s"
  shows "\<exists>s1. nt_step\<^sup>*\<^sup>* s s1 \<and> n_mutex s1 = None \<and> notified s1"
proof -
  let ?r = "\<lambda>s. s\<lparr>controller := C_main, n_mutex := None, notified := True\<rparr>"
  have unlock: "nt_step s (?r s)" if "controller s = C_unlock" "notified s" for s
    using nt_step.notify [of s C_main None True] that by simp
  from assms(1) have "nt_step\<^sup>*\<^sup>* s (?r s)"
  proof
    assume c: "controller s = C_set"
    let ?s = "s\<lparr>controller := C_unlock, n_mutex := n_mutex s, notified := True\<rparr>"
    have "nt_step s ?s" by (rule nt_step.notify) (simp add: c)
    moreover have "nt_step ?s (?r ?s)" by (rule unlock) simp_all
    moreover have "?r ?s = ?r s" by simp
    ultimately show ?thesis by (metis converse_rtranclp_into_rtranclp r_into_rtranclp)
  qed (use unlock assms(2) in blast)
  then show ?thesis by (intro exI [of _ "?r s"]) simp
qed

lemma reader_unlocks:
  assumes "reading (workers s u)" and "u \<noteq> 0" and "notified s"
  shows "\<exists>s1. nt_step\<^sup>*\<^sup>* s s1 \<and> n_mutex s1 = None \<and> notified s1"
proof -
  let ?n = "notified s" and ?w = "\<lambda>b. if b then W_func else W_sleep"
  have release: "nt_step s (moved s u (?w b) None)" if "workers s u = W_unlock b" for s b
    by (rule nt_step.worker) (use that assms(2) in auto)
  from assms(1) consider "workers s u = W_read" | b where "workers s u = W_unlock b"
    by (cases "workers s u") auto
  then show ?thesis
  proof cases
    case 1
    have "nt_step s (moved s u (W_unlock ?n) (n_mutex s))" by (rule nt_step.worker) (use 1 assms(2) in auto)
    moreover have "nt_step (moved s u (W_unlock ?n) (n_mutex s)) (moved (moved s u (W_unlock ?n) (n_mutex s)) u (?w ?n) None)"
      by (rule release) simp
    ultimately show ?thesis using assms(3)
      by (intro exI [of _ "moved (moved s u (W_unlock ?n) (n_mutex s)) u (?w ?n) None"])
        (auto intro: converse_rtranclp_into_rtranclp)
  next
    case 2
    with release [OF 2] show ?thesis using assms(3)
      by (intro exI [of _ "moved s u (?w b) None"] conjI r_into_rtranclp) simp_all
  qed
qed

lemma mutex_gets_free:
  assumes "nt_inv gate s" "notified s"
  obtains s1 where "nt_step\<^sup>*\<^sup>* s s1" "n_mutex s1 = None" "notified s1"
proof (cases "n_mutex s")
  case None
  then show thesis using that [of s] assms(2) by simp
next
  case (Some u)
  have "\<exists>s1. nt_step\<^sup>*\<^sup>* s s1 \<and> n_mutex s1 = None \<and> notified s1"
  proof (cases "u = 0")
    case True
    then show ?thesis using assms Some controller_unlocks by (simp add: nt_inv_def)
  next
    case False
    then have "reading (workers s u)" using assms(1) Some by (simp add: nt_inv_def worker_ok_def)
    then show ?thesis using False assms(2) by (rule reader_unlocks)
  qed
  then show thesis using that by blast
qed

lemma worker_runs:
  assumes "nt_inv gate s" "notified s" "n_mutex s = None" "0 < t"
  shows "\<exists>s'. nt_step\<^sup>*\<^sup>* s s' \<and> workers s' t = W_done"
proof -
  have step: "nt_step s (moved s t w m)" if "Run t (workers s t) (n_mutex s) (notified s) = Some (w, m)" for s w m
    using that assms(4) by (rule nt_step.worker)
  have func: "\<exists>s'. nt_step\<^sup>*\<^sup>* s s' \<and> workers s' t = W_done" if "workers s t = W_func" for s
    using step [of s W_done "n_mutex s"] that by (intro exI [of _ "moved s t W_done (n_mutex s)"]) auto
  have lock: "\<exists>s'. nt_step\<^sup>*\<^sup>* s s' \<and> workers s' t = W_done"
    if "workers s t = W_lock" "n_mutex s = None" "notified s" for s
  proof -
    let ?s1 = "moved s t W_read (Some t)" let ?s2 = "moved ?s1 t (W_unlock True) (Some t)"
    let ?s3 = "moved ?s2 t W_func None"
    have "nt_step s ?s1" by (rule step) (simp add: that)
    moreover have "nt_step ?s1 ?s2" by (rule step) (simp add: that)
    moreover have "nt_step ?s2 ?s3" by (rule step) simp
    ultimately have "nt_step\<^sup>*\<^sup>* s ?s3" by (meson converse_rtranclp_into_rtranclp r_into_rtranclp)
    with func [of ?s3] show ?thesis by (auto intro: rtranclp_trans)
  qed
  have first: "nt_step s s1 \<Longrightarrow> \<exists>s'. nt_step\<^sup>*\<^sup>* s1 s' \<and> workers s' t = W_done \<Longrightarrow> ?thesis" for s1
    by (auto intro: converse_rtranclp_into_rtranclp)
  have "\<not> reading (workers s t)" using assms by (simp add: nt_inv_def worker_ok_def)
  then consider "workers s t = W_new True" | "workers s t = W_new False" | "workers s t = W_lock"
    | "workers s t = W_sleep" | "workers s t = W_func" | "workers s t = W_done" by (cases "workers s t") auto
  then show ?thesis
  proof cases
    case 1
    show ?thesis by (rule first [OF step, of W_lock None], simp add: 1 assms, rule lock) (simp_all add: assms)
  next
    case 2
    show ?thesis by (rule first [OF step, of W_func None], simp add: 2 assms, rule func) simp
  next
    case 4
    show ?thesis by (rule first [OF step, of W_lock None], simp add: 4 assms, rule lock) (simp_all add: assms)
  qed (use assms func lock in auto)
qed

text \<open>C25: a worker that was given a notification runs its function only after \<open>Notify\<close> has set the flag;
  \<open>Join\<close> has returned only for workers whose function has returned; and once the flag is set, every
  worker can still be run to the end of its function, whatever happened before.\<close>

theorem workers_wait_for_notification:
  assumes "nt_step\<^sup>*\<^sup>* (nt_init gate) s"
  shows "(0 < t \<and> gate t \<and> (workers s t = W_func \<or> workers s t = W_done) \<longrightarrow> notified s) \<and>
    (finished s t \<longrightarrow> workers s t = W_done) \<and>
    (0 < t \<and> notified s \<longrightarrow> (\<exists>s'. nt_step\<^sup>*\<^sup>* s s' \<and> workers s' t = W_done))"
proof -
  note inv = nt_inv_run [OF assms]
  have "\<exists>s'. nt_step\<^sup>*\<^sup>* s s' \<and> workers s' t = W_done" if t: "0 < t" and n: "notified s"
  proof -
    obtain s1 where s1: "nt_step\<^sup>*\<^sup>* s s1" "n_mutex s1 = None" "notified s1" using mutex_gets_free [OF inv n] .
    have "nt_inv gate s1" using nt_inv_run rtranclp_trans [OF assms s1(1)] by blast
    from worker_runs [OF this s1(3,2) t] s1(1) show ?thesis by (auto intro: rtranclp_trans)
  qed
  moreover have "0 < t \<Longrightarrow> gate t \<Longrightarrow> workers s t = W_func \<or> workers s t = W_done \<Longrightarrow> notified s"
    using inv by (auto simp: nt_inv_def worker_ok_def)
  moreover have "finished s t \<Longrightarrow> workers s t = W_done" using inv by (simp add: nt_inv_def)
  ultimately show ?thesis by blast
qed

text \<open>A controller that notifies, and a worker that has run its function.\<close>

theorem workers_wait_for_notification_witness:
  "\<exists>s. nt_step\<^sup>*\<^sup>* (nt_init (\<lambda>_. True)) s \<and> notified s \<and> (\<exists>s'. nt_step\<^sup>*\<^sup>* s s' \<and> workers s' 1 = W_done)"
proof -
  let ?s0 = "nt_init (\<lambda>_. True)"
  let ?s1 = "?s0\<lparr>controller := C_lock\<rparr>"
  let ?s2 = "?s1\<lparr>controller := C_set, n_mutex := Some 0, notified := False\<rparr>"
  let ?s3 = "?s2\<lparr>controller := C_unlock, n_mutex := Some 0, notified := True\<rparr>"
  have "nt_step ?s0 ?s1" by (rule nt_step.call) (simp_all add: nt_init_def)
  moreover have "nt_step ?s1 ?s2" by (rule nt_step.notify) (simp add: nt_init_def)
  moreover have "nt_step ?s2 ?s3" by (rule nt_step.notify) simp
  ultimately have run: "nt_step\<^sup>*\<^sup>* ?s0 ?s3" by (meson converse_rtranclp_into_rtranclp r_into_rtranclp)
  from workers_wait_for_notification [OF run, of 1] have "\<exists>s'. nt_step\<^sup>*\<^sup>* ?s3 s' \<and> workers s' 1 = W_done" by simp
  with run show ?thesis by (intro exI [of _ ?s3]) simp
qed

section \<open>ThreadLocal\<close>

text \<open>
  The value holders live in a heap; the key maps a thread to its holder, if it has one. \<open>initial\<close> is what
  the factory puts into a new holder. The address of a new holder is an argument.
\<close>

record 'a thread_local =
  specific :: "tid \<rightharpoonup> ptr"
  holders :: "ptr \<rightharpoonup> 'a"
  initial_value :: 'a





text \<open>Deleting a holder: when a thread ends, for it, and when the object is destroyed, for the thread that does it.\<close>

definition DeleteThreadLocalValue :: "tid \<Rightarrow> 'a thread_local \<Rightarrow> 'a thread_local res" where
  "DeleteThreadLocalValue t L = (case specific L t of
     None \<Rightarrow> Inr L
   | Some p \<Rightarrow> bindr (free_at (holders L) p) (\<lambda>H. Inr (L\<lparr>holders := H, specific := (specific L)(t := None)\<rparr>)))"

text \<open>The destructor deletes the key as well, so that no other holder is ever deleted.\<close>

definition destroy_ThreadLocal :: "tid \<Rightarrow> 'a thread_local \<Rightarrow> 'a thread_local res" where
  "destroy_ThreadLocal t L = bindr (DeleteThreadLocalValue t L) (\<lambda>L1. Inr (L1\<lparr>specific := Map.empty\<rparr>))"




















end
