(* ===== verification/Gtest_Param_Util.thy ===== *)
theory Gtest_Param_Util
  imports Prelude
begin

text \<open>
  Value-parameterized tests of the bundled googletest (\<open>gtest/internal/gtest-param-util.h\<close>):
  parameter generators and their iterators, test names, the registration of every test with every
  parameter, and the registry of test cases. What the parameter type supplies (\<open>operator+\<close>,
  \<open>operator<\<close>, printing) and the function \<open>MakeAndRegisterTestInfo\<close> of the compiled library are
  arguments. The iterator interface is a locale; both generators of the header are instances.
\<close>

section \<open>The iterator interface\<close>

text \<open>
  \<open>for (it = begin(); it != end(); ++it, ++i) body\<close> over an iterator type: \<open>operator!=\<close> is \<open>Equals\<close>,
  \<open>operator*\<close> is \<open>Current\<close>, which may change the cached value inside the iterator, and
  \<open>operator++\<close> is \<open>Advance\<close>. \<open>None\<close> is a loop that does not end.
\<close>

partial_function (option) param_loop ::
  "('it \<Rightarrow> 'it \<Rightarrow> bool res) \<Rightarrow> ('it \<Rightarrow> ('a \<times> 'it) res) \<Rightarrow> ('it \<Rightarrow> 'it res) \<Rightarrow> 'it \<Rightarrow>
   (nat \<Rightarrow> 'a \<Rightarrow> 's \<Rightarrow> 's res) \<Rightarrow> 'it \<Rightarrow> nat \<Rightarrow> 's \<Rightarrow> 's res option" where
  "param_loop eq cur adv fin body it i s =
     (case eq it fin of
        Inl e \<Rightarrow> Some (Inl e)
      | Inr at_end \<Rightarrow>
          if at_end then Some (Inr s) else
          (case bindr (cur it) (\<lambda>(x, it1). bindr (body i x s) (\<lambda>s1. bindr (adv it1) (\<lambda>it2. Inr (it2, s1)))) of
             Inl e \<Rightarrow> Some (Inl e)
           | Inr (it2, s1) \<Rightarrow> param_loop eq cur adv fin body it2 (i + 1) s1))"

fun body_fold :: "(nat \<Rightarrow> 'a \<Rightarrow> 's \<Rightarrow> 's res) \<Rightarrow> nat \<Rightarrow> 'a list \<Rightarrow> 's \<Rightarrow> 's res" where
  "body_fold body i [] s = Inr s"
| "body_fold body i (x # xs) s = bindr (body i x s) (body_fold body (i + 1) xs)"

text \<open>
  What \<open>ParamIteratorInterface\<close> promises: an iterator stands at a position of the sequence the
  generator provides, two iterators of one generator are equal exactly at the same position, and
  advancing or reading is only required before the end.
\<close>

locale param_generators =
  fixes ok :: "'g \<Rightarrow> bool"
    and first :: "'g \<Rightarrow> 'it"
    and fin :: "'g \<Rightarrow> 'it"
    and eq :: "'it \<Rightarrow> 'it \<Rightarrow> bool res"
    and cur :: "'it \<Rightarrow> ('a \<times> 'it) res"
    and adv :: "'it \<Rightarrow> 'it res"
    and stands_at :: "'g \<Rightarrow> 'it \<Rightarrow> nat \<Rightarrow> bool"
    and elems :: "'g \<Rightarrow> 'a list"
  assumes first_at: "ok g \<Longrightarrow> stands_at g (first g) 0"
    and fin_at: "ok g \<Longrightarrow> stands_at g (fin g) (length (elems g))"
    and eq_at: "ok g \<Longrightarrow> stands_at g a i \<Longrightarrow> stands_at g b j \<Longrightarrow> eq a b = Inr (i = j)"
    and cur_at: "ok g \<Longrightarrow> stands_at g a i \<Longrightarrow> i < length (elems g) \<Longrightarrow>
      \<exists>a'. cur a = Inr (elems g ! i, a') \<and> stands_at g a' i"
    and adv_at: "ok g \<Longrightarrow> stands_at g a i \<Longrightarrow> i < length (elems g) \<Longrightarrow>
      \<exists>a'. adv a = Inr a' \<and> stands_at g a' (Suc i)"
begin

lemma loop_from:
  assumes ok: "ok g"
  shows "stands_at g it i \<Longrightarrow> i \<le> length (elems g) \<Longrightarrow>
     param_loop eq cur adv (fin g) body it i s = Some (body_fold body i (drop i (elems g)) s)"
proof (induction "length (elems g) - i" arbitrary: it i s)
  case 0
  then have "eq it (fin g) = Inr True" using eq_at [OF ok _ fin_at [OF ok]] by simp
  then show ?case using 0 by (subst param_loop.simps) simp
next
  case (Suc n)
  then have i: "i < length (elems g)" by simp
  have ne: "eq it (fin g) = Inr False" using eq_at [OF ok Suc.prems(1) fin_at [OF ok]] i by simp
  obtain it1 where it1: "cur it = Inr (elems g ! i, it1)" "stands_at g it1 i"
    using cur_at [OF ok Suc.prems(1) i] by blast
  obtain it2 where it2: "adv it1 = Inr it2" "stands_at g it2 (Suc i)"
    using adv_at [OF ok it1(2) i] by blast
  have dr: "drop i (elems g) = elems g ! i # drop (Suc i) (elems g)"
    using i by (simp add: Cons_nth_drop_Suc)
  show ?case
  proof (cases "body i (elems g ! i) s")
    case (Inl e)
    then show ?thesis using ne it1 dr by (subst param_loop.simps) simp
  next
    case (Inr s1)
    have "param_loop eq cur adv (fin g) body it2 (Suc i) s1 =
        Some (body_fold body (Suc i) (drop (Suc i) (elems g)) s1)"
      using Suc.hyps(2) i it2(2) by (intro Suc.hyps(1)) auto
    then show ?thesis using ne it1 it2(1) dr Inr by (subst param_loop.simps) simp
  qed
qed

lemma loop_visits_all:
  "ok g \<Longrightarrow> param_loop eq cur adv (fin g) body (first g) 0 s = Some (body_fold body 0 (elems g) s)"
  using loop_from [OF _ first_at] by simp

end

section \<open>Generators\<close>

text \<open>
  A generator is identified by its address. \<open>const_iterator\<close> of the copied vector is the vector with
  a position; dereferencing it at the end, or moving past it, leaves defined behaviour.
\<close>

datatype ('a, 'i) param_generator =
    RangeGenerator ptr 'a 'a 'i int
  | ValuesInIteratorRangeGenerator ptr "'a list"

datatype ('a, 'i) param_iterator =
    RangeIterator ptr 'a int 'i
  | ValuesInIterator ptr "'a list" nat "'a option"

function CalculateEndIndex ::
  "('a \<Rightarrow> 'i \<Rightarrow> 'a) \<Rightarrow> ('a \<Rightarrow> 'a \<Rightarrow> bool) \<Rightarrow> 'a \<Rightarrow> 'a \<Rightarrow> 'i \<Rightarrow> int \<Rightarrow> int res" where
  "CalculateEndIndex add lt i an_end step end_index =
     (if lt i an_end
      then if end_index \<ge> INT_MAX then Inl SignedOverflow
           else CalculateEndIndex add lt (add i step) an_end step (end_index + 1)
      else Inr end_index)"
  by pat_completeness auto
termination
  by (relation "measure (\<lambda>(add, lt, i, an_end, step, n). nat (INT_MAX - n))") auto

declare CalculateEndIndex.simps [simp del]

definition make_RangeGenerator ::
  "('a \<Rightarrow> 'i \<Rightarrow> 'a) \<Rightarrow> ('a \<Rightarrow> 'a \<Rightarrow> bool) \<Rightarrow> ptr \<Rightarrow> 'a \<Rightarrow> 'a \<Rightarrow> 'i \<Rightarrow> ('a, 'i) param_generator res" where
  "make_RangeGenerator add lt this a_begin an_end step =
     bindr (CalculateEndIndex add lt a_begin an_end step 0) (\<lambda>end_index.
       Inr (RangeGenerator this a_begin an_end step end_index))"

definition make_ValuesIn :: "ptr \<Rightarrow> 'a list \<Rightarrow> ('a, 'i) param_generator" where
  "make_ValuesIn this vs = ValuesInIteratorRangeGenerator this vs"

fun Begin :: "('a, 'i) param_generator \<Rightarrow> ('a, 'i) param_iterator" where
  "Begin (RangeGenerator this a_begin an_end step end_index) = RangeIterator this a_begin 0 step"
| "Begin (ValuesInIteratorRangeGenerator this container) = ValuesInIterator this container 0 None"

fun End :: "('a, 'i) param_generator \<Rightarrow> ('a, 'i) param_iterator" where
  "End (RangeGenerator this a_begin an_end step end_index) = RangeIterator this an_end end_index step"
| "End (ValuesInIteratorRangeGenerator this container) =
     ValuesInIterator this container (length container) None"

fun BaseGenerator :: "('a, 'i) param_iterator \<Rightarrow> ptr" where
  "BaseGenerator (RangeIterator base a_value index step) = base"
| "BaseGenerator (ValuesInIterator base container pos cache) = base"

fun Advance :: "('a \<Rightarrow> 'i \<Rightarrow> 'a) \<Rightarrow> ('a, 'i) param_iterator \<Rightarrow> ('a, 'i) param_iterator res" where
  "Advance add (RangeIterator base a_value index step) =
     (if index \<ge> INT_MAX then Inl SignedOverflow
      else Inr (RangeIterator base (add a_value step) (index + 1) step))"
| "Advance add (ValuesInIterator base container pos cache) =
     (if pos < length container then Inr (ValuesInIterator base container (pos + 1) None)
      else Inl OutOfBounds)"

fun Clone :: "('a, 'i) param_iterator \<Rightarrow> ('a, 'i) param_iterator" where
  "Clone (RangeIterator base a_value index step) = RangeIterator base a_value index step"
| "Clone (ValuesInIterator base container pos cache) = ValuesInIterator base container pos None"

fun Current :: "('a, 'i) param_iterator \<Rightarrow> ('a \<times> ('a, 'i) param_iterator) res" where
  "Current (RangeIterator base a_value index step) = Inr (a_value, RangeIterator base a_value index step)"
| "Current (ValuesInIterator base container pos cache) =
     (case cache of
        Some v \<Rightarrow> Inr (v, ValuesInIterator base container pos cache)
      | None \<Rightarrow>
          if pos < length container
          then Inr (container ! pos, ValuesInIterator base container pos (Some (container ! pos)))
          else Inl OutOfBounds)"

text \<open>Comparing iterators of different generators ends the process; so does a failed downcast.\<close>

fun Equals :: "('a, 'i) param_iterator \<Rightarrow> ('a, 'i) param_iterator \<Rightarrow> bool res" where
  "Equals (RangeIterator base a_value index step) other =
     (if base \<noteq> BaseGenerator other then Inl Abort
      else case other of
        RangeIterator base' value' index' step' \<Rightarrow> Inr (index = index')
      | ValuesInIterator base' container' pos' cache' \<Rightarrow> Inl Abort)"
| "Equals (ValuesInIterator base container pos cache) other =
     (if base \<noteq> BaseGenerator other then Inl Abort
      else case other of
        RangeIterator base' value' index' step' \<Rightarrow> Inl Abort
      | ValuesInIterator base' container' pos' cache' \<Rightarrow> Inr (pos = pos'))"

definition postfix_increment ::
  "('a \<Rightarrow> 'i \<Rightarrow> 'a) \<Rightarrow> ('a, 'i) param_iterator \<Rightarrow> (('a, 'i) param_iterator \<times> ('a, 'i) param_iterator) res" where
  "postfix_increment add it = (let c = Clone it in bindr (Advance add it) (\<lambda>it'. Inr (c, it')))"

definition param_iterator_eq ::
  "('a, 'i) param_iterator \<Rightarrow> ptr \<Rightarrow> ('a, 'i) param_iterator \<Rightarrow> ptr \<Rightarrow> bool res" where
  "param_iterator_eq a impl_a b impl_b = (if impl_a = impl_b then Inr True else Equals a b)"

section \<open>The sequences the generators provide\<close>

fun range_elems :: "('a \<Rightarrow> 'i \<Rightarrow> 'a) \<Rightarrow> 'a \<Rightarrow> 'i \<Rightarrow> nat \<Rightarrow> 'a list" where
  "range_elems add b step 0 = []"
| "range_elems add b step (Suc n) = b # range_elems add (add b step) step n"

fun elements :: "('a \<Rightarrow> 'i \<Rightarrow> 'a) \<Rightarrow> ('a, 'i) param_generator \<Rightarrow> 'a list" where
  "elements add (RangeGenerator this a_begin an_end step end_index) = range_elems add a_begin step (nat end_index)"
| "elements add (ValuesInIteratorRangeGenerator this container) = container"

text \<open>A generator as its constructors leave it.\<close>

fun gen_ok :: "('a, 'i) param_generator \<Rightarrow> bool" where
  "gen_ok (RangeGenerator this a_begin an_end step end_index) \<longleftrightarrow> 0 \<le> end_index \<and> end_index \<le> INT_MAX"
| "gen_ok (ValuesInIteratorRangeGenerator this container) \<longleftrightarrow> True"

fun gen_at :: "('a \<Rightarrow> 'i \<Rightarrow> 'a) \<Rightarrow> ('a, 'i) param_generator \<Rightarrow> ('a, 'i) param_iterator \<Rightarrow> nat \<Rightarrow> bool" where
  "gen_at add (RangeGenerator this a_begin an_end step end_index) (RangeIterator base a_value index step') k \<longleftrightarrow>
     base = this \<and> step' = step \<and> index = int k
     \<and> (int k < end_index \<longrightarrow> a_value = range_elems add a_begin step (nat end_index) ! k)"
| "gen_at add (ValuesInIteratorRangeGenerator this container) (ValuesInIterator base container' pos cache) k \<longleftrightarrow>
     base = this \<and> container' = container \<and> pos = k
     \<and> (\<forall>v. cache = Some v \<longrightarrow> pos < length container \<and> v = container ! pos)"
| "gen_at add _ _ k \<longleftrightarrow> False"

lemma length_range_elems [simp]: "length (range_elems add b step n) = n"
  by (induction n arbitrary: b) simp_all

lemma range_elems_step:
  "Suc k < n \<Longrightarrow> range_elems add b step n ! Suc k = add (range_elems add b step n ! k) step"
proof (induction n arbitrary: b k)
  case (Suc n)
  then show ?case by (cases n; cases k) auto
qed simp

lemma CalculateEndIndex_ge: "CalculateEndIndex add lt i e step n = Inr m \<Longrightarrow> n \<le> m \<and> (m \<le> INT_MAX \<or> m = n)"
proof (induction add lt i e step n rule: CalculateEndIndex.induct)
  case (1 add lt i e step n)
  show ?case
  proof (cases "lt i e \<and> n < INT_MAX")
    case True
    then have "CalculateEndIndex add lt (add i step) e step (n + 1) = Inr m"
      using "1.prems" by (subst (asm) CalculateEndIndex.simps) auto
    then show ?thesis using "1.IH" True by fastforce
  next
    case False
    then show ?thesis using "1.prems" by (subst (asm) CalculateEndIndex.simps) (auto split: if_splits)
  qed
qed

lemma gen_ok_make:
  "make_RangeGenerator add lt this b e step = Inr g \<Longrightarrow> gen_ok g"
  using CalculateEndIndex_ge [of add lt b e step 0]
  by (auto simp: make_RangeGenerator_def bindr_eq_Inr INT_MAX_def)

text \<open>Both generators keep the iterator contract.\<close>

lemma gen_at_adv:
  assumes "gen_ok g" "gen_at add g a i" "i < length (elements add g)"
  shows "\<exists>a'. Advance add a = Inr a' \<and> gen_at add g a' (Suc i)"
proof (cases g)
  case (RangeGenerator this b e step n)
  then obtain v where a: "a = RangeIterator this v (int i) step"
    using assms(2) by (cases a) auto
  have "i < nat n" "int i < INT_MAX" using assms RangeGenerator by auto
  then show ?thesis using assms a RangeGenerator
    by (auto simp: range_elems_step nat_less_iff zless_nat_eq_int_zless)
next
  case (ValuesInIteratorRangeGenerator this vs)
  then show ?thesis using assms by (cases a) auto
qed

lemma gen_at_cur:
  assumes "gen_ok g" "gen_at add g a i" "i < length (elements add g)"
  shows "\<exists>a'. Current a = Inr (elements add g ! i, a') \<and> gen_at add g a' i"
proof (cases g)
  case (RangeGenerator this b e step n)
  then show ?thesis using assms by (cases a) auto
next
  case (ValuesInIteratorRangeGenerator this vs)
  then show ?thesis using assms by (cases a) (auto split: option.splits)
qed

lemma gen_at_eq:
  "gen_at add g a i \<Longrightarrow> gen_at add g b j \<Longrightarrow> Equals a b = Inr (i = j)"
  by (cases g; cases a; cases b) auto

lemma gen_at_first: "gen_ok g \<Longrightarrow> gen_at add g (Begin g) 0"
proof (cases g)
  case (RangeGenerator this b e step n)
  moreover have "0 < n \<Longrightarrow> range_elems add b step (nat n) ! 0 = b"
    by (cases "nat n") simp_all
  ultimately show ?thesis by simp
qed simp

lemma gen_at_fin: "gen_ok g \<Longrightarrow> gen_at add g (End g) (length (elements add g))"
  by (cases g) auto

interpretation pg: param_generators gen_ok Begin End Equals Current "Advance add" "gen_at add" "elements add"
  for add :: "'a \<Rightarrow> 'i \<Rightarrow> 'a"
  by unfold_locales (blast intro: gen_at_first gen_at_fin gen_at_eq gen_at_cur gen_at_adv)+

section \<open>Test names\<close>

record 'a test_param_info =
  param :: 'a
  index :: nat

definition PrintToStringParamName :: "('a \<Rightarrow> string) \<Rightarrow> 'a test_param_info \<Rightarrow> string" where
  "PrintToStringParamName print info = print (param info)"

definition DefaultParamName :: "'a test_param_info \<Rightarrow> string" where
  "DefaultParamName info = show_nat (index info)"

definition GetParamNameGen :: "('a test_param_info \<Rightarrow> string) option \<Rightarrow> ('a test_param_info \<Rightarrow> string)" where
  "GetParamNameGen func = (case func of Some f \<Rightarrow> f | None \<Rightarrow> DefaultParamName)"

text \<open>\<open>isalnum\<close> in the C locale.\<close>

definition isalnum :: "char \<Rightarrow> bool" where
  "isalnum c = (let n = of_char c :: nat in
     48 \<le> n \<and> n \<le> 57 \<or> 65 \<le> n \<and> n \<le> 90 \<or> 97 \<le> n \<and> n \<le> 122)"

definition IsValidParamName :: "string \<Rightarrow> bool" where
  "IsValidParamName name = (name \<noteq> [] \<and> list_all (\<lambda>c. isalnum c \<or> c = CHR ''_'') name)"

section \<open>Registration of parameterized tests\<close>

text \<open>
  \<open>ParameterizedTestFactory<TestClass>\<close> and \<open>TestMetaFactory<TestClass>\<close>: the template argument, the class
  that \<open>TEST_P\<close> generated for the test, is the name of that class.
\<close>

record 'a parameterized_test_factory =
  factory_class :: string
  parameter :: 'a

datatype meta_factory = TestMetaFactory (meta_class: string)

definition CreateTestFactory :: "meta_factory \<Rightarrow> 'a \<Rightarrow> 'a parameterized_test_factory" where
  "CreateTestFactory meta p = \<lparr>factory_class = meta_class meta, parameter = p\<rparr>"

text \<open>
  \<open>CreateTest\<close> on the factory at address \<open>this\<close>: the address of its member \<open>parameter_\<close> goes to the static
  \<open>SetParam\<close>, and the test class is constructed. Both are arguments.
\<close>

definition CreateTest ::
  "(ptr \<Rightarrow> 'w \<Rightarrow> 'w) \<Rightarrow> (string \<Rightarrow> 'w \<Rightarrow> 't \<times> 'w) \<Rightarrow> ptr \<Rightarrow> 'a parameterized_test_factory \<Rightarrow> 'w \<Rightarrow> 't \<times> 'w" where
  "CreateTest set_param new_test this fac w = new_test (factory_class fac) (set_param this w)"

record local_test_info =
  test_case_base_name :: string
  test_base_name :: string
  test_meta_factory :: meta_factory

record ('a, 'i) instantiation_info =
  inst_name :: string
  generator :: "('a, 'i) param_generator res"
  name_func :: "'a test_param_info \<Rightarrow> string"
  inst_file :: string
  inst_line :: int

record code_location =
  loc_file :: string
  loc_line :: int

record ('a, 'i) test_case_info =
  tci_name :: string
  tci_location :: code_location
  tci_type_id :: ptr
  tests :: "local_test_info list"
  instantiations :: "('a, 'i) instantiation_info list"

definition make_test_case_info :: "string \<Rightarrow> code_location \<Rightarrow> ptr \<Rightarrow> ('a, 'i) test_case_info" where
  "make_test_case_info name loc tid =
     \<lparr>tci_name = name, tci_location = loc, tci_type_id = tid, tests = [], instantiations = []\<rparr>"

definition AddTestPattern ::
  "string \<Rightarrow> string \<Rightarrow> meta_factory \<Rightarrow> ('a, 'i) test_case_info \<Rightarrow> ('a, 'i) test_case_info" where
  "AddTestPattern case_name base_name meta tci =
     tci\<lparr>tests := tests tci @ [\<lparr>test_case_base_name = case_name, test_base_name = base_name,
       test_meta_factory = meta\<rparr>]\<rparr>"

definition AddTestCaseInstantiation ::
  "string \<Rightarrow> ('a, 'i) param_generator res \<Rightarrow> ('a test_param_info \<Rightarrow> string) \<Rightarrow> string \<Rightarrow> int \<Rightarrow>
   ('a, 'i) test_case_info \<Rightarrow> ('a, 'i) test_case_info" where
  "AddTestCaseInstantiation iname func nfunc f l tci =
     tci\<lparr>instantiations := instantiations tci @
       [\<lparr>inst_name = iname, generator = func, name_func = nfunc, inst_file = f, inst_line = l\<rparr>]\<rparr>"

text \<open>The arguments of \<open>MakeAndRegisterTestInfo\<close> that vary.\<close>

record 'a registration =
  reg_case :: string
  reg_test :: string
  reg_value_param :: string
  reg_location :: code_location
  reg_type_id :: ptr
  reg_factory :: "'a parameterized_test_factory"

definition case_name_of :: "('a, 'i) instantiation_info \<Rightarrow> local_test_info \<Rightarrow> string" where
  "case_name_of inst ti =
     (if inst_name inst \<noteq> [] then inst_name inst @ ''/'' else []) @ test_case_base_name ti"

definition register_param ::
  "('a \<Rightarrow> string) \<Rightarrow> ('a registration \<Rightarrow> 'u \<Rightarrow> 'u) \<Rightarrow> ('a, 'i) test_case_info \<Rightarrow> local_test_info \<Rightarrow>
   ('a, 'i) instantiation_info \<Rightarrow> nat \<Rightarrow> 'a \<Rightarrow> string list \<times> 'u \<Rightarrow> (string list \<times> 'u) res" where
  "register_param print mk tci ti inst i x st =
     (let (names, u) = st; pname = name_func inst \<lparr>param = x, index = i\<rparr>
      in if \<not> IsValidParamName pname then Inl Abort
         else if pname \<in> set names then Inl Abort
         else Inr (pname # names,
           mk \<lparr>reg_case = case_name_of inst ti, reg_test = test_base_name ti @ ''/'' @ pname,
                 reg_value_param = print x, reg_location = tci_location tci,
                 reg_type_id = tci_type_id tci, reg_factory = CreateTestFactory (test_meta_factory ti) x\<rparr> u))"

definition register_instantiation ::
  "('a \<Rightarrow> 'i \<Rightarrow> 'a) \<Rightarrow> ('a \<Rightarrow> string) \<Rightarrow> ('a registration \<Rightarrow> 'u \<Rightarrow> 'u) \<Rightarrow> ('a, 'i) test_case_info \<Rightarrow>
   local_test_info \<Rightarrow> ('a, 'i) instantiation_info \<Rightarrow> 'u \<Rightarrow> 'u res option" where
  "register_instantiation add print mk tci ti inst u =
     (case generator inst of
        Inl e \<Rightarrow> Some (Inl e)
      | Inr g \<Rightarrow> map_option (\<lambda>r. bindr r (\<lambda>(names, u'). Inr u'))
          (param_loop Equals Current (Advance add) (End g) (register_param print mk tci ti inst)
             (Begin g) 0 ([], u)))"

text \<open>A loop over a vector whose body may fail or not return.\<close>

fun seq_all :: "('x \<Rightarrow> 's \<Rightarrow> 's res option) \<Rightarrow> 'x list \<Rightarrow> 's \<Rightarrow> 's res option" where
  "seq_all f [] s = Some (Inr s)"
| "seq_all f (x # xs) s =
     (case f x s of None \<Rightarrow> None | Some (Inl e) \<Rightarrow> Some (Inl e) | Some (Inr s1) \<Rightarrow> seq_all f xs s1)"

definition RegisterTests ::
  "('a \<Rightarrow> 'i \<Rightarrow> 'a) \<Rightarrow> ('a \<Rightarrow> string) \<Rightarrow> ('a registration \<Rightarrow> 'u \<Rightarrow> 'u) \<Rightarrow> ('a, 'i) test_case_info \<Rightarrow>
   'u \<Rightarrow> 'u res option" where
  "RegisterTests add print mk tci u =
     seq_all (\<lambda>ti. seq_all (register_instantiation add print mk tci ti) (instantiations tci)) (tests tci) u"

section \<open>The registry\<close>

type_synonym ('a, 'i) registry = "('a, 'i) test_case_info list"

fun GetTestCasePatternHolder ::
  "string \<Rightarrow> code_location \<Rightarrow> ptr \<Rightarrow> ('a, 'i) registry \<Rightarrow> (nat \<times> ('a, 'i) registry) res" where
  "GetTestCasePatternHolder name loc tid [] = Inr (0, [make_test_case_info name loc tid])"
| "GetTestCasePatternHolder name loc tid (tci # tcis) =
     (if tci_name tci = name
      then if tci_type_id tci \<noteq> tid then Inl Abort else Inr (0, tci # tcis)
      else bindr (GetTestCasePatternHolder name loc tid tcis) (\<lambda>(i, tcis'). Inr (Suc i, tci # tcis')))"

definition registry_RegisterTests ::
  "('a \<Rightarrow> 'i \<Rightarrow> 'a) \<Rightarrow> ('a \<Rightarrow> string) \<Rightarrow> ('a registration \<Rightarrow> 'u \<Rightarrow> 'u) \<Rightarrow> ('a, 'i) registry \<Rightarrow> 'u \<Rightarrow> 'u res option" where
  "registry_RegisterTests add print mk reg u = seq_all (RegisterTests add print mk) reg u"

text \<open>
  The statements that fill the registry before \<open>main\<close>: \<open>TEST_P\<close>, which defines a class for the test
  and passes a new meta factory of that class on, and \<open>INSTANTIATE_TEST_CASE_P\<close>.
\<close>

definition TEST_P_class :: "string \<Rightarrow> string \<Rightarrow> string" where
  "TEST_P_class case_name test_name = case_name @ ''_'' @ test_name @ ''_Test''"

datatype ('a, 'i) reg_stmt =
    TestP string code_location ptr string
  | InstantiateP string code_location ptr "('a, 'i) instantiation_info"

fun stmt_step :: "('a, 'i) reg_stmt \<Rightarrow> ('a, 'i) registry \<Rightarrow> ('a, 'i) registry res" where
  "stmt_step (TestP cn loc tid bn) reg =
     bindr (GetTestCasePatternHolder cn loc tid reg) (\<lambda>(i, reg'). Inr (reg'[i := AddTestPattern cn bn (TestMetaFactory (TEST_P_class cn bn)) (reg' ! i)]))"
| "stmt_step (InstantiateP cn loc tid inst) reg =
     bindr (GetTestCasePatternHolder cn loc tid reg) (\<lambda>(i, reg'). Inr (reg'[i :=
       AddTestCaseInstantiation (inst_name inst) (generator inst) (name_func inst) (inst_file inst) (inst_line inst) (reg' ! i)]))"

fun stmt_run :: "('a, 'i) reg_stmt list \<Rightarrow> ('a, 'i) registry \<Rightarrow> ('a, 'i) registry res" where
  "stmt_run [] reg = Inr reg"
| "stmt_run (st # sts) reg = bindr (stmt_step st reg) (stmt_run sts)"

section \<open>What registration achieves\<close>

definition inst_elems :: "('a \<Rightarrow> 'i \<Rightarrow> 'a) \<Rightarrow> ('a, 'i) instantiation_info \<Rightarrow> 'a list" where
  "inst_elems add inst = (case generator inst of Inl e \<Rightarrow> [] | Inr g \<Rightarrow> elements add g)"

definition inst_names :: "('a \<Rightarrow> 'i \<Rightarrow> 'a) \<Rightarrow> ('a, 'i) instantiation_info \<Rightarrow> string list" where
  "inst_names add inst = map (\<lambda>(i, x). name_func inst \<lparr>param = x, index = i\<rparr>) (enumerate 0 (inst_elems add inst))"

definition names_ok :: "('a \<Rightarrow> 'i \<Rightarrow> 'a) \<Rightarrow> ('a, 'i) instantiation_info \<Rightarrow> bool" where
  "names_ok add inst \<longleftrightarrow> distinct (inst_names add inst) \<and> list_all IsValidParamName (inst_names add inst)"

definition planned ::
  "('a \<Rightarrow> string) \<Rightarrow> ('a, 'i) test_case_info \<Rightarrow> local_test_info \<Rightarrow> ('a, 'i) instantiation_info \<Rightarrow> nat \<times> 'a \<Rightarrow> 'a registration" where
  "planned print tci ti inst = (\<lambda>(i, x).
     \<lparr>reg_case = case_name_of inst ti,
      reg_test = test_base_name ti @ ''/'' @ name_func inst \<lparr>param = x, index = i\<rparr>,
      reg_value_param = print x, reg_location = tci_location tci,
      reg_type_id = tci_type_id tci, reg_factory = \<lparr>factory_class = meta_class (test_meta_factory ti), parameter = x\<rparr>\<rparr>)"

definition plan :: "('a \<Rightarrow> 'i \<Rightarrow> 'a) \<Rightarrow> ('a \<Rightarrow> string) \<Rightarrow> ('a, 'i) test_case_info \<Rightarrow> 'a registration list" where
  "plan add print tci = concat (map (\<lambda>ti. concat (map (\<lambda>inst.
     map (planned print tci ti inst) (enumerate 0 (inst_elems add inst))) (instantiations tci))) (tests tci))"

definition gens_ok :: "('a, 'i) test_case_info \<Rightarrow> bool" where
  "gens_ok tci \<longleftrightarrow> (\<forall>inst \<in> set (instantiations tci). \<exists>g. generator inst = Inr g \<and> gen_ok g)"

lemma body_fold_register:
  "body_fold (register_param print mk tci ti inst) i xs (ns, u) =
     (let new = map (\<lambda>(i, x). name_func inst \<lparr>param = x, index = i\<rparr>) (enumerate i xs)
      in if distinct new \<and> set new \<inter> set ns = {} \<and> list_all IsValidParamName new
         then Inr (rev new @ ns, fold mk (map (planned print tci ti inst) (enumerate i xs)) u)
         else Inl Abort)"
proof (induction xs arbitrary: i ns u)
  case (Cons x xs)
  let ?n = "name_func inst \<lparr>param = x, index = i\<rparr>"
  show ?case
  proof (cases "IsValidParamName ?n \<and> ?n \<notin> set ns")
    case True
    then have rp: "register_param print mk tci ti inst i x (ns, u) =
        Inr (?n # ns, mk (planned print tci ti inst (i, x)) u)"
      by (simp add: register_param_def Let_def planned_def CreateTestFactory_def)
    show ?thesis using True by (auto simp: rp Cons.IH Let_def)
  next
    case False
    then have rp: "register_param print mk tci ti inst i x (ns, u) = Inl Abort"
      by (auto simp: register_param_def Let_def)
    show ?thesis using False by (auto simp: rp Let_def)
  qed
qed simp

lemma register_instantiation_eq:
  assumes "generator inst = Inr g" "gen_ok g"
  shows "register_instantiation add print mk tci ti inst u =
    Some (if names_ok add inst
          then Inr (fold mk (map (planned print tci ti inst) (enumerate 0 (inst_elems add inst))) u)
          else Inl Abort)"
  using assms
  by (auto simp: register_instantiation_def pg.loop_visits_all body_fold_register names_ok_def
      inst_names_def inst_elems_def Let_def)

lemma seq_all_total:
  assumes "\<And>x s. x \<in> set xs \<Longrightarrow> f x s = Some (if ok x then Inr (g x s) else Inl e)"
  shows "seq_all f xs s = Some (if list_all ok xs then Inr (fold g xs s) else Inl e)"
  using assms by (induction xs arbitrary: s) auto

lemma fold_concat_map: "fold g (concat (map h xs)) = fold (\<lambda>x. fold g (h x)) xs"
  by (induction xs) simp_all

lemma RegisterTests_eq:
  assumes "gens_ok tci"
  shows "RegisterTests add print mk tci u =
    Some (if tests tci = [] \<or> list_all (names_ok add) (instantiations tci)
          then Inr (fold mk (plan add print tci) u) else Inl Abort)"
proof -
  define h where "h = (\<lambda>ti inst. fold mk (map (planned print tci ti inst) (enumerate 0 (inst_elems add inst))))"
  have one: "register_instantiation add print mk tci ti inst s =
      Some (if names_ok add inst then Inr (h ti inst s) else Inl Abort)"
    if inn: "inst \<in> set (instantiations tci)" for ti inst s
  proof -
    obtain g where "generator inst = Inr g" "gen_ok g" using assms inn by (auto simp: gens_ok_def)
    then show ?thesis unfolding h_def by (rule register_instantiation_eq)
  qed
  have row: "seq_all (register_instantiation add print mk tci ti) (instantiations tci) s =
      Some (if list_all (names_ok add) (instantiations tci)
            then Inr (fold (h ti) (instantiations tci) s) else Inl Abort)" for ti s
    by (rule seq_all_total) (rule one)
  have "RegisterTests add print mk tci u =
      Some (if list_all (\<lambda>ti. list_all (names_ok add) (instantiations tci)) (tests tci)
            then Inr (fold (\<lambda>ti. fold (h ti) (instantiations tci)) (tests tci) u) else Inl Abort)"
    unfolding RegisterTests_def by (rule seq_all_total) (rule row)
  moreover have "fold (\<lambda>ti. fold (h ti) (instantiations tci)) (tests tci) u = fold mk (plan add print tci) u"
    by (simp add: plan_def h_def fold_concat_map comp_def)
  ultimately show ?thesis by (cases "tests tci") (auto simp: list_all_iff)
qed

text \<open>C22: given generators that were created and whose end index is an int that is not negative (as
  the constructors leave it), \<open>RegisterTests\<close> always returns: it registers every test with every parameter of every instantiation, in the order of the
  declarations and of the sequences, under the names \<open>prefix/case\<close> and \<open>test/name\<close>, with a factory
  that creates the test's own class (that of its meta factory) on that parameter, unless there is a
  test and an instantiation whose parameter names are not distinct or not alphanumeric, and then
  it ends the process.\<close>

theorem RegisterTests_registers_plan:
  assumes "gens_ok tci"
  shows "RegisterTests add print mk tci u =
    Some (if tests tci = [] \<or> list_all (names_ok add) (instantiations tci)
          then Inr (fold mk (plan add print tci) u) else Inl Abort)"
  by (rule RegisterTests_eq [OF assms])

definition odd_even_case :: "(int, int) test_case_info" where
  "odd_even_case = \<lparr>tci_name = ''Fix'', tci_location = \<lparr>loc_file = ''f.cc'', loc_line = 3\<rparr>, tci_type_id = 7,
     tests = [\<lparr>test_case_base_name = ''Fix'', test_base_name = ''Odd'', test_meta_factory = TestMetaFactory ''Fix_Odd_Test''\<rparr>,
              \<lparr>test_case_base_name = ''Fix'', test_base_name = ''Even'', test_meta_factory = TestMetaFactory ''Fix_Even_Test''\<rparr>],
     instantiations = [\<lparr>inst_name = ''A'', generator = make_RangeGenerator (+) (<) 5 0 4 2,
                         name_func = DefaultParamName, inst_file = ''f.cc'', inst_line = 9\<rparr>]\<rparr>"

theorem RegisterTests_registers_plan_witness:
  "map_option (map_sum id (map (\<lambda>r. (reg_case r, reg_test r, factory_class (reg_factory r), parameter (reg_factory r)))))
     (RegisterTests (+) show_int (\<lambda>r u. u @ [r]) odd_even_case []) =
   Some (Inr [(''A/Fix'', ''Odd/0'', ''Fix_Odd_Test'', 0), (''A/Fix'', ''Odd/1'', ''Fix_Odd_Test'', 2),
              (''A/Fix'', ''Even/0'', ''Fix_Even_Test'', 0), (''A/Fix'', ''Even/1'', ''Fix_Even_Test'', 2)])"
proof -
  have gen: "make_RangeGenerator (+) (<) 5 (0 :: int) 4 (2 :: int) = Inr (RangeGenerator 5 0 4 2 2)"
    by (simp add: make_RangeGenerator_def CalculateEndIndex.simps INT_MAX_def)
  have ok: "gens_ok odd_even_case"
    by (simp add: gens_ok_def odd_even_case_def gen INT_MAX_def)
  have el: "range_elems (+) (0 :: int) (2 :: int) 2 = [0, 2]" by (simp add: numeral_2_eq_2)
  have "list_all (names_ok (+)) (instantiations odd_even_case)"
    by (simp add: odd_even_case_def names_ok_def inst_names_def inst_elems_def gen el
        DefaultParamName_def show_nat.simps IsValidParamName_def isalnum_def)
  then have "RegisterTests (+) show_int (\<lambda>r u. u @ [r]) odd_even_case [] =
      Some (Inr (fold (\<lambda>r u. u @ [r]) (plan (+) show_int odd_even_case) []))"
    using RegisterTests_registers_plan [OF ok, of "(+)" show_int "\<lambda>r u. u @ [r]" "[]"] by simp
  moreover have "fold (\<lambda>r u. u @ [r]) xs ys = ys @ xs" for xs ys :: "int registration list"
    by (induction xs arbitrary: ys) simp_all
  moreover have dig: "show_nat 0 = ''0''" "show_nat (Suc 0) = ''1''" by code_simp+
  have "map (\<lambda>r. (reg_case r, reg_test r, factory_class (reg_factory r), parameter (reg_factory r))) (plan (+) show_int odd_even_case) =
      [(''A/Fix'', ''Odd/0'', ''Fix_Odd_Test'', 0), (''A/Fix'', ''Odd/1'', ''Fix_Odd_Test'', 2),
       (''A/Fix'', ''Even/0'', ''Fix_Even_Test'', 0), (''A/Fix'', ''Even/1'', ''Fix_Even_Test'', 2)]"
    by (simp add: plan_def odd_even_case_def inst_elems_def gen el planned_def case_name_of_def
        DefaultParamName_def dig)
  ultimately show ?thesis by simp
qed

lemma isalnum_digit: "n < (10 :: nat) \<Longrightarrow> isalnum (char_of (48 + n))"
  by (simp add: isalnum_def Let_def)

lemma valid_show_nat: "IsValidParamName (show_nat n)"
proof (induction n rule: show_nat.induct)
  case (1 n)
  then show ?case
    by (subst show_nat.simps) (auto simp: IsValidParamName_def isalnum_digit)
qed

lemma default_names:
  assumes "name_func inst = DefaultParamName"
  shows "names_ok add inst"
proof -
  have "inst_names add inst = map show_nat (map fst (enumerate 0 (inst_elems add inst)))"
    unfolding map_map by (auto simp: inst_names_def DefaultParamName_def assms)
  then have "inst_names add inst = map show_nat [0..<length (inst_elems add inst)]" by simp
  then show ?thesis
    by (simp add: names_ok_def list_all_iff valid_show_nat distinct_map inj_on_def show_nat_inject)
qed

text \<open>With the default names (the index of the parameter) registration never ends the process:
  the names are always valid and distinct, and the number of tests registered is the number of
  tests times the total number of parameters.\<close>

theorem default_param_names_never_abort:
  assumes "gens_ok tci" "\<forall>inst \<in> set (instantiations tci). name_func inst = GetParamNameGen None"
  shows "\<exists>rs. RegisterTests add print (\<lambda>r u. u @ [r]) tci [] = Some (Inr rs)
    \<and> length rs = length (tests tci) * sum_list (map (\<lambda>inst. length (inst_elems add inst)) (instantiations tci))"
proof -
  have "list_all (names_ok add) (instantiations tci)"
    using assms(2) default_names by (auto simp: list_all_iff GetParamNameGen_def)
  then have "RegisterTests add print (\<lambda>r u. u @ [r]) tci [] = Some (Inr (fold (\<lambda>r u. u @ [r]) (plan add print tci) []))"
    using RegisterTests_eq [OF assms(1), of add print "\<lambda>r u. u @ [r]" "[]"] by simp
  moreover have "fold (\<lambda>r u. u @ [r]) xs ys = ys @ xs" for xs ys :: "'a registration list"
    by (induction xs arbitrary: ys) simp_all
  moreover have "length (plan add print tci) =
      length (tests tci) * sum_list (map (\<lambda>inst. length (inst_elems add inst)) (instantiations tci))"
    by (simp add: plan_def length_concat comp_def sum_list_triv)
  ultimately show ?thesis by simp
qed

theorem default_param_names_never_abort_witness:
  "\<exists>rs. RegisterTests (+) show_int (\<lambda>r u. u @ [r]) odd_even_case [] = Some (Inr rs) \<and> length rs = 4"
proof -
  have gen: "make_RangeGenerator (+) (<) 5 (0 :: int) 4 (2 :: int) = Inr (RangeGenerator 5 0 4 2 2)"
    by (simp add: make_RangeGenerator_def CalculateEndIndex.simps INT_MAX_def)
  have "gens_ok odd_even_case"
    by (simp add: gens_ok_def odd_even_case_def gen INT_MAX_def)
  moreover have "\<forall>inst \<in> set (instantiations odd_even_case). name_func inst = GetParamNameGen None"
    by (simp add: odd_even_case_def GetParamNameGen_def)
  ultimately show ?thesis
    using default_param_names_never_abort [of odd_even_case "(+)" show_int]
    by (simp add: odd_even_case_def inst_elems_def gen)
qed

section \<open>Ranges\<close>

lemma CalculateEndIndex_int:
  fixes b e step :: int
  assumes "0 < step" "b + step * int m < e + step" "e \<le> b + step * int m" "0 \<le> n" "n + int m \<le> INT_MAX"
  shows "CalculateEndIndex (+) (<) b e step n = Inr (n + int m)"
  using assms
proof (induction m arbitrary: b n)
  case 0
  then show ?case by (subst CalculateEndIndex.simps) simp
next
  case (Suc m)
  have "0 \<le> step * int m" using Suc.prems(1) by simp
  then have lt: "b < e" using Suc.prems(2) by (simp add: distrib_left)
  have "CalculateEndIndex (+) (<) (b + step) e step (n + 1) = Inr (n + 1 + int m)"
    using Suc.prems by (intro Suc.IH) (simp_all add: distrib_left)
  then show ?case using lt Suc.prems by (subst CalculateEndIndex.simps) simp
qed

lemma range_elems_int: "range_elems (+) (b :: int) step n = map (\<lambda>k. b + int k * step) [0..<n]"
proof (induction n arbitrary: b)
  case (Suc n)
  have "[0..<Suc n] = 0 # map Suc [0..<n]" by (simp add: map_Suc_upt upt_conv_Cons del: upt_Suc)
  then show ?case by (simp add: Suc comp_def algebra_simps del: upt_Suc)
qed simp

lemma body_fold_collect: "body_fold (\<lambda>i x acc. Inr (acc @ [x])) i xs acc = Inr (acc @ xs)"
  by (induction xs arbitrary: i acc) simp_all

text \<open>The number of steps from \<open>b\<close> up to \<open>e\<close>.\<close>

lemma range_count:
  fixes b e step :: int
  assumes "0 < step"
  shows "\<exists>m. e \<le> b + step * int m \<and> (m = 0 \<or> b + step * int m < e + step)"
proof (cases "b < e")
  case True
  let ?m = "nat ((e - b + step - 1) div step)"
  have "int ?m = (e - b + step - 1) div step" using True assms by (simp add: pos_imp_zdiv_nonneg_iff)
  then have "step * int ?m = e - b + step - 1 - (e - b + step - 1) mod step"
    by (simp add: minus_mod_eq_mult_div [symmetric])
  moreover have "0 \<le> (e - b + step - 1) mod step" "(e - b + step - 1) mod step < step"
    using assms by simp_all
  ultimately show ?thesis by (intro exI [of _ ?m]) auto
qed (auto intro: exI [of _ 0])

lemma CalculateEndIndex_range:
  fixes b e step :: int
  assumes "0 < step" "e - b \<le> INT_MAX * step"
  shows "\<exists>m. CalculateEndIndex (+) (<) b e step 0 = Inr (int m) \<and> int m \<le> INT_MAX
    \<and> (\<forall>k. k < m \<longleftrightarrow> b + int k * step < e)"
proof -
  obtain m where m: "e \<le> b + step * int m" "m = 0 \<or> b + step * int m < e + step"
    using range_count [OF assms(1)] by blast
  have "step * (int m - 1) < step * INT_MAX" if "m \<noteq> 0"
    using m that assms by (simp add: right_diff_distrib mult.commute)
  then have le: "int m \<le> INT_MAX" using assms(1) by (cases "m = 0") (auto simp: INT_MAX_def)
  have "CalculateEndIndex (+) (<) b e step 0 = Inr (int m)"
  proof (cases "m = 0")
    case True
    then show ?thesis using m by (subst CalculateEndIndex.simps) simp
  next
    case False
    then show ?thesis using CalculateEndIndex_int [of step b m e 0] m le assms by simp
  qed
  moreover have "k < m \<longleftrightarrow> b + int k * step < e" for k
  proof
    assume k: "k < m"
    then have "step * int k \<le> step * (int m - 1)" using assms(1) by (intro mult_left_mono) auto
    then show "b + int k * step < e" using m(2) k by (auto simp: right_diff_distrib mult.commute)
  next
    assume k: "b + int k * step < e"
    then have "step * int k < step * int m" using m(1) by (simp add: mult.commute)
    then show "k < m" using assms(1) by simp
  qed
  ultimately show ?thesis using le by blast
qed

text \<open>Iterating over \<open>Range(b, e, step)\<close> with a positive step visits the numbers
  \<open>b, b + step, b + 2 * step, ...\<close> below \<open>e\<close> in order and then ends, for every range of at most
  \<open>INT_MAX\<close> elements whose sums the element type can represent.\<close>

theorem range_generator_sequence:
  fixes b e step :: int
  assumes "0 < step" and "e - b \<le> INT_MAX * step"
  shows "\<exists>g n. make_RangeGenerator (+) (<) this b e step = Inr g
    \<and> param_loop Equals Current (Advance (+)) (End g) (\<lambda>i x acc. Inr (acc @ [x])) (Begin g) 0 [] =
      Some (Inr (map (\<lambda>k. b + int k * step) [0..<n]))
    \<and> (\<forall>k. k < n \<longleftrightarrow> b + int k * step < e)"
proof -
  obtain m where m: "CalculateEndIndex (+) (<) b e step 0 = Inr (int m)" "int m \<le> INT_MAX"
      "\<forall>k. k < m \<longleftrightarrow> b + int k * step < e"
    using CalculateEndIndex_range [OF assms] by blast
  then show ?thesis
    by (intro exI [of _ "RangeGenerator this b e step (int m)"] exI [of _ m])
      (simp add: make_RangeGenerator_def pg.loop_visits_all body_fold_collect range_elems_int
        del: Begin.simps End.simps)
qed

theorem range_generator_sequence_witness:
  "\<exists>g n. make_RangeGenerator (+) (<) 1 (3 :: int) 10 (4 :: int) = Inr g
    \<and> param_loop Equals Current (Advance (+)) (End g) (\<lambda>i x acc. Inr (acc @ [x])) (Begin g) 0 [] =
      Some (Inr (map (\<lambda>k. 3 + int k * 4) [0..<n]))
    \<and> n = 2"
proof -
  obtain g n where g: "make_RangeGenerator (+) (<) 1 (3 :: int) 10 (4 :: int) = Inr g"
     "param_loop Equals Current (Advance (+)) (End g) (\<lambda>i x acc. Inr (acc @ [x])) (Begin g) 0 [] =
      Some (Inr (map (\<lambda>k. 3 + int k * 4) [0..<n]))"
    and n: "\<forall>k. k < n \<longleftrightarrow> 3 + int k * 4 < 10"
    using range_generator_sequence [of 4 10 3 1] by (auto simp: INT_MAX_def)
  have "n = 2" using n [rule_format, of 1] n [rule_format, of 2] by simp
  then show ?thesis using g by blast
qed

section \<open>The registry gathers what is declared\<close>

text \<open>
  The test case of a statement, the tests and the instantiations declared for a case, in order, and
  the condition under which the registry never complains: one fixture class per case name.
\<close>

fun stmt_case :: "('a, 'i) reg_stmt \<Rightarrow> string" where
  "stmt_case (TestP cn loc tid bn) = cn"
| "stmt_case (InstantiateP cn loc tid inst) = cn"

fun stmt_type :: "('a, 'i) reg_stmt \<Rightarrow> ptr" where
  "stmt_type (TestP cn loc tid bn) = tid"
| "stmt_type (InstantiateP cn loc tid inst) = tid"

fun declared_tests :: "string \<Rightarrow> ('a, 'i) reg_stmt list \<Rightarrow> local_test_info list" where
  "declared_tests cn [] = []"
| "declared_tests cn (TestP cn' loc tid bn # sts) =
     (if cn' = cn then [\<lparr>test_case_base_name = cn, test_base_name = bn,
        test_meta_factory = TestMetaFactory (TEST_P_class cn bn)\<rparr>] else []) @ declared_tests cn sts"
| "declared_tests cn (InstantiateP cn' loc tid inst # sts) = declared_tests cn sts"

fun declared_insts :: "string \<Rightarrow> ('a, 'i) reg_stmt list \<Rightarrow> ('a, 'i) instantiation_info list" where
  "declared_insts cn [] = []"
| "declared_insts cn (TestP cn' loc tid bn # sts) = declared_insts cn sts"
| "declared_insts cn (InstantiateP cn' loc tid inst # sts) =
     (if cn' = cn then [inst] else []) @ declared_insts cn sts"

definition lookup_case :: "string \<Rightarrow> ('a, 'i) registry \<Rightarrow> ('a, 'i) test_case_info option" where
  "lookup_case cn reg = find (\<lambda>tci. tci_name tci = cn) reg"

definition tests_of :: "string \<Rightarrow> ('a, 'i) registry \<Rightarrow> local_test_info list" where
  "tests_of cn reg = (case lookup_case cn reg of None \<Rightarrow> [] | Some tci \<Rightarrow> tests tci)"

definition insts_of :: "string \<Rightarrow> ('a, 'i) registry \<Rightarrow> ('a, 'i) instantiation_info list" where
  "insts_of cn reg = (case lookup_case cn reg of None \<Rightarrow> [] | Some tci \<Rightarrow> instantiations tci)"

definition case_types :: "(string \<rightharpoonup> ptr) \<Rightarrow> ('a, 'i) registry \<Rightarrow> bool" where
  "case_types ty reg \<longleftrightarrow> (\<forall>tci \<in> set reg. ty (tci_name tci) = Some (tci_type_id tci))"

fun upd_case :: "string \<Rightarrow> ('a, 'i) test_case_info \<Rightarrow> (('a, 'i) test_case_info \<Rightarrow> ('a, 'i) test_case_info) \<Rightarrow>
    ('a, 'i) registry \<Rightarrow> ('a, 'i) registry" where
  "upd_case cn d f [] = [f d]"
| "upd_case cn d f (tci # tcis) =
     (if tci_name tci = cn then f tci # tcis else tci # upd_case cn d f tcis)"

lemma holder_update:
  "case_types ty reg \<Longrightarrow> ty cn = Some tid \<Longrightarrow>
     bindr (GetTestCasePatternHolder cn loc tid reg) (\<lambda>(i, reg'). Inr (reg'[i := f (reg' ! i)])) =
     Inr (upd_case cn (make_test_case_info cn loc tid) f reg)"
proof (induction reg)
  case (Cons tci reg)
  then show ?case
    by (cases "GetTestCasePatternHolder cn loc tid reg") (auto simp: case_types_def)
qed simp

lemma upd_case_facts:
  assumes f: "\<And>t. tci_name (f t) = tci_name t" "\<And>t. tci_type_id (f t) = tci_type_id t"
    and d: "tci_name d = cn" "tci_type_id d = tid"
  shows "lookup_case cn' (upd_case cn d f reg) =
      (if cn' = cn then Some (f (case lookup_case cn reg of None \<Rightarrow> d | Some t \<Rightarrow> t)) else lookup_case cn' reg)"
    and "distinct (map tci_name reg) \<Longrightarrow> distinct (map tci_name (upd_case cn d f reg))"
    and "tci_name ` set (upd_case cn d f reg) = insert cn (tci_name ` set reg)"
    and "case_types ty reg \<Longrightarrow> ty cn = Some tid \<Longrightarrow> case_types ty (upd_case cn d f reg)"
proof -
  show lk: "lookup_case cn' (upd_case cn d f reg) =
      (if cn' = cn then Some (f (case lookup_case cn reg of None \<Rightarrow> d | Some t \<Rightarrow> t)) else lookup_case cn' reg)"
    by (induction reg) (auto simp: lookup_case_def f d)
  show nm: "tci_name ` set (upd_case cn d f reg) = insert cn (tci_name ` set reg)" for reg
    by (induction reg) (auto simp: f d)
  show "distinct (map tci_name reg) \<Longrightarrow> distinct (map tci_name (upd_case cn d f reg))"
    by (induction reg) (auto simp: f d nm simp flip: image_iff)
  show "case_types ty reg \<Longrightarrow> ty cn = Some tid \<Longrightarrow> case_types ty (upd_case cn d f reg)"
    by (induction reg) (auto simp: case_types_def f d)
qed

lemma upd_case_contents:
  assumes f: "\<And>t. tci_name (f t) = tci_name t" "\<And>t. tci_type_id (f t) = tci_type_id t"
      "\<And>t. tests (f t) = tests t @ T" "\<And>t. instantiations (f t) = instantiations t @ I"
    and d: "d = make_test_case_info cn loc tid"
  shows "tests_of cn' (upd_case cn d f reg) = tests_of cn' reg @ (if cn' = cn then T else [])"
    and "insts_of cn' (upd_case cn d f reg) = insts_of cn' reg @ (if cn' = cn then I else [])"
proof -
  have d': "tci_name d = cn" "tci_type_id d = tid" by (simp_all add: d make_test_case_info_def)
  have lk: "lookup_case cn' (upd_case cn d f reg) =
      (if cn' = cn then Some (f (case lookup_case cn reg of None \<Rightarrow> d | Some t \<Rightarrow> t)) else lookup_case cn' reg)"
    by (rule upd_case_facts(1) [OF f(1,2) d'])
  show "tests_of cn' (upd_case cn d f reg) = tests_of cn' reg @ (if cn' = cn then T else [])"
    unfolding tests_of_def lk by (simp add: f d make_test_case_info_def split: option.splits)
  show "insts_of cn' (upd_case cn d f reg) = insts_of cn' reg @ (if cn' = cn then I else [])"
    unfolding insts_of_def lk by (simp add: f d make_test_case_info_def split: option.splits)
qed

lemma stmt_step_facts:
  assumes ct: "case_types ty reg" and ty: "ty (stmt_case st) = Some (stmt_type st)"
    and dist: "distinct (map tci_name reg)"
  shows "\<exists>reg'. stmt_step st reg = Inr reg' \<and> case_types ty reg' \<and> distinct (map tci_name reg')
    \<and> tci_name ` set reg' = insert (stmt_case st) (tci_name ` set reg)
    \<and> (\<forall>cn. tests_of cn reg' = tests_of cn reg @ declared_tests cn [st]
           \<and> insts_of cn reg' = insts_of cn reg @ declared_insts cn [st])"
proof -
  define cn tid where "cn = stmt_case st" and "tid = stmt_type st"
  define loc where "loc = (case st of TestP _ l _ _ \<Rightarrow> l | InstantiateP _ l _ _ \<Rightarrow> l)"
  define f where "f = (case st of TestP cn loc tid bn \<Rightarrow> AddTestPattern cn bn (TestMetaFactory (TEST_P_class cn bn))
     | InstantiateP cn loc tid inst \<Rightarrow> AddTestCaseInstantiation (inst_name inst) (generator inst)
         (name_func inst) (inst_file inst) (inst_line inst))"
  define d :: "('a, 'b) test_case_info" where "d = make_test_case_info cn loc tid"
  have f: "tci_name (f t) = tci_name t" "tci_type_id (f t) = tci_type_id t"
      "tests (f t) = tests t @ declared_tests cn [st]"
      "instantiations (f t) = instantiations t @ declared_insts cn [st]" for t
    by (cases st; simp add: f_def cn_def AddTestPattern_def AddTestCaseInstantiation_def)+
  have d: "tci_name d = cn" "tci_type_id d = tid" by (simp_all add: d_def make_test_case_info_def)
  have step: "stmt_step st reg = Inr (upd_case cn d f reg)"
    using holder_update [OF ct, of cn tid loc f] ty
    by (cases st) (simp_all add: f_def cn_def tid_def loc_def d_def)
  have other: "declared_tests c [st] = []" "declared_insts c [st] = []" if "c \<noteq> cn" for c
    using that by (cases st; simp add: cn_def)+
  have "tests_of c (upd_case cn d f reg) = tests_of c reg @ declared_tests c [st]
      \<and> insts_of c (upd_case cn d f reg) = insts_of c reg @ declared_insts c [st]" for c
    unfolding upd_case_contents [OF f d_def] using other by auto
  then show ?thesis
    using step upd_case_facts(2,3,4) [where f = f and d = d, OF f(1,2) d] ct dist ty
    by (auto simp: cn_def tid_def)
qed

lemma declared_Cons:
  "declared_tests cn (st # sts) = declared_tests cn [st] @ declared_tests cn sts"
  "declared_insts cn (st # sts) = declared_insts cn [st] @ declared_insts cn sts"
  by (cases st; simp)+

lemma stmt_run_facts:
  "case_types ty reg \<Longrightarrow> \<forall>st \<in> set sts. ty (stmt_case st) = Some (stmt_type st) \<Longrightarrow> distinct (map tci_name reg) \<Longrightarrow>
   \<exists>reg'. stmt_run sts reg = Inr reg' \<and> distinct (map tci_name reg')
    \<and> tci_name ` set reg' = tci_name ` set reg \<union> stmt_case ` set sts
    \<and> (\<forall>cn. tests_of cn reg' = tests_of cn reg @ declared_tests cn sts
           \<and> insts_of cn reg' = insts_of cn reg @ declared_insts cn sts)"
proof (induction sts arbitrary: reg)
  case (Cons st sts)
  then obtain reg1 where r1: "stmt_step st reg = Inr reg1" "case_types ty reg1" "distinct (map tci_name reg1)"
      "tci_name ` set reg1 = insert (stmt_case st) (tci_name ` set reg)"
      "\<And>cn. tests_of cn reg1 = tests_of cn reg @ declared_tests cn [st]"
      "\<And>cn. insts_of cn reg1 = insts_of cn reg @ declared_insts cn [st]"
    using stmt_step_facts [of ty reg st] by auto
  then show ?case using Cons.IH [of reg1] Cons.prems
    by (auto simp: declared_Cons [of _ st sts] simp del: declared_tests.simps declared_insts.simps)
qed simp

text \<open>\<open>TEST_P\<close> and \<open>INSTANTIATE_TEST_CASE_P\<close> statements may come in any order and interleaving: when
  each case name belongs to one fixture class, the registry ends up with exactly one entry per case
  name, holding the tests and the instantiations declared for it in their order.\<close>

theorem registry_collects:
  assumes "\<forall>st \<in> set sts. ty (stmt_case st) = Some (stmt_type st)"
  shows "\<exists>reg. stmt_run sts [] = Inr reg \<and> distinct (map tci_name reg)
    \<and> set (map tci_name reg) = set (map stmt_case sts)
    \<and> (\<forall>cn. tests_of cn reg = declared_tests cn sts \<and> insts_of cn reg = declared_insts cn sts)"
proof -
  have "case_types ty []" by (simp add: case_types_def)
  from stmt_run_facts [OF this assms] show ?thesis
    by (simp add: tests_of_def insts_of_def lookup_case_def)
qed

theorem registry_collects_witness:
  "\<exists>reg. stmt_run [TestP ''A'' \<lparr>loc_file = [], loc_line = 1\<rparr> 7 ''x'',
        TestP ''B'' \<lparr>loc_file = [], loc_line = 2\<rparr> 8 ''y'', TestP ''A'' \<lparr>loc_file = [], loc_line = 3\<rparr> 7 ''z''] ([] :: (int, int) registry)
      = Inr reg
    \<and> map test_base_name (tests_of ''A'' reg) = [''x'', ''z'']"
proof -
  let ?l = "\<lambda>n. \<lparr>loc_file = [], loc_line = n\<rparr>"
  let ?sts = "[TestP ''A'' (?l 1) 7 ''x'', TestP ''B'' (?l 2) 8 ''y'', TestP ''A'' (?l 3) 7 ''z'']
      :: (int, int) reg_stmt list"
  have "\<forall>st \<in> set ?sts. [''A'' \<mapsto> 7, ''B'' \<mapsto> 8] (stmt_case st) = Some (stmt_type st)" by simp
  from registry_collects [OF this] obtain reg where
      "stmt_run ?sts [] = Inr reg" "tests_of ''A'' reg = declared_tests ''A'' ?sts" by blast
  then show ?thesis by (intro exI [of _ reg] conjI) simp_all
qed

end
