(* ===== verification/Gtest_Combine.thy ===== *)
theory Gtest_Combine
  imports Gtest_Param_Util
begin

text \<open>
  \<open>Combine\<close> of the bundled googletest (\<open>CartesianProductGenerator2\<close> to \<open>10\<close> in
  \<open>gtest/internal/gtest-param-util-generated.h\<close>) and the functions of \<open>gtest/gtest-param-test.h\<close> that make
  generators. The classes for the arities differ in the number of their members only; here the
  components are a list, of any length, and a tuple of parameters is the list of its components, whose
  types are taken as one. A component is used through the operations of its iterator, which are arguments.
  Main result: the product of generators that keep the contract \<open>param_generators\<close> keeps it too.
\<close>

section \<open>The iterator over a product\<close>

record ('it, 'a) cartesian_iterator =
  cp_base :: ptr
  begins :: "'it list"
  ends :: "'it list"
  currents :: "'it list"
  current_value :: "'a list"

record 'g cartesian_generator =
  cp_this :: ptr
  cp_gens :: "'g list"

text \<open>The chains of \<open>||\<close> in \<open>AtEnd\<close> and of \<open>&&\<close> in \<open>Equals\<close>, and the reading of all components.\<close>

fun any_at_end :: "('it \<Rightarrow> 'it \<Rightarrow> bool res) \<Rightarrow> 'it list \<Rightarrow> 'it list \<Rightarrow> bool res" where
  "any_at_end eq (c # cs) (e # es) = bindr (eq c e) (\<lambda>b. if b then Inr True else any_at_end eq cs es)"
| "any_at_end eq _ _ = Inr False"

fun all_equal :: "('it \<Rightarrow> 'it \<Rightarrow> bool res) \<Rightarrow> 'it list \<Rightarrow> 'it list \<Rightarrow> bool res" where
  "all_equal eq (c # cs) (d # ds) = bindr (eq c d) (\<lambda>b. if b then all_equal eq cs ds else Inr False)"
| "all_equal eq _ _ = Inr True"

fun read_all :: "('it \<Rightarrow> ('a \<times> 'it) res) \<Rightarrow> 'it list \<Rightarrow> ('a list \<times> 'it list) res" where
  "read_all cur [] = Inr ([], [])"
| "read_all cur (c # cs) = bindr (cur c) (\<lambda>(x, c1). bindr (read_all cur cs) (\<lambda>(xs, cs1). Inr (x # xs, c1 # cs1)))"

definition AtEnd :: "('it \<Rightarrow> 'it \<Rightarrow> bool res) \<Rightarrow> ('it, 'a) cartesian_iterator \<Rightarrow> bool res" where
  "AtEnd eq it = any_at_end eq (currents it) (ends it)"

definition ComputeCurrentValue ::
  "('it \<Rightarrow> 'it \<Rightarrow> bool res) \<Rightarrow> ('it \<Rightarrow> ('a \<times> 'it) res) \<Rightarrow>
   ('it, 'a) cartesian_iterator \<Rightarrow> ('it, 'a) cartesian_iterator res" where
  "ComputeCurrentValue eq cur it = bindr (AtEnd eq it) (\<lambda>at_end.
     if \<not> at_end
     then bindr (read_all cur (currents it)) (\<lambda>(xs, cs). Inr (it\<lparr>currents := cs, current_value := xs\<rparr>))
     else Inr it)"

text \<open>
  The constructor: \<open>dflt\<close> is the tuple \<open>current_value_\<close> is default-constructed to.
\<close>

definition make_Iterator ::
  "('g \<Rightarrow> 'it) \<Rightarrow> ('g \<Rightarrow> 'it) \<Rightarrow> ('it \<Rightarrow> 'it \<Rightarrow> bool res) \<Rightarrow> ('it \<Rightarrow> ('a \<times> 'it) res) \<Rightarrow> 'a list \<Rightarrow>
   ptr \<Rightarrow> 'g list \<Rightarrow> 'it list \<Rightarrow> ('it, 'a) cartesian_iterator res" where
  "make_Iterator first fin eq cur dflt base gs cs =
     ComputeCurrentValue eq cur \<lparr>cp_base = base, begins = map first gs, ends = map fin gs,
       currents = cs, current_value = dflt\<rparr>"

definition cp_Begin where
  "cp_Begin first fin eq cur dflt g =
     make_Iterator first fin eq cur dflt (cp_this g) (cp_gens g) (map first (cp_gens g))"

definition cp_End where
  "cp_End first fin eq cur dflt g =
     make_Iterator first fin eq cur dflt (cp_this g) (cp_gens g) (map fin (cp_gens g))"

text \<open>
  The components from the second on, last one first: the one on the right is incremented, and a
  component found at its end goes back to its beginning and increments the one on its left.
\<close>

fun carry_all ::
  "('it \<Rightarrow> 'it \<Rightarrow> bool res) \<Rightarrow> ('it \<Rightarrow> 'it res) \<Rightarrow> 'it list \<Rightarrow> 'it list \<Rightarrow> 'it list \<Rightarrow> (bool \<times> 'it list) res" where
  "carry_all eq adv (b # bs) (e # es) (c # cs) = bindr (carry_all eq adv bs es cs) (\<lambda>(carry, cs1).
     bindr (if carry then adv c else Inr c) (\<lambda>c1.
     bindr (eq c1 e) (\<lambda>at_end. if at_end then Inr (True, b # cs1) else Inr (False, c1 # cs1))))"
| "carry_all eq adv _ _ _ = Inr (True, [])"

definition cp_Advance ::
  "('it \<Rightarrow> 'it \<Rightarrow> bool res) \<Rightarrow> ('it \<Rightarrow> ('a \<times> 'it) res) \<Rightarrow> ('it \<Rightarrow> 'it res) \<Rightarrow>
   ('it, 'a) cartesian_iterator \<Rightarrow> ('it, 'a) cartesian_iterator res" where
  "cp_Advance eq cur adv it = bindr (AtEnd eq it) (\<lambda>at_end.
     if at_end then Inl AssertFail
     else bindr (carry_all eq adv (tl (begins it)) (tl (ends it)) (tl (currents it))) (\<lambda>(carry, cs).
            bindr (if carry then adv (hd (currents it)) else Inr (hd (currents it))) (\<lambda>c1.
              ComputeCurrentValue eq cur (it\<lparr>currents := c1 # cs\<rparr>))))"

definition cp_Current :: "('it, 'a) cartesian_iterator \<Rightarrow> ('a list \<times> ('it, 'a) cartesian_iterator) res" where
  "cp_Current it = Inr (current_value it, it)"

definition cp_Equals ::
  "('it \<Rightarrow> 'it \<Rightarrow> bool res) \<Rightarrow> ('it, 'a) cartesian_iterator \<Rightarrow> ('it, 'a) cartesian_iterator \<Rightarrow> bool res" where
  "cp_Equals eq it other =
     (if cp_base it \<noteq> cp_base other then Inl Abort
      else bindr (AtEnd eq it) (\<lambda>a. bindr (if a then AtEnd eq other else Inr False) (\<lambda>both.
             if both then Inr True else all_equal eq (currents it) (currents other))))"

definition cp_Clone ::
  "('it \<Rightarrow> 'it) \<Rightarrow> ('it \<Rightarrow> 'it \<Rightarrow> bool res) \<Rightarrow> ('it \<Rightarrow> ('a \<times> 'it) res) \<Rightarrow> 'a list \<Rightarrow>
   ('it, 'a) cartesian_iterator \<Rightarrow> ('it, 'a) cartesian_iterator res" where
  "cp_Clone clone eq cur dflt it = ComputeCurrentValue eq cur
     \<lparr>cp_base = cp_base it, begins = map clone (begins it), ends = map clone (ends it),
      currents = map clone (currents it), current_value = dflt\<rparr>"


section \<open>Positions in a product\<close>

text \<open>The digits of a position, the last one fastest; a digit may stand at the size of its component.\<close>

fun mixed :: "nat list \<Rightarrow> nat list \<Rightarrow> nat" where
  "mixed (n # ns) (k # ks) = k * prod_list ns + mixed ns ks"
| "mixed _ _ = 0"

fun full :: "nat list \<Rightarrow> nat list \<Rightarrow> bool" where
  "full (n # ns) (k # ks) \<longleftrightarrow> k = n \<or> full ns ks"
| "full _ _ \<longleftrightarrow> False"

lemma digits_less: "list_all2 (\<le>) ks ns \<Longrightarrow> \<not> full ns ks \<Longrightarrow> list_all2 (<) ks ns"
  by (induction ks ns rule: list_all2_induct) auto

lemma mixed_less: "list_all2 (<) ks ns \<Longrightarrow> mixed ns ks < prod_list ns"
proof (induction ks ns rule: list_all2_induct)
  case (Cons k ks n ns)
  then have "Suc k * prod_list ns \<le> n * prod_list ns" by (intro mult_le_mono1) simp
  with Cons show ?case by simp
qed simp

lemma mixed_inj:
  "list_all2 (<) ks ns \<Longrightarrow> list_all2 (<) js ns \<Longrightarrow> mixed ns ks = mixed ns js \<longleftrightarrow> ks = js"
proof (induction ks ns arbitrary: js rule: list_all2_induct)
  case (Cons k ks n ns)
  then obtain j js' where js: "js = j # js'" "list_all2 (<) js' ns" by (auto simp: list_all2_Cons2)
  have "mixed ns ks < prod_list ns" "mixed ns js' < prod_list ns" using Cons js by (auto intro: mixed_less)
  then have "k * prod_list ns + mixed ns ks = j * prod_list ns + mixed ns js' \<longleftrightarrow> k = j \<and> mixed ns ks = mixed ns js'"
  proof -
    have "(a * prod_list ns + b) div prod_list ns = a \<and> (a * prod_list ns + b) mod prod_list ns = b"
      if "b < prod_list ns" for a b using that by simp
    with \<open>mixed ns ks < prod_list ns\<close> \<open>mixed ns js' < prod_list ns\<close> show ?thesis by metis
  qed
  with Cons js show ?case by simp
qed simp

lemma nth_concat_uniform:
  "(\<And>x. x \<in> set xs \<Longrightarrow> length (f x) = m) \<Longrightarrow> k < length xs \<Longrightarrow> j < m \<Longrightarrow> concat (map f xs) ! (k * m + j) = f (xs ! k) ! j"
proof (induction xs arbitrary: k)
  case (Cons x xs)
  then show ?case by (cases k) (auto simp: nth_append)
qed simp

lemma length_product: "length (product_lists xss) = prod_list (map length xss)"
  by (induction xss) (simp_all add: length_concat comp_def sum_list_triv)

lemma product_nth:
  "list_all2 (<) ks (map length xss) \<Longrightarrow> product_lists xss ! mixed (map length xss) ks = map2 (!) xss ks"
proof (induction xss arbitrary: ks)
  case (Cons xs xss)
  then obtain k ks' where ks: "ks = k # ks'" "k < length xs" "list_all2 (<) ks' (map length xss)"
    by (auto simp: list_all2_Cons2)
  have "mixed (map length xss) ks' < length (product_lists xss)"
    using ks(3) mixed_less by (simp add: length_product)
  with ks Cons.IH [OF ks(3)] show ?case
    by (simp add: nth_concat_uniform [where m = "prod_list (map length xss)"] length_product)
qed simp

section \<open>The product of generators that keep the contract\<close>

fun stand :: "('g \<Rightarrow> 'it \<Rightarrow> nat \<Rightarrow> bool) \<Rightarrow> ('g \<Rightarrow> 'a list) \<Rightarrow> 'g list \<Rightarrow> 'it list \<Rightarrow> nat list \<Rightarrow> bool" where
  "stand sa el (g # gs) (c # cs) (k # ks) \<longleftrightarrow> sa g c k \<and> k \<le> length (el g) \<and> stand sa el gs cs ks"
| "stand sa el [] [] [] \<longleftrightarrow> True"
| "stand sa el _ _ _ \<longleftrightarrow> False"

definition product_elems :: "('g \<Rightarrow> 'a list) \<Rightarrow> 'g cartesian_generator \<Rightarrow> 'a list list" where
  "product_elems el g = product_lists (map el (cp_gens g))"

definition cp_ok :: "('g \<Rightarrow> bool) \<Rightarrow> 'g cartesian_generator \<Rightarrow> bool" where
  "cp_ok ok g \<longleftrightarrow> cp_gens g \<noteq> [] \<and> (\<forall>x \<in> set (cp_gens g). ok x)"

text \<open>
  An iterator of the product at a position: its components stand at the digits of the position, and
  the tuple was computed; or it is at the end, when some component is at its end.
\<close>

definition cp_at ::
  "('g \<Rightarrow> 'it) \<Rightarrow> ('g \<Rightarrow> 'it) \<Rightarrow> ('g \<Rightarrow> 'it \<Rightarrow> nat \<Rightarrow> bool) \<Rightarrow> ('g \<Rightarrow> 'a list) \<Rightarrow>
   'g cartesian_generator \<Rightarrow> ('it, 'a) cartesian_iterator \<Rightarrow> nat \<Rightarrow> bool" where
  "cp_at first fin sa el g it p \<longleftrightarrow> cp_base it = cp_this g \<and> begins it = map first (cp_gens g) \<and>
     ends it = map fin (cp_gens g) \<and>
     (\<exists>ks. stand sa el (cp_gens g) (currents it) ks \<and>
       (if full (map (\<lambda>g. length (el g)) (cp_gens g)) ks then p = length (product_elems el g)
        else p = mixed (map (\<lambda>g. length (el g)) (cp_gens g)) ks \<and> current_value it = product_elems el g ! p))"

lemma stand_digits: "stand sa el gs cs ks \<Longrightarrow> list_all2 (\<le>) ks (map (\<lambda>g. length (el g)) gs)"
  by (induction sa el gs cs ks rule: stand.induct) auto

lemma stand_length: "stand sa el gs cs ks \<Longrightarrow> length cs = length gs \<and> length ks = length gs"
  by (induction sa el gs cs ks rule: stand.induct) auto

context param_generators
begin

abbreviation size_list :: "'g list \<Rightarrow> nat list" where
  "size_list gs \<equiv> map (\<lambda>g. length (elems g)) gs"

lemma stand_first: "\<forall>g \<in> set gs. ok g \<Longrightarrow> stand stands_at elems gs (map first gs) (replicate (length gs) 0)"
  by (induction gs) (auto intro: first_at)

lemma stand_fin: "\<forall>g \<in> set gs. ok g \<Longrightarrow> stand stands_at elems gs (map fin gs) (size_list gs)"
  by (induction gs) (auto intro: fin_at)

lemma any_at_end_stand:
  "stand stands_at elems gs cs ks \<Longrightarrow> \<forall>g \<in> set gs. ok g \<Longrightarrow>
    any_at_end eq cs (map fin gs) = Inr (full (size_list gs) ks)"
proof (induction gs arbitrary: cs ks)
  case Nil
  then show ?case by (cases cs; cases ks) auto
next
  case (Cons g gs)
  then show ?case by (cases cs; cases ks) (auto simp: eq_at [OF _ _ fin_at])
qed

lemma all_equal_stand:
  "stand stands_at elems gs cs ks \<Longrightarrow> stand stands_at elems gs ds js \<Longrightarrow> \<forall>g \<in> set gs. ok g \<Longrightarrow>
    all_equal eq cs ds = Inr (ks = js)"
proof (induction gs arbitrary: cs ks ds js)
  case Nil
  then show ?case by (cases cs; cases ks; cases ds; cases js) auto
next
  case (Cons g gs)
  then show ?case by (cases cs; cases ks; cases ds; cases js) (auto simp: eq_at)
qed

lemma read_all_stand:
  "stand stands_at elems gs cs ks \<Longrightarrow> \<forall>g \<in> set gs. ok g \<Longrightarrow> \<not> full (size_list gs) ks \<Longrightarrow>
    \<exists>cs'. read_all cur cs = Inr (map2 (!) (map elems gs) ks, cs') \<and> stand stands_at elems gs cs' ks"
proof (induction gs arbitrary: cs ks)
  case Nil
  then show ?case by (cases cs; cases ks) auto
next
  case (Cons g gs)
  then obtain c cs' k ks' where cs: "cs = c # cs'" "ks = k # ks'" by (cases cs; cases ks) auto
  with Cons.prems have k: "stands_at g c k" "k < length (elems g)" "stand stands_at elems gs cs' ks'"
      "\<not> full (size_list gs) ks'" "ok g" by auto
  then obtain c1 where "cur c = Inr (elems g ! k, c1)" "stands_at g c1 k" using cur_at by blast
  with k Cons.IH [OF k(3) _ k(4)] Cons.prems(2) show ?case by (auto simp: cs)
qed

lemma carry_all_stand:
  assumes "stand stands_at elems gs cs ks" "\<forall>g \<in> set gs. ok g" "\<not> full (size_list gs) ks"
  shows "\<exists>carry cs' ks'. carry_all eq adv (map first gs) (map fin gs) cs = Inr (carry, cs') \<and>
    stand stands_at elems gs cs' ks' \<and> \<not> full (size_list gs) ks' \<and>
    (if carry then Suc (mixed (size_list gs) ks) = prod_list (size_list gs) \<and> mixed (size_list gs) ks' = 0
     else mixed (size_list gs) ks' = Suc (mixed (size_list gs) ks))"
  using assms
proof (induction gs arbitrary: cs ks)
  case Nil
  then have "cs = [] \<and> ks = []" by (cases cs; cases ks) simp_all
  then show ?case by (intro exI [of _ True] exI [of _ "[]"]) simp
next
  case (Cons g gs)
  then obtain c cs1 k ks1 where cs: "cs = c # cs1" "ks = k # ks1" by (cases cs; cases ks) auto
  with Cons.prems have k: "stands_at g c k" "k < length (elems g)" "stand stands_at elems gs cs1 ks1"
      "\<not> full (size_list gs) ks1" "ok g" by auto
  have oks: "\<forall>g \<in> set gs. ok g" using Cons.prems(2) by simp
  from Cons.IH [OF k(3) oks k(4)] obtain carry cs2 ks2 where
    ih: "carry_all eq adv (map first gs) (map fin gs) cs1 = Inr (carry, cs2)" "stand stands_at elems gs cs2 ks2"
      "\<not> full (size_list gs) ks2"
      "if carry then Suc (mixed (size_list gs) ks1) = prod_list (size_list gs) \<and> mixed (size_list gs) ks2 = 0
       else mixed (size_list gs) ks2 = Suc (mixed (size_list gs) ks1)"
    by (elim exE conjE)
  obtain c1 where c1: "adv c = Inr c1" "stands_at g c1 (Suc k)" using adv_at [OF k(5,1,2)] by blast
  have e: "eq c1 (fin g) = Inr (Suc k = length (elems g))" "eq c (fin g) = Inr False"
    using eq_at [OF k(5) _ fin_at [OF k(5)]] c1(2) k(1,2) by auto
  let ?P = "prod_list (size_list gs)" and ?m = "mixed (size_list gs)"
  consider (stay) "\<not> carry" | (wrap) carry "Suc k = length (elems g)" | (up) carry "Suc k < length (elems g)"
    using k(2) by linarith
  then show ?case
  proof cases
    case stay
    then have "?m ks2 = Suc (?m ks1)" using ih(4) by simp
    with stay ih(1-3) k e(2) show ?thesis
      by (intro exI [of _ False] exI [of _ "c # cs2"] exI [of _ "k # ks2"]) (simp add: cs)
  next
    case wrap
    then have m: "Suc (?m ks1) = ?P" "?m ks2 = 0" using ih(4) by simp_all
    have "Suc (k * ?P + ?m ks1) = length (elems g) * ?P" using m(1) by (simp flip: wrap(2))
    with m wrap ih(1-3) k(2) e(1) c1(1) first_at [OF k(5)] show ?thesis
      by (intro exI [of _ True] exI [of _ "first g # cs2"] exI [of _ "0 # ks2"]) (auto simp: cs)
  next
    case up
    then have m: "Suc (?m ks1) = ?P" "?m ks2 = 0" using ih(4) by simp_all
    have "Suc k * ?P = Suc (k * ?P + ?m ks1)" using m(1) by simp
    with m(2) up ih(1-3) e(1) c1 show ?thesis
      by (intro exI [of _ False] exI [of _ "c1 # cs2"] exI [of _ "Suc k # ks2"]) (simp add: cs)
  qed
qed

abbreviation pos :: "'g cartesian_generator \<Rightarrow> nat list \<Rightarrow> nat" where
  "pos g ks \<equiv> (if full (size_list (cp_gens g)) ks then length (product_elems elems g)
     else mixed (size_list (cp_gens g)) ks)"

lemma length_product_elems: "length (product_elems elems g) = prod_list (size_list (cp_gens g))"
  by (simp add: product_elems_def length_product comp_def)

lemma pos_eq:
  assumes "stand stands_at elems (cp_gens g) cs ks" "stand stands_at elems (cp_gens g) ds js"
  shows "pos g ks = pos g js \<longleftrightarrow> full (size_list (cp_gens g)) ks \<and> full (size_list (cp_gens g)) js \<or> ks = js"
proof -
  let ?ns = "size_list (cp_gens g)"
  have *: "\<not> full ?ns hs \<Longrightarrow> list_all2 (<) hs ?ns \<and> mixed ?ns hs < length (product_elems elems g)"
    if "stand stands_at elems (cp_gens g) bs hs" for bs hs
    using digits_less [OF stand_digits [OF that]] mixed_less unfolding length_product_elems by blast
  show ?thesis using * [OF assms(1)] * [OF assms(2)] mixed_inj [of ks ?ns js] by (metis less_irrefl)
qed

lemma ComputeCurrentValue_at:
  assumes "cp_ok ok g" "cp_base it = cp_this g" "begins it = map first (cp_gens g)" "ends it = map fin (cp_gens g)"
    and st: "stand stands_at elems (cp_gens g) (currents it) ks"
  shows "\<exists>it'. ComputeCurrentValue eq cur it = Inr it' \<and> cp_at first fin stands_at elems g it' (pos g ks)"
proof -
  let ?ns = "size_list (cp_gens g)"
  have oks: "\<forall>x \<in> set (cp_gens g). ok x" using assms(1) by (simp add: cp_ok_def)
  have end_: "AtEnd eq it = Inr (full ?ns ks)"
    unfolding AtEnd_def assms(4) by (rule any_at_end_stand [OF st oks])
  show ?thesis
  proof (cases "full ?ns ks")
    case True
    then have "ComputeCurrentValue eq cur it = Inr it" by (simp add: ComputeCurrentValue_def end_)
    then show ?thesis using True assms unfolding cp_at_def by auto
  next
    case False
    obtain cs where cs: "read_all cur (currents it) = Inr (map2 (!) (map elems (cp_gens g)) ks, cs)"
        "stand stands_at elems (cp_gens g) cs ks"
      using read_all_stand [OF st oks False] by blast
    have "list_all2 (<) ks (map length (map elems (cp_gens g)))"
      using digits_less [OF stand_digits [OF st] False] by (simp add: comp_def)
    from product_nth [OF this] have val: "map2 (!) (map elems (cp_gens g)) ks = product_elems elems g ! mixed ?ns ks"
      by (simp add: product_elems_def comp_def)
    have "ComputeCurrentValue eq cur it =
        Inr (it\<lparr>currents := cs, current_value := product_elems elems g ! mixed ?ns ks\<rparr>)"
      using False by (simp add: ComputeCurrentValue_def end_ cs(1) val)
    then show ?thesis using False assms(2-4) cs(2) unfolding cp_at_def by auto
  qed
qed

lemma cp_Begin_at:
  assumes "cp_ok ok g"
  shows "\<exists>it. cp_Begin first fin eq cur dflt g = Inr it \<and> cp_at first fin stands_at elems g it 0"
proof -
  let ?gs = "cp_gens g" and ?ks = "replicate (length (cp_gens g)) 0"
  have "stand stands_at elems ?gs (map first ?gs) ?ks"
    by (rule stand_first) (use assms in \<open>simp add: cp_ok_def\<close>)
  moreover have "mixed ns (replicate m 0) = 0" for ns m by (induction ns arbitrary: m) (case_tac m; simp)+
  moreover have "full (size_list gs) (replicate (length gs) 0) \<Longrightarrow> prod_list (size_list gs) = 0" for gs
    by (induction gs) auto
  ultimately show ?thesis
    using ComputeCurrentValue_at [OF assms, of "\<lparr>cp_base = cp_this g, begins = map first ?gs, ends = map fin ?gs,
       currents = map first ?gs, current_value = dflt\<rparr>" ?ks]
    by (auto simp: cp_Begin_def make_Iterator_def length_product_elems split: if_splits)
qed

lemma cp_End_at:
  assumes "cp_ok ok g"
  shows "\<exists>it. cp_End first fin eq cur dflt g = Inr it \<and>
    cp_at first fin stands_at elems g it (length (product_elems elems g))"
proof -
  let ?gs = "cp_gens g"
  have "stand stands_at elems ?gs (map fin ?gs) (size_list ?gs)"
    by (rule stand_fin) (use assms in \<open>simp add: cp_ok_def\<close>)
  moreover have "full (size_list ?gs) (size_list ?gs)" using assms by (cases ?gs) (simp_all add: cp_ok_def)
  ultimately show ?thesis
    using ComputeCurrentValue_at [OF assms, of "\<lparr>cp_base = cp_this g, begins = map first ?gs, ends = map fin ?gs,
       currents = map fin ?gs, current_value = dflt\<rparr>" "size_list ?gs"]
    by (auto simp: cp_End_def make_Iterator_def)
qed

lemma cp_Equals_at:
  assumes "cp_ok ok g" "cp_at first fin stands_at elems g a i" "cp_at first fin stands_at elems g b j"
  shows "cp_Equals eq a b = Inr (i = j)"
proof -
  let ?ns = "size_list (cp_gens g)"
  have oks: "\<forall>x \<in> set (cp_gens g). ok x" using assms(1) by (simp add: cp_ok_def)
  obtain ks where ks: "stand stands_at elems (cp_gens g) (currents a) ks" "i = pos g ks"
    using assms(2) unfolding cp_at_def by (metis (full_types))
  obtain js where js: "stand stands_at elems (cp_gens g) (currents b) js" "j = pos g js"
    using assms(3) unfolding cp_at_def by (metis (full_types))
  have "AtEnd eq a = Inr (full ?ns ks)" "AtEnd eq b = Inr (full ?ns js)" "cp_base a = cp_base b"
    using assms(2,3) any_at_end_stand [OF _ oks] ks(1) js(1) by (simp_all add: AtEnd_def cp_at_def)
  moreover have "all_equal eq (currents a) (currents b) = Inr (ks = js)"
    by (rule all_equal_stand [OF ks(1) js(1) oks])
  ultimately show ?thesis using pos_eq [OF ks(1) js(1)] ks(2) js(2) by (auto simp: cp_Equals_def)
qed

lemma cp_Advance_at:
  assumes "cp_ok ok g" "cp_at first fin stands_at elems g a i" "i < length (product_elems elems g)"
  shows "\<exists>a'. cp_Advance eq cur adv a = Inr a' \<and> cp_at first fin stands_at elems g a' (Suc i)"
proof -
  obtain x xs where gs: "cp_gens g = x # xs" using assms(1) by (cases "cp_gens g") (auto simp: cp_ok_def)
  let ?ns = "size_list xs"
  have oks: "\<forall>y \<in> set (x # xs). ok y" "ok x" "\<forall>y \<in> set xs. ok y" using assms(1) by (auto simp: cp_ok_def gs)
  obtain hs where hs: "stand stands_at elems (x # xs) (currents a) hs" "i = pos g hs"
    using assms(2) unfolding cp_at_def gs by (metis (full_types))
  then have nf: "\<not> full (size_list (x # xs)) hs" using assms(3) gs by auto
  obtain c cs k ks where cs: "currents a = c # cs" "hs = k # ks" using hs(1) by (cases "currents a"; cases hs) auto
  have k: "stands_at x c k" "k < length (elems x)" "stand stands_at elems xs cs ks" "\<not> full ?ns ks"
    using hs(1) nf by (auto simp: cs)
  have i: "i = k * prod_list ?ns + mixed ?ns ks" using hs(2) nf by (simp add: gs cs)
  have fields: "cp_base a = cp_this g" "begins a = map first (x # xs)" "ends a = map fin (x # xs)"
    using assms(2) by (simp_all add: cp_at_def gs)
  have at: "AtEnd eq a = Inr False"
    unfolding AtEnd_def fields using any_at_end_stand [OF hs(1) oks(1)] nf by simp
  obtain carry cs' ks' where carry: "carry_all eq adv (map first xs) (map fin xs) cs = Inr (carry, cs')"
      "stand stands_at elems xs cs' ks'" "\<not> full ?ns ks'"
      "if carry then Suc (mixed ?ns ks) = prod_list ?ns \<and> mixed ?ns ks' = 0 else mixed ?ns ks' = Suc (mixed ?ns ks)"
    using carry_all_stand [OF k(3) oks(3) k(4)] by (elim exE conjE)
  obtain c1 where c1: "adv c = Inr c1" "stands_at x c1 (Suc k)" using adv_at [OF oks(2) k(1,2)] by blast
  let ?c = "if carry then c1 else c" and ?k = "if carry then Suc k else k"
  let ?a = "a\<lparr>currents := ?c # cs'\<rparr>"
  have "stand stands_at elems (cp_gens g) (currents ?a) (?k # ks')" using k c1 carry(2) by (simp add: gs)
  moreover have "pos g (?k # ks') = Suc i"
  proof -
    have up: "carry \<Longrightarrow> Suc k * prod_list ?ns = Suc i" using carry(4) by (simp add: i)
    consider "\<not> carry" | carry "Suc k = length (elems x)" | carry "Suc k < length (elems x)"
      using k(2) by linarith
    then show ?thesis
    proof cases
      case 2
      then show ?thesis using up unfolding length_product_elems by (simp add: gs)
    qed (use carry(3,4) k(2) up in \<open>simp_all add: gs i\<close>)
  qed
  moreover have "cp_Advance eq cur adv a = ComputeCurrentValue eq cur ?a"
    by (cases carry) (simp_all add: cp_Advance_def at fields cs carry(1) c1(1))
  ultimately show ?thesis using ComputeCurrentValue_at [OF assms(1), of ?a "?k # ks'"] fields gs by simp
qed

lemma cp_Current_at:
  assumes "cp_at first fin stands_at elems g a i" "i < length (product_elems elems g)"
  shows "cp_Current a = Inr (product_elems elems g ! i, a)"
  using assms by (auto simp: cp_Current_def cp_at_def split: if_splits)

end

text \<open>The product of any two or more generators of \<open>Gtest_Param_Util\<close> keeps the contract of a generator.\<close>

definition Combine_begin :: "('a, 'i) param_generator cartesian_generator \<Rightarrow> 'a list \<Rightarrow>
    (('a, 'i) param_iterator, 'a) cartesian_iterator res" where
  "Combine_begin g dflt = cp_Begin Begin End Equals Current dflt g"

definition Combine_end :: "('a, 'i) param_generator cartesian_generator \<Rightarrow> 'a list \<Rightarrow>
    (('a, 'i) param_iterator, 'a) cartesian_iterator res" where
  "Combine_end g dflt = cp_End Begin End Equals Current dflt g"

interpretation cp: param_generators "cp_ok gen_ok" "\<lambda>g. projr (Combine_begin g dflt)" "\<lambda>g. projr (Combine_end g dflt)"
  "cp_Equals Equals" cp_Current "cp_Advance Equals Current (Advance add)" "cp_at Begin End (gen_at add) (elements add)"
  "product_elems (elements add)"
  for dflt :: "'a list" and add :: "'a \<Rightarrow> 'i \<Rightarrow> 'a"
proof unfold_locales
  fix g :: "('a, 'i) param_generator cartesian_generator"
  assume "cp_ok gen_ok g"
  then show "cp_at Begin End (gen_at add) (elements add) g (projr (Combine_begin g dflt)) 0"
    using pg.cp_Begin_at [of g dflt add] by (auto simp: Combine_begin_def)
next
  fix g :: "('a, 'i) param_generator cartesian_generator"
  assume "cp_ok gen_ok g"
  then show "cp_at Begin End (gen_at add) (elements add) g (projr (Combine_end g dflt)) (length (product_elems (elements add) g))"
    using pg.cp_End_at [of g dflt add] by (auto simp: Combine_end_def)
qed (auto intro: pg.cp_Equals_at pg.cp_Advance_at simp: pg.cp_Current_at)

section \<open>Copies of iterators\<close>

text \<open>What \<open>Clone\<close> promises in addition: a copy stands where the original stands.\<close>

locale cloneable_generators = param_generators +
  fixes clone :: "'b \<Rightarrow> 'b"
  assumes clone_at: "ok g \<Longrightarrow> stands_at g a i \<Longrightarrow> stands_at g (clone a) i"
    and clone_first: "ok g \<Longrightarrow> clone (first g) = first g"
    and clone_fin: "ok g \<Longrightarrow> clone (fin g) = fin g"
begin

lemma stand_clone:
  "stand stands_at elems gs cs ks \<Longrightarrow> \<forall>g \<in> set gs. ok g \<Longrightarrow> stand stands_at elems gs (map clone cs) ks"
proof (induction gs arbitrary: cs ks)
  case Nil
  then show ?case by (cases cs; cases ks) auto
next
  case (Cons g gs)
  then show ?case by (cases cs; cases ks) (auto intro: clone_at)
qed

lemma cp_Clone_at:
  assumes "cp_ok ok g" "cp_at first fin stands_at elems g a i"
  shows "\<exists>a'. cp_Clone clone eq cur dflt a = Inr a' \<and> cp_at first fin stands_at elems g a' i"
proof -
  let ?a = "\<lparr>cp_base = cp_base a, begins = map clone (begins a), ends = map clone (ends a),
      currents = map clone (currents a), current_value = dflt\<rparr>"
  have oks: "\<forall>x \<in> set (cp_gens g). ok x" using assms(1) by (simp add: cp_ok_def)
  obtain ks where ks: "stand stands_at elems (cp_gens g) (currents a) ks" "i = pos g ks"
    using assms(2) unfolding cp_at_def by (metis (full_types))
  have "begins ?a = map first (cp_gens g)" "ends ?a = map fin (cp_gens g)" "cp_base ?a = cp_this g"
    using assms(2) oks by (auto simp: cp_at_def clone_first clone_fin)
  then show ?thesis
    using ComputeCurrentValue_at [OF assms(1), of ?a ks] stand_clone [OF ks(1) oks] ks(2)
    by (simp add: cp_Clone_def)
qed

end

interpretation pgc: cloneable_generators gen_ok Begin End Equals Current "Advance add" "gen_at add" "elements add" Clone
  for add :: "'a \<Rightarrow> 'i \<Rightarrow> 'a"
proof unfold_locales
  fix g :: "('a, 'i) param_generator" and a i
  assume "gen_at add g a i"
  then show "gen_at add g (Clone a) i" by (cases g; cases a) auto
next
  fix g :: "('a, 'i) param_generator"
  show "Clone (Begin g) = Begin g" "Clone (End g) = End g" by (cases g; simp)+
qed

section \<open>The functions that make generators\<close>

definition Range_step ::
  "('a \<Rightarrow> 'i \<Rightarrow> 'a) \<Rightarrow> ('a \<Rightarrow> 'a \<Rightarrow> bool) \<Rightarrow> ptr \<Rightarrow> 'a \<Rightarrow> 'a \<Rightarrow> 'i \<Rightarrow> ('a, 'i) param_generator res" where
  "Range_step add lt this start an_end step = make_RangeGenerator add lt this start an_end step"

definition Range_one ::
  "('a \<Rightarrow> int \<Rightarrow> 'a) \<Rightarrow> ('a \<Rightarrow> 'a \<Rightarrow> bool) \<Rightarrow> ptr \<Rightarrow> 'a \<Rightarrow> 'a \<Rightarrow> ('a, int) param_generator res" where
  "Range_one add lt this start an_end = Range_step add lt this start an_end 1"

text \<open>\<open>ValueArrayN\<close>: the values, each converted by a cast when the generator is made.\<close>

definition ValueArray :: "('t \<Rightarrow> 'a) \<Rightarrow> ptr \<Rightarrow> 't list \<Rightarrow> ('a, 'i) param_generator" where
  "ValueArray cast this vs = make_ValuesIn this (map cast vs)"

definition Bool_generator :: "(bool \<Rightarrow> 'a) \<Rightarrow> ptr \<Rightarrow> ('a, 'i) param_generator" where
  "Bool_generator cast this = ValueArray cast this [False, True]"

definition Combine :: "ptr \<Rightarrow> ('a, 'i) param_generator list \<Rightarrow> ('a, 'i) param_generator cartesian_generator" where
  "Combine this gs = \<lparr>cp_this = this, cp_gens = gs\<rparr>"

section \<open>Properties\<close>

text \<open>C28: a loop over the combination of generators returns, and visits the tuples of the Cartesian
  product of their values, each once and in lexicographic order, whatever the loop body does; in
  particular it visits none when one of the generators is empty.\<close>

theorem combine_visits_product:
  assumes "gs \<noteq> []" "\<forall>g \<in> set gs. gen_ok g"
  shows "\<exists>b e. Combine_begin (Combine this gs) dflt = Inr b \<and> Combine_end (Combine this gs) dflt = Inr e \<and>
    param_loop (cp_Equals Equals) cp_Current (cp_Advance Equals Current (Advance add)) e body b 0 s =
      Some (body_fold body 0 (product_lists (map (elements add) gs)) s)"
proof -
  have ok: "cp_ok gen_ok (Combine this gs)" using assms by (simp add: cp_ok_def Combine_def)
  obtain b e where "Combine_begin (Combine this gs) dflt = Inr b" "Combine_end (Combine this gs) dflt = Inr e"
    using pg.cp_Begin_at [OF ok, of dflt add] pg.cp_End_at [OF ok, of dflt add]
    by (auto simp: Combine_begin_def Combine_end_def)
  with cp.loop_visits_all [OF ok, where dflt = dflt and add = add and body = body and s = s] show ?thesis
    by (simp add: product_elems_def Combine_def)
qed

text \<open>Two flags and two numbers.\<close>

theorem combine_visits_product_witness:
  "\<exists>b e. Combine_begin (Combine 1 [Bool_generator (\<lambda>x. if x then 1 else 0) 2, ValueArray id 3 [7, 8]]) [] = Inr b \<and>
    Combine_end (Combine 1 [Bool_generator (\<lambda>x. if x then 1 else 0) 2, ValueArray id 3 [7, 8]]) [] = Inr e \<and>
    param_loop (cp_Equals Equals) cp_Current (cp_Advance Equals Current (Advance (+))) e
      (\<lambda>i x out. Inr (out @ [(i, x)])) b 0 [] =
    Some (Inr [(0, [0, 7]), (1, [0, 8]), (2, [1, 7]), (3, [1, 8 :: int])])"
  using combine_visits_product [of "[Bool_generator (\<lambda>x. if x then 1 else 0) 2, ValueArray id 3 [7, 8]] :: (int, int) param_generator list"
      1 "[]" "(+)" "\<lambda>i x out. Inr (out @ [(i, x)])" "[]"]
  by (simp add: Bool_generator_def ValueArray_def make_ValuesIn_def numeral_2_eq_2 numeral_3_eq_3)

end
