(* ===== verification/Gtest_With_Param.thy ===== *)
theory Gtest_With_Param
  imports Gtest_Param_Util
begin

text \<open>
  How a test reads its parameter: \<open>WithParamInterface\<close> of gtest.h, whose static pointer \<open>parameter_\<close> (\<open>static_parameter\<close>) is set by
  the test factory to the member of the factory itself and shared by all fixtures with the same parameter type. The
  factories are objects of a heap, named by the address of their member \<open>parameter_\<close>.
\<close>

record 'a with_param =
  static_parameter :: ptr
  factories :: "ptr \<rightharpoonup> 'a parameterized_test_factory"

definition SetParam :: "ptr \<Rightarrow> 'a with_param \<Rightarrow> 'a with_param" where
  "SetParam p w = w\<lparr>static_parameter := p\<rparr>"

definition GetParam :: "'a with_param \<Rightarrow> 'a res" where
  "GetParam w = (if static_parameter w = NULL then Inl Abort
     else bindr (deref (factories w) (static_parameter w)) (\<lambda>fac. Inr (parameter fac)))"

text \<open>
  The constructor of the class a live factory creates, and whatever runs after it, reads the parameter of that
  factory. The check in \<open>GetParam\<close> fails only while the pointer has not been set; afterwards a fixture with the same
  parameter type reads the last parameter set, also in a test that has none, and a parameter of a factory that is gone
  is a use after free.
\<close>

lemma created_test_reads_parameter:
  assumes "factories w this = Some fac" "this \<noteq> NULL"
  shows "CreateTest SetParam (\<lambda>cls w. ((cls, GetParam w), w)) this fac w =
      ((factory_class fac, Inr (parameter fac)), w\<lparr>static_parameter := this\<rparr>)"
    and "GetParam (w\<lparr>static_parameter := this\<rparr>) = Inr (parameter fac)"
  using assms by (simp_all add: CreateTest_def SetParam_def GetParam_def)

lemma GetParam_outcomes:
  "GetParam w = Inl Abort \<longleftrightarrow> static_parameter w = NULL"
  "static_parameter w \<noteq> NULL \<Longrightarrow> GetParam w =
     (case factories w (static_parameter w) of Some fac \<Rightarrow> Inr (parameter fac) | None \<Rightarrow> Inl UseAfterFree)"
  by (auto simp: GetParam_def deref_def split: option.splits)

end
