(* ===== verification/Gtest_Typed_Tests.thy ===== *)
theory Gtest_Typed_Tests
  imports Gtest_Port Gtest_Param_Util
begin

text \<open>
  Typed and type-parameterized tests: type lists (gtest-type-util.h), the registration classes of
  gtest-internal.h, which recurse over type lists at compile time while they cut test names out
  of the text of a macro argument at run time, and the macros of gtest-typed-test.h. A type and a
  test template are values of any type. \<open>MakeAndRegisterTestInfo\<close>, \<open>GetTypeName\<close> and
  \<open>VerifyRegisteredTestNames\<close> are arguments. Main result: an instantiation registers every test
  with every type, under the right names, however the names are spaced in the text.
\<close>

section \<open>Type lists\<close>

text \<open>
  \<open>Types0\<close> to \<open>Types50\<close> with their members \<open>Head\<close> and \<open>Tail\<close>; the lists of templates \<open>Templates0\<close>
  to \<open>Templates50\<close> have the same shape.
\<close>

datatype 'ty type_list = Types0 | TypesN (Head: 'ty) (Tail: "'ty type_list")

text \<open>\<open>Types<T1, ..., Tn>::type\<close>, where the arguments left out default to \<open>None\<close>.\<close>

fun Types_type :: "'ty option list \<Rightarrow> 'ty type_list" where
  "Types_type (Some t # ts) = TypesN t (Types_type ts)"
| "Types_type _ = Types0"

text \<open>\<open>TypeList\<close> takes a single type or a \<open>Types<...>\<close>.\<close>

datatype 'ty type_arg = Single 'ty | Types "'ty option list"

fun TypeList :: "'ty type_arg \<Rightarrow> 'ty type_list" where
  "TypeList (Single t) = TypesN t Types0"
| "TypeList (Types ts) = Types_type ts"

fun types_of :: "'ty type_list \<Rightarrow> 'ty list" where
  "types_of Types0 = []"
| "types_of (TypesN t ts) = t # types_of ts"

lemma types_of_Types: "types_of (Types_type (map Some ts @ replicate n None)) = ts"
proof (induction ts)
  case Nil
  then show ?case by (cases n) simp_all
qed simp

section \<open>Names in a macro argument\<close>

text \<open>A C string is the characters before its NUL, \<open>None\<close> the null pointer.\<close>

fun skip_spaces :: "string \<Rightarrow> string" where
  "skip_spaces [] = []"
| "skip_spaces (c # cs) = (if IsSpace c then skip_spaces cs else c # cs)"

definition comma :: char where "comma = CHR 0x2C"

definition strchr :: "string \<Rightarrow> char \<Rightarrow> string option" where
  "strchr str c = (case dropWhile (\<lambda>x. x \<noteq> c) str of [] \<Rightarrow> None | s \<Rightarrow> Some s)"

definition SkipComma :: "string option \<Rightarrow> string option res" where
  "SkipComma str = (case str of
     None \<Rightarrow> Inl NullDeref
   | Some s \<Rightarrow> Inr (case strchr s comma of None \<Rightarrow> None | Some p \<Rightarrow> Some (skip_spaces (tl p))))"

definition GetPrefixUntilComma :: "string option \<Rightarrow> string res" where
  "GetPrefixUntilComma str = (case str of
     None \<Rightarrow> Inl NullDeref
   | Some s \<Rightarrow> Inr (case strchr s comma of None \<Rightarrow> s | Some p \<Rightarrow> take (length s - length p) s))"

section \<open>TypedTestCasePState\<close>

record TypedTestCasePState =
  registered :: bool
  registered_tests :: "string \<rightharpoonup> code_location"

definition make_TypedTestCasePState :: TypedTestCasePState where
  "make_TypedTestCasePState = \<lparr>registered = False, registered_tests = Map.empty\<rparr>"

text \<open>\<open>map::insert\<close> keeps an entry that is there.\<close>

definition AddTestName :: "code_location \<Rightarrow> string \<Rightarrow> TypedTestCasePState \<Rightarrow> TypedTestCasePState res" where
  "AddTestName loc test_name st =
     (if registered st then Inl Abort
      else Inr (case registered_tests st test_name of
        None \<Rightarrow> st\<lparr>registered_tests := (registered_tests st)(test_name \<mapsto> loc)\<rparr>
      | Some _ \<Rightarrow> st))"

definition TestExists :: "TypedTestCasePState \<Rightarrow> string \<Rightarrow> bool" where
  "TestExists st test_name \<longleftrightarrow> registered_tests st test_name \<noteq> None"

definition GetCodeLocation :: "TypedTestCasePState \<Rightarrow> string \<Rightarrow> code_location res" where
  "GetCodeLocation st test_name =
     (case registered_tests st test_name of None \<Rightarrow> Inl Abort | Some loc \<Rightarrow> Inr loc)"

section \<open>Registration\<close>

record ('sel, 'ty) typed_registration =
  tr_case :: string
  tr_name :: string
  tr_type_name :: string
  tr_location :: code_location
  tr_fixture :: 'ty
  tr_class :: "'sel \<times> 'ty"

definition typed_case_name :: "string \<Rightarrow> string \<Rightarrow> nat \<Rightarrow> string" where
  "typed_case_name pfx case_name idx =
     pfx @ (if pfx = [] then [] else ''/'') @ case_name @ ''/'' @ show_nat idx"

fun TypeParameterizedTest_Register ::
  "('ty \<Rightarrow> string) \<Rightarrow> (('sel, 'ty) typed_registration \<Rightarrow> 'u \<Rightarrow> 'u) \<Rightarrow> string \<Rightarrow> code_location \<Rightarrow> string \<Rightarrow>
    'sel \<Rightarrow> 'ty type_list \<Rightarrow> string option \<Rightarrow> nat \<Rightarrow> 'u \<Rightarrow> 'u res" where
  "TypeParameterizedTest_Register type_name mk pfx loc case_name sel Types0 test_names idx u = Inr u"
| "TypeParameterizedTest_Register type_name mk pfx loc case_name sel (TypesN t ts) test_names idx u =
     bindr (GetPrefixUntilComma test_names) (\<lambda>name.
       TypeParameterizedTest_Register type_name mk pfx loc case_name sel ts test_names (idx + 1)
         (mk \<lparr>tr_case = typed_case_name pfx case_name idx, tr_name = StripTrailingSpaces name,
              tr_type_name = type_name t, tr_location = loc, tr_fixture = t, tr_class = (sel, t)\<rparr> u))"

fun TypeParameterizedTestCase_Register ::
  "('ty \<Rightarrow> string) \<Rightarrow> (('sel, 'ty) typed_registration \<Rightarrow> 'u \<Rightarrow> 'u) \<Rightarrow> string \<Rightarrow> code_location \<Rightarrow>
    TypedTestCasePState \<Rightarrow> string \<Rightarrow> 'sel type_list \<Rightarrow> 'ty type_list \<Rightarrow> string option \<Rightarrow> 'u \<Rightarrow> 'u res" where
  "TypeParameterizedTestCase_Register type_name mk pfx loc st case_name Types0 types test_names u = Inr u"
| "TypeParameterizedTestCase_Register type_name mk pfx loc st case_name (TypesN sel sels) types test_names u =
     bindr (GetPrefixUntilComma test_names) (\<lambda>name.
       let test_name = StripTrailingSpaces name in
       if \<not> TestExists st test_name then Inl Abort
       else bindr (GetCodeLocation st test_name) (\<lambda>test_location.
         bindr (TypeParameterizedTest_Register type_name mk pfx test_location case_name sel types test_names 0 u) (\<lambda>u.
         bindr (SkipComma test_names) (\<lambda>test_names.
           TypeParameterizedTestCase_Register type_name mk pfx loc st case_name sels types test_names u))))"

section \<open>The macros\<close>

definition TYPED_TEST ::
  "('ty \<Rightarrow> string) \<Rightarrow> (('sel, 'ty) typed_registration \<Rightarrow> 'u \<Rightarrow> 'u) \<Rightarrow> code_location \<Rightarrow> string \<Rightarrow> string \<Rightarrow>
    'sel \<Rightarrow> 'ty type_arg \<Rightarrow> 'u \<Rightarrow> 'u res" where
  "TYPED_TEST type_name mk loc case_name test_name sel types u =
     TypeParameterizedTest_Register type_name mk [] loc case_name sel (TypeList types) (Some test_name) 0 u"

text \<open>
  The type-parameterized macros on one test case: the state, the text \<open>REGISTER_TYPED_TEST_CASE_P\<close>
  keeps with the list of the test templates, and what is registered.
\<close>

record ('sel, 'u) typed_case =
  tc_state :: TypedTestCasePState
  tc_names :: "string option"
  tc_tests :: "'sel type_list"
  tc_registry :: 'u

datatype ('sel, 'ty) typed_stmt =
    TYPED_TEST_P code_location string
  | REGISTER_TYPED_TEST_CASE_P string "'sel option list"
  | INSTANTIATE_TYPED_TEST_CASE_P string code_location "'ty type_arg"

definition typed_stmt_step ::
  "(TypedTestCasePState \<Rightarrow> string \<Rightarrow> (string \<times> TypedTestCasePState) res) \<Rightarrow> ('ty \<Rightarrow> string) \<Rightarrow>
    (('sel, 'ty) typed_registration \<Rightarrow> 'u \<Rightarrow> 'u) \<Rightarrow> string \<Rightarrow> ('sel, 'ty) typed_stmt \<Rightarrow>
    ('sel, 'u) typed_case \<Rightarrow> ('sel, 'u) typed_case res" where
  "typed_stmt_step verify type_name mk case_name stmt c = (case stmt of
     TYPED_TEST_P loc test_name \<Rightarrow>
       bindr (AddTestName loc test_name (tc_state c)) (\<lambda>st. Inr (c\<lparr>tc_state := st\<rparr>))
   | REGISTER_TYPED_TEST_CASE_P names templates \<Rightarrow>
       bindr (verify (tc_state c) names) (\<lambda>(names, st).
         Inr (c\<lparr>tc_state := st, tc_names := Some names, tc_tests := Types_type templates\<rparr>))
   | INSTANTIATE_TYPED_TEST_CASE_P pfx loc types \<Rightarrow>
       bindr (TypeParameterizedTestCase_Register type_name mk pfx loc (tc_state c) case_name
                (tc_tests c) (TypeList types) (tc_names c) (tc_registry c)) (\<lambda>u.
         Inr (c\<lparr>tc_registry := u\<rparr>)))"

fun typed_run where
  "typed_run verify type_name mk case_name [] c = Inr c"
| "typed_run verify type_name mk case_name (stmt # stmts) c =
     bindr (typed_stmt_step verify type_name mk case_name stmt c)
       (typed_run verify type_name mk case_name stmts)"

section \<open>Cutting names out of the text\<close>

text \<open>
  The text of the names: each with the spaces after it and, before the next, the spaces after the
  comma.
\<close>

type_synonym piece = "string \<times> string \<times> string"

fun names_text :: "piece list \<Rightarrow> string" where
  "names_text [] = []"
| "names_text [(n, a, b)] = n @ a"
| "names_text ((n, a, b) # p # ps) = n @ a @ [comma] @ b @ names_text (p # ps)"

definition legal_piece :: "piece \<Rightarrow> bool" where
  "legal_piece p = (case p of (n, a, b) \<Rightarrow> n \<noteq> [] \<and> \<not> IsSpace (hd n) \<and> \<not> IsSpace (last n) \<and>
     comma \<notin> set n \<and> list_all IsSpace a \<and> list_all IsSpace b)"

lemma comma_not_space [simp]: "\<not> IsSpace comma"
  by (simp add: IsSpace_def comma_def)

lemma no_comma_in_spaces: "list_all IsSpace a \<Longrightarrow> comma \<notin> set a"
  by (auto simp: list_all_iff)

lemma strip_spaces:
  assumes "n \<noteq> []" and "\<not> IsSpace (last n)" and "list_all IsSpace a"
  shows "StripTrailingSpaces (n @ a) = n"
proof -
  have "dropWhile IsSpace (rev a @ rev n) = rev n"
    using assms by (cases n rule: rev_cases) (auto simp: list_all_iff dropWhile_append)
  then show ?thesis using strip_loop_snoc [of "n @ a"] by (simp add: StripTrailingSpaces_def)
qed

lemma skip_spaces_append: "list_all IsSpace b \<Longrightarrow> skip_spaces (b @ s) = skip_spaces s"
  by (induction b) simp_all

lemma skip_spaces_start: "s \<noteq> [] \<Longrightarrow> \<not> IsSpace (hd s) \<Longrightarrow> skip_spaces s = s"
  by (cases s) simp_all

lemma strchr_none: "c \<notin> set s \<Longrightarrow> strchr s c = None"
  by (induction s) (auto simp: strchr_def)

lemma strchr_at: "c \<notin> set s \<Longrightarrow> strchr (s @ c # t) c = Some (c # t)"
  by (induction s) (auto simp: strchr_def)

lemma names_text_start:
  assumes "legal_piece p"
  shows "names_text (p # ps) \<noteq> [] \<and> hd (names_text (p # ps)) = hd (fst p)"
  using assms by (cases p; cases ps) (auto simp: legal_piece_def)

lemma names_text_split:
  assumes "legal_piece (n, a, b)"
  obtains "ps = []" and "names_text ((n, a, b) # ps) = n @ a"
  | q qs where "ps = q # qs" and "names_text ((n, a, b) # ps) = (n @ a) @ comma # b @ names_text ps"
  by (cases ps) auto

lemma GetPrefixUntilComma_all: "comma \<notin> set s \<Longrightarrow> GetPrefixUntilComma (Some s) = Inr s"
  by (simp add: GetPrefixUntilComma_def strchr_none)

lemma GetPrefixUntilComma_cut: "comma \<notin> set s \<Longrightarrow> GetPrefixUntilComma (Some (s @ comma # t)) = Inr s"
  by (simp add: GetPrefixUntilComma_def strchr_at)

lemma prefix_of_names:
  assumes "legal_piece (n, a, b)"
  shows "GetPrefixUntilComma (Some (names_text ((n, a, b) # ps))) = Inr (n @ a)"
proof -
  have "comma \<notin> set (n @ a)"
    using assms no_comma_in_spaces by (auto simp: legal_piece_def)
  then show ?thesis
    using names_text_split [OF assms, of ps] strchr_at [of comma "n @ a"]
    by (metis (no_types, lifting) GetPrefixUntilComma_cut GetPrefixUntilComma_all)
qed

lemma skip_to_next_name:
  assumes "legal_piece (n, a, b)" and "list_all legal_piece ps"
  shows "SkipComma (Some (names_text ((n, a, b) # ps)))
    = Inr (if ps = [] then None else Some (names_text ps))"
proof -
  have nc: "comma \<notin> set (n @ a)"
    using assms no_comma_in_spaces by (auto simp: legal_piece_def)
  show ?thesis
  proof (rule names_text_split [OF assms(1), of ps])
    assume "ps = []" "names_text ((n, a, b) # ps) = n @ a"
    with nc show ?thesis by (simp add: SkipComma_def strchr_none)
  next
    fix q qs
    assume ps: "ps = q # qs" and whole: "names_text ((n, a, b) # ps) = (n @ a) @ comma # b @ names_text ps"
    have q: "legal_piece q" using assms(2) ps by simp
    have "skip_spaces (names_text ps) = names_text ps"
      using names_text_start [OF q, of qs] q ps
      by (auto simp: legal_piece_def intro!: skip_spaces_start)
    with whole nc assms(1) ps strchr_at [OF nc] show ?thesis
      by (simp add: SkipComma_def strchr_at skip_spaces_append legal_piece_def)
  qed
qed

section \<open>What is registered\<close>

definition typed_entry ::
  "('ty \<Rightarrow> string) \<Rightarrow> string \<Rightarrow> string \<Rightarrow> code_location \<Rightarrow> string \<Rightarrow> 'sel \<Rightarrow> nat \<times> 'ty \<Rightarrow> ('sel, 'ty) typed_registration" where
  "typed_entry type_name pfx case_name loc test_name sel e =
     \<lparr>tr_case = typed_case_name pfx case_name (fst e), tr_name = test_name,
      tr_type_name = type_name (snd e), tr_location = loc, tr_fixture = snd e, tr_class = (sel, snd e)\<rparr>"

definition typed_plan ::
  "('ty \<Rightarrow> string) \<Rightarrow> string \<Rightarrow> string \<Rightarrow> TypedTestCasePState \<Rightarrow> piece list \<Rightarrow> 'sel list \<Rightarrow> 'ty list \<Rightarrow>
    ('sel, 'ty) typed_registration list" where
  "typed_plan type_name pfx case_name st ps sels types =
     concat (map2 (\<lambda>p sel. map (typed_entry type_name pfx case_name
       (the (registered_tests st (fst p))) (fst p) sel) (enumerate 0 types)) ps sels)"

lemma TypeParameterizedTest_Register_plan:
  assumes "legal_piece (n, a, b)"
  shows "TypeParameterizedTest_Register type_name mk pfx loc case_name sel types
      (Some (names_text ((n, a, b) # ps))) idx u
    = Inr (fold mk (map (typed_entry type_name pfx case_name loc n sel)
        (enumerate idx (types_of types))) u)"
proof (induction types arbitrary: idx u)
  case (TypesN t types)
  have "StripTrailingSpaces (n @ a) = n"
    using assms by (simp add: legal_piece_def strip_spaces)
  with TypesN show ?case
    by (simp add: prefix_of_names [OF assms] typed_entry_def)
qed simp

lemma TypeParameterizedTestCase_Register_plan:
  assumes "list_all legal_piece ps" and "length (types_of sels) = length ps"
  shows "TypeParameterizedTestCase_Register type_name mk pfx loc st case_name sels types
      (if ps = [] then None else Some (names_text ps)) u
    = (if list_all (\<lambda>p. TestExists st (fst p)) ps
       then Inr (fold mk (typed_plan type_name pfx case_name st ps (types_of sels) (types_of types)) u)
       else Inl Abort)"
  using assms
proof (induction ps arbitrary: sels u)
  case Nil
  then show ?case by (cases sels) (simp_all add: typed_plan_def)
next
  case (Cons p ps)
  obtain n a b where p: "p = (n, a, b)" by (cases p)
  obtain sel sels' where sels: "sels = TypesN sel sels'" using Cons.prems(2) by (cases sels) auto
  have legal: "legal_piece (n, a, b)" "list_all legal_piece ps" using Cons.prems(1) p by simp_all
  have name: "StripTrailingSpaces (n @ a) = n" using legal(1) by (simp add: legal_piece_def strip_spaces)
  show ?case
  proof (cases "registered_tests st n")
    case None
    then show ?thesis by (simp add: p sels prefix_of_names [OF legal(1)] name TestExists_def Let_def)
  next
    case (Some l)
    then show ?thesis
      using Cons.IH [OF legal(2), of sels'] Cons.prems(2)
      by (simp add: p sels prefix_of_names [OF legal(1)] name TestExists_def GetCodeLocation_def Let_def
          TypeParameterizedTest_Register_plan [OF legal(1)] skip_to_next_name [OF legal] typed_plan_def
          fold_append)
  qed
qed

section \<open>A type-parameterized test case from definition to instantiation\<close>

lemma typed_run_append: "typed_run verify tn mk cn (xs @ ys) c
    = bindr (typed_run verify tn mk cn xs c) (typed_run verify tn mk cn ys)"
proof (induction xs arbitrary: c)
  case (Cons x xs)
  then have "typed_run verify tn mk cn (xs @ ys)
      = (\<lambda>c. bindr (typed_run verify tn mk cn xs c) (typed_run verify tn mk cn ys))" by (rule ext)
  then show ?case by (simp add: bindr_assoc)
qed simp

abbreviation define_tests :: "(string \<times> code_location) list \<Rightarrow> ('sel, 'ty) typed_stmt list" where
  "define_tests defs \<equiv> map (\<lambda>(n, l). TYPED_TEST_P l n) defs"

lemma define_tests_run:
  assumes "\<not> registered (tc_state c)"
  shows "typed_run verify tn mk cn (define_tests defs) c = Inr (c\<lparr>tc_state := (tc_state c)
    \<lparr>registered_tests := map_of defs ++ registered_tests (tc_state c)\<rparr>\<rparr>)"
  using assms
proof (induction defs arbitrary: c)
  case (Cons d defs)
  obtain n l where d: "d = (n, l)" by (cases d)
  let ?m = "registered_tests (tc_state c)"
  let ?m' = "case ?m n of None \<Rightarrow> ?m(n \<mapsto> l) | Some _ \<Rightarrow> ?m"
  have "map_of defs ++ ?m' = map_of (d # defs) ++ ?m"
    by (auto simp: d map_add_def fun_eq_iff split: option.splits)
  moreover have "AddTestName l n (tc_state c) = Inr ((tc_state c)\<lparr>registered_tests := ?m'\<rparr>)"
    using Cons.prems by (auto simp: AddTestName_def split: option.splits)
  ultimately show ?case
    using Cons.prems Cons.IH [of "c\<lparr>tc_state := (tc_state c)\<lparr>registered_tests := ?m'\<rparr>\<rparr>"]
    by (simp add: d typed_stmt_step_def del: map_of.simps)
qed simp

text \<open>
  What the header says of \<open>VerifyRegisteredTestNames\<close>: names that match the defined tests are
  returned, and the test case counts as registered from then on.
\<close>

definition verify_contract :: "(TypedTestCasePState \<Rightarrow> string \<Rightarrow> (string \<times> TypedTestCasePState) res) \<Rightarrow> bool" where
  "verify_contract verify \<longleftrightarrow> (\<forall>st ps. list_all legal_piece ps \<longrightarrow> distinct (map fst ps) \<longrightarrow>
     set (map fst ps) = dom (registered_tests st) \<longrightarrow>
     verify st (names_text ps) = Inr (names_text ps, st\<lparr>registered := True\<rparr>))"

text \<open>
C32: a type-parameterized test case whose registered names are the tests it defines, however they are spaced
in the macro argument, is instantiated without an abort: every test is registered with every type of
the list, tests in the order of the names and types in the order of the list, in the test case
"prefix/case/i" for the i-th type, at the location where the test was defined first. Defining a
further test after the registration aborts.
\<close>

theorem typed_tests_register_all_combinations:
  assumes "verify_contract verify" and "list_all legal_piece ps" and "distinct (map fst ps)"
    and "set (map fst ps) = set (map fst defs)" and "length sels = length ps" and "ps \<noteq> []"
  shows "\<exists>c. typed_run verify tn mk cn (define_tests defs @
      [REGISTER_TYPED_TEST_CASE_P (names_text ps) (map Some sels @ replicate k None),
       INSTANTIATE_TYPED_TEST_CASE_P pfx loc (Types (map Some tys @ replicate m None))])
      \<lparr>tc_state = make_TypedTestCasePState, tc_names = None, tc_tests = Types0, tc_registry = u\<rparr> = Inr c \<and>
    tc_registry c = fold mk (concat (map2 (\<lambda>p sel. map (typed_entry tn pfx cn (the (map_of defs (fst p))) (fst p) sel)
      (enumerate 0 tys)) ps sels)) u \<and>
    typed_stmt_step verify tn mk cn (TYPED_TEST_P loc' n) c = Inl Abort"
proof -
  let ?st = "make_TypedTestCasePState\<lparr>registered_tests := map_of defs\<rparr>"
  let ?st' = "?st\<lparr>registered := True\<rparr>"
  have "set (map fst ps) = dom (registered_tests ?st)"
    using assms(4) by (simp add: dom_map_of_conv_image_fst)
  with assms have verify: "verify ?st (names_text ps) = Inr (names_text ps, ?st')"
    by (simp add: verify_contract_def)
  have "TestExists ?st' (fst p)" if "p \<in> set ps" for p
  proof -
    from that have "fst p \<in> set (map fst ps)" by simp
    then have "fst p \<in> dom (map_of defs)" using assms(4) by (simp add: dom_map_of_conv_image_fst)
    then show ?thesis by (auto simp: TestExists_def)
  qed
  then have "list_all (\<lambda>p. TestExists ?st' (fst p)) ps" by (simp add: list_all_iff)
  with TypeParameterizedTestCase_Register_plan [OF assms(2),
      of "Types_type (map Some sels @ replicate k None)" tn mk pfx loc ?st' cn
         "TypeList (Types (map Some tys @ replicate m None))" u] assms(5,6)
  have "TypeParameterizedTestCase_Register tn mk pfx loc ?st' cn (Types_type (map Some sels @ replicate k None))
      (TypeList (Types (map Some tys @ replicate m None))) (Some (names_text ps)) u
    = Inr (fold mk (typed_plan tn pfx cn ?st' ps sels tys) u)"
    by (simp add: types_of_Types)
  with verify show ?thesis
    by (simp add: typed_run_append define_tests_run make_TypedTestCasePState_def typed_stmt_step_def
        typed_plan_def AddTestName_def)
qed

text \<open>Two tests, one of them defined twice, with two types.\<close>

abbreviation at_line :: "int \<Rightarrow> code_location" where
  "at_line l \<equiv> \<lparr>loc_file = ''t.h'', loc_line = l\<rparr>"

theorem typed_tests_register_all_combinations_witness:
  "\<exists>c. typed_run (\<lambda>st s. Inr (s, st\<lparr>registered := True\<rparr>)) (\<lambda>t :: bool. ''T'')
      (\<lambda>r u. u @ [(tr_case r, tr_name r, loc_line (tr_location r), tr_class r)]) ''C''
      [TYPED_TEST_P (at_line 3) ''g'', TYPED_TEST_P (at_line 5) ''f'', TYPED_TEST_P (at_line 7) ''g'',
       REGISTER_TYPED_TEST_CASE_P ''f , g'' [Some 0, Some (1 :: nat), None],
       INSTANTIATE_TYPED_TEST_CASE_P ''My'' (at_line 9) (Types [Some False, Some True])]
      \<lparr>tc_state = make_TypedTestCasePState, tc_names = None, tc_tests = Types0, tc_registry = []\<rparr> = Inr c \<and>
    tc_registry c = [(''My/C/0'', ''f'', 5, 0, False), (''My/C/1'', ''f'', 5, 0, True),
      (''My/C/0'', ''g'', 3, 1, False), (''My/C/1'', ''g'', 3, 1, True)]"
proof -
  let ?verify = "\<lambda>st s. Inr (s, st\<lparr>registered := True\<rparr>) :: (string \<times> TypedTestCasePState) res"
  let ?mk = "\<lambda>r u. u @ [(tr_case r, tr_name r, loc_line (tr_location r), tr_class r)]"
  let ?ps = "[(''f'', '' '', '' ''), (''g'', [], [])]"
  let ?defs = "[(''g'', at_line 3), (''f'', at_line 5), (''g'', at_line 7)]"
  have legal: "list_all legal_piece ?ps"
    by (simp add: legal_piece_def IsSpace_def comma_def)
  have contract: "verify_contract ?verify" by (simp add: verify_contract_def)
  have dist: "distinct (map fst ?ps)" and dom: "set (map fst ?ps) = set (map fst ?defs)" by auto
  have digits: "show_nat 0 = ''0''" "show_nat (Suc 0) = ''1''" by code_simp+
  show ?thesis
    using typed_tests_register_all_combinations [OF contract legal dist dom, of "[0, 1 :: nat]"
        "\<lambda>t. ''T''" ?mk "''C''" 1 "''My''" "at_line 9" "[False, True]" 0 "[]", where loc' = "at_line 11" and n = "''h''"]
    by (auto simp: comma_def typed_entry_def typed_case_name_def digits simp del: typed_run.simps)
qed

end
