(* ===== verification/Gtest_Native_Array.thy ===== *)
theory Gtest_Native_Array
  imports Prelude
begin

text \<open>
  Native arrays: \<open>ArrayEq\<close>, \<open>ArrayAwareFind\<close>, \<open>CopyArray\<close> and the class \<open>NativeArray\<close> of
  gtest-internal.h, with the views \<open>StlContainerView\<close> of gmock-internal-utils.h that hand native arrays to
  the container matchers. Memory is a heap of blocks of scalar cells; an array of arrays lies in
  row-major order, and a pointer is a block with an offset in cells. The dimensions of the element
  type are a list, empty for a scalar, so the overloads for k = 0 and k > 0 are the two equations of
  one recursion. Main results: the nested loops compare and copy the cells of the arrays, and the
  views of a program refine values: a copying view keeps the value it copied and frees its block
  once, a referencing view follows its array.
\<close>

section \<open>Memory\<close>

type_synonym 'v memory = "ptr \<rightharpoonup> 'v list"
type_synonym address = "ptr \<times> nat"

definition load :: "'v memory \<Rightarrow> address \<Rightarrow> 'v res" where
  "load H a = bindr (deref H (fst a)) (\<lambda>cells.
     if snd a < length cells then Inr (cells ! snd a) else Inl OutOfBounds)"

definition store :: "'v memory \<Rightarrow> address \<Rightarrow> 'v \<Rightarrow> 'v memory res" where
  "store H a v = bindr (deref H (fst a)) (\<lambda>cells.
     if snd a < length cells then Inr (H(fst a \<mapsto> cells[snd a := v])) else Inl OutOfBounds)"

text \<open>The cells of an object of the given dimensions, and the address of \<open>a[i]\<close> for such elements.\<close>

fun cells_of :: "nat list \<Rightarrow> nat" where
  "cells_of [] = 1"
| "cells_of (n # ds) = n * cells_of ds"

definition element_at :: "nat list \<Rightarrow> address \<Rightarrow> nat \<Rightarrow> address" where
  "element_at ds a i = (fst a, snd a + i * cells_of ds)"

lemma element_at_sel [simp]: "fst (element_at ds a i) = fst a" "snd (element_at ds a i) = snd a + i * cells_of ds"
  by (simp_all add: element_at_def)

section \<open>ArrayEq, ArrayAwareFind and CopyArray\<close>

fun array_eq_loop :: "(nat \<Rightarrow> bool res) \<Rightarrow> nat list \<Rightarrow> bool res" where
  "array_eq_loop element_eq [] = Inr True"
| "array_eq_loop element_eq (i # is) = bindr (element_eq i) (\<lambda>eq.
     if \<not> eq then Inr False else array_eq_loop element_eq is)"

fun ArrayEq :: "('v \<Rightarrow> 'v \<Rightarrow> bool) \<Rightarrow> 'v memory \<Rightarrow> nat list \<Rightarrow> address \<Rightarrow> address \<Rightarrow> bool res" where
  "ArrayEq eq H [] lhs rhs = bindr (load H lhs) (\<lambda>a. bindr (load H rhs) (\<lambda>b. Inr (eq a b)))"
| "ArrayEq eq H (n # ds) lhs rhs =
     array_eq_loop (\<lambda>i. ArrayEq eq H ds (element_at ds lhs i) (element_at ds rhs i)) [0..<n]"

text \<open>The pointer version takes the number of elements at run time.\<close>

definition ArrayEq_size :: "('v \<Rightarrow> 'v \<Rightarrow> bool) \<Rightarrow> 'v memory \<Rightarrow> nat list \<Rightarrow> address \<Rightarrow> nat \<Rightarrow> address \<Rightarrow> bool res" where
  "ArrayEq_size eq H ds lhs count rhs =
     array_eq_loop (\<lambda>i. ArrayEq eq H ds (element_at ds lhs i) (element_at ds rhs i)) [0..<count]"

fun ArrayAwareFind ::
  "('v \<Rightarrow> 'v \<Rightarrow> bool) \<Rightarrow> 'v memory \<Rightarrow> nat list \<Rightarrow> address \<Rightarrow> nat \<Rightarrow> address \<Rightarrow> address res" where
  "ArrayAwareFind eq H ds it 0 elem = Inr it"
| "ArrayAwareFind eq H ds it (Suc n) elem = bindr (ArrayEq eq H ds it elem) (\<lambda>found.
     if found then Inr it else ArrayAwareFind eq H ds (element_at ds it 1) n elem)"

fun copy_loop :: "(nat \<Rightarrow> 'v memory \<Rightarrow> 'v memory res) \<Rightarrow> nat list \<Rightarrow> 'v memory \<Rightarrow> 'v memory res" where
  "copy_loop copy_element [] H = Inr H"
| "copy_loop copy_element (i # is) H = bindr (copy_element i H) (copy_loop copy_element is)"

fun CopyArray :: "nat list \<Rightarrow> address \<Rightarrow> address \<Rightarrow> 'v memory \<Rightarrow> 'v memory res" where
  "CopyArray [] source dest H = bindr (load H source) (store H dest)"
| "CopyArray (n # ds) source dest H =
     copy_loop (\<lambda>i. CopyArray ds (element_at ds source i) (element_at ds dest i)) [0..<n] H"

definition CopyArray_size :: "nat list \<Rightarrow> address \<Rightarrow> nat \<Rightarrow> address \<Rightarrow> 'v memory \<Rightarrow> 'v memory res" where
  "CopyArray_size ds source count dest H =
     copy_loop (\<lambda>i. CopyArray ds (element_at ds source i) (element_at ds dest i)) [0..<count] H"

section \<open>NativeArray\<close>

text \<open>\<open>clone_\<close> points to one of the two initialisers.\<close>

datatype initializer = Init_Ref | Init_Copy

record native_array =
  na_array :: address
  na_size :: nat
  na_clone :: initializer

definition InitRef :: "address \<Rightarrow> nat \<Rightarrow> native_array" where
  "InitRef array a_size = \<lparr>na_array = array, na_size = a_size, na_clone = Init_Ref\<rparr>"

text \<open>\<open>new Element[a_size]\<close> returns a block whose cells hold anything.\<close>

definition InitCopy ::
  "nat list \<Rightarrow> ptr \<Rightarrow> 'v list \<Rightarrow> address \<Rightarrow> nat \<Rightarrow> 'v memory \<Rightarrow> (native_array \<times> 'v memory) res" where
  "InitCopy ds block garbage array a_size H =
     bindr (CopyArray_size ds array a_size (block, 0) (H(block \<mapsto> garbage))) (\<lambda>H.
       Inr (\<lparr>na_array = (block, 0), na_size = a_size, na_clone = Init_Copy\<rparr>, H))"

definition copy_NativeArray ::
  "nat list \<Rightarrow> ptr \<Rightarrow> 'v list \<Rightarrow> native_array \<Rightarrow> 'v memory \<Rightarrow> (native_array \<times> 'v memory) res" where
  "copy_NativeArray ds block garbage rhs H = (case na_clone rhs of
     Init_Ref \<Rightarrow> Inr (InitRef (na_array rhs) (na_size rhs), H)
   | Init_Copy \<Rightarrow> InitCopy ds block garbage (na_array rhs) (na_size rhs) H)"

text \<open>\<open>delete[]\<close> of a pointer that is not the start of a block is undefined.\<close>

definition destroy_NativeArray :: "native_array \<Rightarrow> 'v memory \<Rightarrow> 'v memory res" where
  "destroy_NativeArray a H =
     (if na_clone a \<noteq> Init_Ref
      then if snd (na_array a) = 0 then free_at H (fst (na_array a)) else Inl BadFree
      else Inr H)"

definition na_begin :: "native_array \<Rightarrow> address" where
  "na_begin a = na_array a"

definition na_end :: "nat list \<Rightarrow> native_array \<Rightarrow> address" where
  "na_end ds a = element_at ds (na_array a) (na_size a)"

definition na_eq :: "('v \<Rightarrow> 'v \<Rightarrow> bool) \<Rightarrow> 'v memory \<Rightarrow> nat list \<Rightarrow> native_array \<Rightarrow> native_array \<Rightarrow> bool res" where
  "na_eq eq H ds lhs rhs =
     (if na_size lhs = na_size rhs then ArrayEq_size eq H ds (na_begin lhs) (na_size lhs) (na_begin rhs)
      else Inr False)"

text \<open>The two views of a native array, given as an array or as a pointer with a size.\<close>

definition ConstReference :: "address \<times> nat \<Rightarrow> native_array" where
  "ConstReference array = InitRef (fst array) (snd array)"

definition Copy :: "nat list \<Rightarrow> ptr \<Rightarrow> 'v list \<Rightarrow> address \<times> nat \<Rightarrow> 'v memory \<Rightarrow> (native_array \<times> 'v memory) res" where
  "Copy ds block garbage array H = InitCopy ds block garbage (fst array) (snd array) H"

section \<open>Ranges of cells\<close>

definition holds :: "'v memory \<Rightarrow> address \<Rightarrow> 'v list \<Rightarrow> bool" where
  "holds H a vs \<longleftrightarrow> fst a \<noteq> NULL \<and> (\<exists>cells. H (fst a) = Some cells \<and>
     snd a + length vs \<le> length cells \<and> take (length vs) (drop (snd a) cells) = vs)"

lemma holdsE:
  assumes "holds H a vs"
  obtains pre post where "fst a \<noteq> NULL" and "H (fst a) = Some (pre @ vs @ post)" and "length pre = snd a"
proof -
  from assms obtain cells where c: "fst a \<noteq> NULL" "H (fst a) = Some cells"
    "snd a + length vs \<le> length cells" "take (length vs) (drop (snd a) cells) = vs"
    by (auto simp: holds_def)
  have "cells = take (snd a) cells @ vs @ drop (length vs) (drop (snd a) cells)"
    by (metis append_take_drop_id c(4))
  with c show thesis by (intro that [of "take (snd a) cells"]) auto
qed

lemma holdsI: "b \<noteq> NULL \<Longrightarrow> H b = Some (pre @ vs @ post) \<Longrightarrow> holds H (b, length pre) vs"
  by (simp add: holds_def)

lemma load_holds: "holds H a [v] \<Longrightarrow> load H a = Inr v"
  by (erule holdsE) (simp add: load_def nth_append)

lemma holds_element:
  assumes "holds H a vs" and "(i + 1) * cells_of ds \<le> length vs"
  shows "holds H (element_at ds a i) (take (cells_of ds) (drop (i * cells_of ds) vs))"
proof -
  let ?c = "cells_of ds"
  from assms(1) obtain pre post where h: "fst a \<noteq> NULL" "H (fst a) = Some (pre @ vs @ post)" "length pre = snd a"
    by (rule holdsE)
  have "vs = take (i * ?c) vs @ take ?c (drop (i * ?c) vs) @ drop ?c (drop (i * ?c) vs)"
    by (metis append_take_drop_id)
  then have "H (fst a) = Some ((pre @ take (i * ?c) vs) @ take ?c (drop (i * ?c) vs) @ drop ?c (drop (i * ?c) vs) @ post)"
    using h(2) by (metis append.assoc)
  then have "holds H (fst a, length (pre @ take (i * ?c) vs)) (take ?c (drop (i * ?c) vs))"
    by (rule holdsI [OF h(1)])
  moreover have "i * ?c \<le> length vs" using assms(2) by (simp add: algebra_simps)
  ultimately show ?thesis by (simp add: element_at_def h(3))
qed

section \<open>The loops compare and copy cells\<close>

text \<open>Two lists agree when they agree up to a point and from there on.\<close>

lemma list_all2_split:
  assumes "length xs = length ys"
  shows "list_all2 P xs ys \<longleftrightarrow> list_all2 P (take n xs) (take n ys) \<and> list_all2 P (drop n xs) (drop n ys)"
proof -
  have "length (take n xs) = length (take n ys)" using assms by simp
  from list_all2_append [OF this, of P "drop n xs" "drop n ys"] show ?thesis
    by (simp only: append_take_drop_id)
qed

lemma array_eq_loop_cells:
  assumes "\<And>i. i < n \<Longrightarrow> element_eq i = Inr (list_all2 eq (take c (drop (i * c) xs)) (take c (drop (i * c) ys)))"
    and "length xs = n * c" and "length ys = n * c" and "k \<le> n"
  shows "array_eq_loop element_eq [k..<n] = Inr (list_all2 eq (drop (k * c) xs) (drop (k * c) ys))"
  using assms(4)
proof (induction "n - k" arbitrary: k)
  case 0
  then show ?case using assms(2,3) by simp
next
  case (Suc d)
  then have k: "k < n" "[k..<n] = k # [Suc k..<n]" by (simp_all add: upt_conv_Cons)
  let ?x = "drop (k * c) xs" and ?y = "drop (k * c) ys"
  have "drop c ?x = drop (Suc k * c) xs" "drop c ?y = drop (Suc k * c) ys" by simp_all
  moreover have "length ?x = length ?y" using assms(2,3) by simp
  ultimately have split: "list_all2 eq ?x ?y \<longleftrightarrow> list_all2 eq (take c ?x) (take c ?y) \<and>
      list_all2 eq (drop (Suc k * c) xs) (drop (Suc k * c) ys)"
    using list_all2_split by metis
  have rest: "array_eq_loop element_eq [Suc k..<n] = Inr (list_all2 eq (drop (Suc k * c) xs) (drop (Suc k * c) ys))"
    by (rule Suc.hyps(1)) (use Suc.hyps(2) k(1) in simp_all)
  show ?case unfolding split by (simp only: k(2) array_eq_loop.simps assms(1) [OF k(1)] rest bindr_Inr) simp
qed

lemma ArrayEq_cells:
  assumes "holds H lhs xs" and "holds H rhs ys" and "length xs = cells_of ds" and "length ys = cells_of ds"
  shows "ArrayEq eq H ds lhs rhs = Inr (list_all2 eq xs ys)"
  using assms
proof (induction ds arbitrary: lhs rhs xs ys)
  case Nil
  then obtain x y where "xs = [x]" "ys = [y]" by (auto simp: length_Suc_conv)
  with Nil.prems show ?case by (simp add: load_holds)
next
  case (Cons n ds)
  let ?c = "cells_of ds"
  have elem: "ArrayEq eq H ds (element_at ds lhs i) (element_at ds rhs i) =
      Inr (list_all2 eq (take ?c (drop (i * ?c) xs)) (take ?c (drop (i * ?c) ys)))" if "i < n" for i
  proof (rule Cons.IH)
    from that have le: "(i + 1) * ?c \<le> n * ?c" by (intro mult_le_mono1) simp
    with Cons.prems show "holds H (element_at ds lhs i) (take ?c (drop (i * ?c) xs))"
      and "holds H (element_at ds rhs i) (take ?c (drop (i * ?c) ys))"
      by (simp_all add: holds_element)
    from le Cons.prems(3,4) show "length (take ?c (drop (i * ?c) xs)) = ?c"
      and "length (take ?c (drop (i * ?c) ys)) = ?c" by (simp_all add: algebra_simps)
  qed
  from array_eq_loop_cells [of n "\<lambda>i. ArrayEq eq H ds (element_at ds lhs i) (element_at ds rhs i)" eq ?c xs ys 0, OF elem]
    Cons.prems show ?case by simp
qed

lemma ArrayEq_size_cells:
  assumes "holds H lhs xs" and "holds H rhs ys" and "length xs = n * cells_of ds" and "length ys = n * cells_of ds"
  shows "ArrayEq_size eq H ds lhs n rhs = Inr (list_all2 eq xs ys)"
  using ArrayEq_cells [of H lhs xs rhs ys "n # ds" eq] assms by (simp add: ArrayEq_size_def)

text \<open>\<open>ArrayAwareFind\<close> returns the first element that is equal, or the end.\<close>

lemma holds_drop:
  assumes "holds H a vs" and "k \<le> length vs"
  shows "holds H (fst a, snd a + k) (drop k vs)"
proof -
  from assms(1) obtain pre post where h: "fst a \<noteq> NULL" "H (fst a) = Some (pre @ vs @ post)" "length pre = snd a"
    by (rule holdsE)
  then have "H (fst a) = Some ((pre @ take k vs) @ drop k vs @ post)"
    by (metis append.assoc append_take_drop_id)
  from holdsI [of "fst a" H "pre @ take k vs" "drop k vs" post, OF h(1) this] assms(2) h(3) show ?thesis by simp
qed

theorem ArrayAwareFind_first:
  assumes "holds H a vs" and "length vs = n * cells_of ds" and "holds H elem e" and "length e = cells_of ds"
  shows "ArrayAwareFind eq H ds a n elem = Inr (element_at ds a (length (takeWhile
    (\<lambda>i. \<not> list_all2 eq (take (cells_of ds) (drop (i * cells_of ds) vs)) e) [0..<n])))"
  using assms(1,2)
proof (induction n arbitrary: a vs)
  case (Suc n)
  let ?c = "cells_of ds"
  let ?differs = "\<lambda>vs i. \<not> list_all2 eq (take ?c (drop (i * ?c) vs)) e"
  have "holds H a (take ?c vs)" using holds_element [OF Suc.prems(1), of 0 ds] Suc.prems(2) by (simp add: element_at_def)
  then have first: "ArrayEq eq H ds a elem = Inr (list_all2 eq (take ?c vs) e)"
    using Suc.prems(2) assms(3,4) by (intro ArrayEq_cells) simp_all
  have rest: "holds H (element_at ds a 1) (drop ?c vs)" "length (drop ?c vs) = n * ?c"
    using holds_drop [OF Suc.prems(1), of ?c] Suc.prems(2) by (simp_all add: element_at_def)
  have "[0..<Suc n] = 0 # map Suc [0..<n]" by (simp only: upt_conv_Cons map_Suc_upt)
  moreover have "?differs vs \<circ> Suc = ?differs (drop ?c vs)" by (simp add: comp_def add.commute)
  ultimately have "length (takeWhile (?differs vs) [0..<Suc n]) =
      (if ?differs vs 0 then Suc (length (takeWhile (?differs (drop ?c vs)) [0..<n])) else 0)"
    by (simp add: takeWhile_map del: upt_Suc)
  with first Suc.IH [OF rest] show ?case by (simp add: element_at_def del: upt_Suc)
qed (simp add: element_at_def)

text \<open>Copying writes the cells from an offset on.\<close>

definition overwrite :: "'v list \<Rightarrow> nat \<Rightarrow> 'v list \<Rightarrow> 'v list" where
  "overwrite cells k vs = take k cells @ vs @ drop (k + length vs) cells"

lemma overwrite_Nil [simp]: "overwrite cells k [] = cells"
  by (simp add: overwrite_def)

lemma length_overwrite [simp]: "k + length vs \<le> length cells \<Longrightarrow> length (overwrite cells k vs) = length cells"
  by (simp add: overwrite_def)

lemma overwrite_overwrite:
  assumes "k + length vs \<le> length cells"
  shows "overwrite (overwrite cells k vs) (k + length vs) ws = overwrite cells k (vs @ ws)"
  using assms by (auto simp: overwrite_def min_def add.commute add.left_commute dest: le_trans)

lemma overwrite_single: "k < length cells \<Longrightarrow> overwrite cells k [v] = cells[k := v]"
  by (simp add: overwrite_def upd_conv_take_nth_drop)

lemma overwrite_all: "length cells = length vs \<Longrightarrow> overwrite cells 0 vs = vs"
  by (simp add: overwrite_def)

text \<open>One element of the copying loop extends the part already written.\<close>

lemma overwrite_step:
  assumes "off + length vs \<le> length cells" and "(k + 1) * c \<le> length vs"
  shows "overwrite (overwrite cells off (take (k * c) vs)) (off + k * c) (take c (drop (k * c) vs))
    = overwrite cells off (take (Suc k * c) vs)"
proof -
  have len: "length (take (k * c) vs) = k * c" using assms(2) by simp
  have "take (Suc k * c) vs = take (k * c) vs @ take c (drop (k * c) vs)"
    using take_add [of "k * c" c vs] by (simp add: add.commute)
  with overwrite_overwrite [of off "take (k * c) vs" cells] assms len show ?thesis by simp
qed

lemma copy_loop_cells:
  assumes "\<And>i. i < n \<Longrightarrow> copy_element i (H(b \<mapsto> W i)) = Inr (H(b \<mapsto> W (Suc i)))" and "k \<le> n"
  shows "copy_loop copy_element [k..<n] (H(b \<mapsto> W k)) = Inr (H(b \<mapsto> W n))"
  using assms(2)
proof (induction "n - k" arbitrary: k)
  case (Suc d)
  then have "k < n" "[k..<n] = k # [Suc k..<n]" by (simp_all add: upt_conv_Cons)
  with Suc assms(1) show ?case by simp
qed simp

lemma holds_other [simp]: "fst a \<noteq> b \<Longrightarrow> holds (H(b := w)) a vs \<longleftrightarrow> holds H a vs"
  by (simp add: holds_def)

lemma CopyArray_cells:
  assumes "holds H source vs" and "length vs = cells_of ds" and "fst source \<noteq> fst dest"
    and "fst dest \<noteq> NULL" and "H (fst dest) = Some cells" and "snd dest + length vs \<le> length cells"
  shows "CopyArray ds source dest H = Inr (H(fst dest \<mapsto> overwrite cells (snd dest) vs))"
  using assms
proof (induction ds arbitrary: source dest vs cells H)
  case Nil
  then obtain v where "vs = [v]" by (auto simp: length_Suc_conv)
  with Nil.prems show ?case by (simp add: load_holds store_def overwrite_single fun_eq_iff)
next
  case (Cons n ds)
  let ?c = "cells_of ds" and ?off = "snd dest" and ?b = "fst dest"
  define W where "W = (\<lambda>i. overwrite cells ?off (take (i * ?c) vs))"
  have "CopyArray ds (element_at ds source i) (element_at ds dest i) (H(?b \<mapsto> W i)) = Inr (H(?b \<mapsto> W (Suc i)))"
    if "i < n" for i
  proof -
    from that have le: "(i + 1) * ?c \<le> n * ?c" by (intro mult_le_mono1) simp
    then have le': "i * ?c + ?c \<le> length vs" using Cons.prems(2) by (simp add: algebra_simps)
    then have len: "length (W i) = length cells" using Cons.prems(6) by (simp add: W_def)
    have "CopyArray ds (element_at ds source i) (element_at ds dest i) (H(?b \<mapsto> W i)) =
        Inr (H(?b \<mapsto> W i, fst (element_at ds dest i) \<mapsto>
          overwrite (W i) (snd (element_at ds dest i)) (take ?c (drop (i * ?c) vs))))"
    proof (rule Cons.IH)
      show "holds (H(?b \<mapsto> W i)) (element_at ds source i) (take ?c (drop (i * ?c) vs))"
        using le Cons.prems holds_element [OF Cons.prems(1), of i ds] by (subst holds_other) simp_all
    qed (use le' len Cons.prems in simp_all)
    moreover have "overwrite (W i) (?off + i * ?c) (take ?c (drop (i * ?c) vs)) = W (Suc i)"
      unfolding W_def by (rule overwrite_step) (use le Cons.prems in simp_all)
    ultimately show ?thesis by simp
  qed
  from copy_loop_cells [of n "\<lambda>i. CopyArray ds (element_at ds source i) (element_at ds dest i)" H ?b W 0, OF this]
    Cons.prems(2,5)
  show ?case by (simp add: W_def fun_upd_idem fun_eq_iff)
qed

lemma InitCopy_copies:
  assumes "holds H a vs" and "length vs = n * cells_of ds" and "p \<noteq> NULL" and "H p = None"
    and "length garbage = n * cells_of ds"
  shows "InitCopy ds p garbage a n H =
    Inr (\<lparr>na_array = (p, 0), na_size = n, na_clone = Init_Copy\<rparr>, H(p \<mapsto> vs))"
proof -
  have "fst a \<noteq> p" using assms(1,4) by (auto simp: holds_def)
  then have "CopyArray (n # ds) a (p, 0) (H(p \<mapsto> garbage)) = Inr (H(p \<mapsto> vs))"
    using CopyArray_cells [of "H(p \<mapsto> garbage)" a vs "n # ds" "(p, 0)" garbage] assms
    by (simp add: overwrite_all)
  then show ?thesis by (simp add: InitCopy_def CopyArray_size_def)
qed

section \<open>Programs over views\<close>

text \<open>
  A program takes views of its arrays, copies and destroys views, and assigns to its arrays while
  views of them exist.
\<close>

datatype 'v view_op =
    View_Ref "address \<times> nat"
  | View_Copy ptr "'v list" "address \<times> nat"
  | View_Clone ptr "'v list" nat
  | View_Destroy nat
  | Assign address 'v

record 'v views =
  v_mem :: "'v memory"
  v_list :: "native_array option list"

fun view_step :: "nat list \<Rightarrow> 'v view_op \<Rightarrow> 'v views \<Rightarrow> 'v views res" where
  "view_step ds (View_Ref array) C = Inr (C\<lparr>v_list := v_list C @ [Some (ConstReference array)]\<rparr>)"
| "view_step ds (View_Copy p garbage array) C = bindr (Copy ds p garbage array (v_mem C)) (\<lambda>(v, H).
     Inr \<lparr>v_mem = H, v_list = v_list C @ [Some v]\<rparr>)"
| "view_step ds (View_Clone p garbage i) C = (case v_list C ! i of
     None \<Rightarrow> Inl UseAfterFree
   | Some v \<Rightarrow> bindr (copy_NativeArray ds p garbage v (v_mem C)) (\<lambda>(v, H).
       Inr \<lparr>v_mem = H, v_list = v_list C @ [Some v]\<rparr>))"
| "view_step ds (View_Destroy i) C = (case v_list C ! i of
     None \<Rightarrow> Inl UseAfterFree
   | Some v \<Rightarrow> bindr (destroy_NativeArray v (v_mem C)) (\<lambda>H.
       Inr \<lparr>v_mem = H, v_list = (v_list C)[i := None]\<rparr>))"
| "view_step ds (Assign a v) C = bindr (store (v_mem C) a v) (\<lambda>H. Inr (C\<lparr>v_mem := H\<rparr>))"

text \<open>
  The specification has no blocks: a view follows a part of an array of the program, or keeps
  values.
\<close>

datatype 'v aview = Follows address nat | Keeps nat "'v list"

record 'v aviews =
  a_mem :: "'v memory"
  a_list :: "'v aview option list"

definition part :: "nat list \<Rightarrow> 'v memory \<Rightarrow> address \<Rightarrow> nat \<Rightarrow> 'v list" where
  "part ds M a n = take (n * cells_of ds) (drop (snd a) (the (M (fst a))))"

fun a_step :: "nat list \<Rightarrow> 'v view_op \<Rightarrow> 'v aviews \<Rightarrow> 'v aviews" where
  "a_step ds (View_Ref (a, n)) A = A\<lparr>a_list := a_list A @ [Some (Follows a n)]\<rparr>"
| "a_step ds (View_Copy p garbage (a, n)) A = A\<lparr>a_list := a_list A @ [Some (Keeps n (part ds (a_mem A) a n))]\<rparr>"
| "a_step ds (View_Clone p garbage i) A = A\<lparr>a_list := a_list A @ [a_list A ! i]\<rparr>"
| "a_step ds (View_Destroy i) A = A\<lparr>a_list := (a_list A)[i := None]\<rparr>"
| "a_step ds (Assign a v) A = A\<lparr>a_mem := (a_mem A)(fst a \<mapsto> (the (a_mem A (fst a)))[snd a := v])\<rparr>"

fun aview_size :: "'v aview \<Rightarrow> nat" where
  "aview_size (Follows a n) = n"
| "aview_size (Keeps n vs) = n"

fun aview_contents :: "nat list \<Rightarrow> 'v memory \<Rightarrow> 'v aview \<Rightarrow> 'v list" where
  "aview_contents ds M (Follows a n) = part ds M a n"
| "aview_contents ds M (Keeps n vs) = vs"

text \<open>A program uses its own arrays and views that are alive, and \<open>new\<close> returns fresh blocks.\<close>

definition in_array :: "nat list \<Rightarrow> 'v memory \<Rightarrow> address \<Rightarrow> nat \<Rightarrow> bool" where
  "in_array ds M a n = (case M (fst a) of None \<Rightarrow> False | Some cells \<Rightarrow> snd a + n * cells_of ds \<le> length cells)"

definition fresh_block :: "nat list \<Rightarrow> 'v views \<Rightarrow> ptr \<Rightarrow> 'v list \<Rightarrow> nat \<Rightarrow> bool" where
  "fresh_block ds C p garbage n \<longleftrightarrow> p \<noteq> NULL \<and> v_mem C p = None \<and> length garbage = n * cells_of ds"

fun view_legal :: "nat list \<Rightarrow> 'v view_op \<Rightarrow> 'v aviews \<Rightarrow> 'v views \<Rightarrow> bool" where
  "view_legal ds (View_Ref (a, n)) A C = in_array ds (a_mem A) a n"
| "view_legal ds (View_Copy p garbage (a, n)) A C =
     (in_array ds (a_mem A) a n \<and> fresh_block ds C p garbage n)"
| "view_legal ds (View_Clone p garbage i) A C = (i < length (a_list A) \<and> (case a_list A ! i of
     None \<Rightarrow> False | Some v \<Rightarrow> fresh_block ds C p garbage (aview_size v)))"
| "view_legal ds (View_Destroy i) A C = (i < length (a_list A) \<and> a_list A ! i \<noteq> None)"
| "view_legal ds (Assign a v) A C = (case a_mem A (fst a) of
     None \<Rightarrow> False | Some cells \<Rightarrow> snd a < length cells)"

section \<open>Views refine values\<close>

definition own :: "native_array option \<Rightarrow> ptr list" where
  "own v = (case v of None \<Rightarrow> [] | Some x \<Rightarrow> if na_clone x = Init_Copy then [fst (na_array x)] else [])"

fun view_rel :: "nat list \<Rightarrow> 'v memory \<Rightarrow> 'v memory \<Rightarrow> native_array option \<Rightarrow> 'v aview option \<Rightarrow> bool" where
  "view_rel ds M H None None = True"
| "view_rel ds M H (Some x) (Some (Follows a n)) = (x = InitRef a n \<and> in_array ds M a n)"
| "view_rel ds M H (Some x) (Some (Keeps n vs)) =
     (\<exists>p. x = \<lparr>na_array = (p, 0), na_size = n, na_clone = Init_Copy\<rparr> \<and> H p = Some vs \<and> length vs = n * cells_of ds)"
| "view_rel ds M H _ _ = False"

abbreviation blocks :: "native_array option list \<Rightarrow> ptr list" where
  "blocks vs \<equiv> concat (map own vs)"

definition views_ok :: "nat list \<Rightarrow> 'v aviews \<Rightarrow> 'v views \<Rightarrow> bool" where
  "views_ok ds A C \<longleftrightarrow> v_mem C NULL = None \<and> (\<forall>b vs. a_mem A b = Some vs \<longrightarrow> v_mem C b = Some vs) \<and>
     list_all2 (view_rel ds (a_mem A) (v_mem C)) (v_list C) (a_list A) \<and>
     distinct (blocks (v_list C)) \<and> set (blocks (v_list C)) \<inter> dom (a_mem A) = {} \<and>
     dom (v_mem C) = dom (a_mem A) \<union> set (blocks (v_list C))"

lemma own_simps [simp]: "own None = []" "own (Some (InitRef a n)) = []"
    "own (Some \<lparr>na_array = (p, 0), na_size = n, na_clone = Init_Copy\<rparr>) = [p]"
  by (simp_all add: own_def InitRef_def)

lemma view_rel_cases:
  assumes "view_rel ds M H v av"
  obtains "v = None" "av = None"
  | a n where "v = Some (InitRef a n)" "av = Some (Follows a n)" "in_array ds M a n"
  | p n vs where "v = Some \<lparr>na_array = (p, 0), na_size = n, na_clone = Init_Copy\<rparr>" "av = Some (Keeps n vs)"
      "H p = Some vs" "length vs = n * cells_of ds"
  using assms by (cases "(ds, M, H, v, av)" rule: view_rel.cases) auto

text \<open>A view depends on its own block and on the extent of the arrays.\<close>

lemma view_rel_frame:
  assumes "view_rel ds M H v av" and "\<And>b. b \<in> set (own v) \<Longrightarrow> H' b = H b"
    and "\<And>a n. in_array ds M a n \<Longrightarrow> in_array ds M' a n"
  shows "view_rel ds M' H' v av"
  using assms(1) by (cases rule: view_rel_cases) (use assms(2,3) in auto)

lemma views_rel_frame:
  assumes "list_all2 (view_rel ds M H) vs avs" and "\<And>b. b \<in> set (blocks vs) \<Longrightarrow> H' b = H b"
    and "\<And>a n. in_array ds M a n \<Longrightarrow> in_array ds M' a n"
  shows "list_all2 (view_rel ds M' H') vs avs"
  using assms(1,2)
proof (induction rule: list_all2_induct)
  case (Cons v vs av avs)
  then show ?case using view_rel_frame [OF Cons.hyps(1) _ assms(3)] by simp
qed simp

lemma views_okD:
  assumes "views_ok ds A C"
  shows "v_mem C NULL = None" and "a_mem A b = Some vs \<Longrightarrow> v_mem C b = Some vs"
    and "list_all2 (view_rel ds (a_mem A) (v_mem C)) (v_list C) (a_list A)"
    and "distinct (blocks (v_list C))" and "b \<in> set (blocks (v_list C)) \<Longrightarrow> a_mem A b = None"
    and "dom (v_mem C) = dom (a_mem A) \<union> set (blocks (v_list C))"
  using assms by (auto simp: views_ok_def)

lemma part_holds:
  assumes "views_ok ds A C" and "in_array ds (a_mem A) a n"
  shows "holds (v_mem C) a (part ds (a_mem A) a n)" and "length (part ds (a_mem A) a n) = n * cells_of ds"
proof -
  from assms(2) obtain cells where c: "a_mem A (fst a) = Some cells" "snd a + n * cells_of ds \<le> length cells"
    by (auto simp: in_array_def split: option.splits)
  have m: "v_mem C (fst a) = Some cells" using views_okD(2) [OF assms(1) c(1)] .
  then have "fst a \<noteq> NULL" using views_okD(1) [OF assms(1)] by (metis option.distinct(1))
  then show "holds (v_mem C) a (part ds (a_mem A) a n)" using c m by (simp add: holds_def part_def)
  show "length (part ds (a_mem A) a n) = n * cells_of ds" using c by (simp add: part_def)
qed

text \<open>What a view that is alive holds.\<close>

lemma view_holds:
  assumes "views_ok ds A C" and "i < length (a_list A)" and "a_list A ! i = Some av"
  obtains x where "v_list C ! i = Some x" and "na_size x = aview_size av"
    and "holds (v_mem C) (na_array x) (aview_contents ds (a_mem A) av)"
    and "length (aview_contents ds (a_mem A) av) = aview_size av * cells_of ds"
proof -
  from assms(2,3) list_all2_nthD2 [OF views_okD(3) [OF assms(1)] assms(2)]
  have "view_rel ds (a_mem A) (v_mem C) (v_list C ! i) (Some av)" by simp
  then show thesis
  proof (cases rule: view_rel_cases)
    case (2 a n)
    with part_holds [OF assms(1) 2(3)] show ?thesis by (intro that) (auto simp: InitRef_def)
  next
    case (3 p n vs)
    then have "p \<noteq> NULL" using views_okD(1) [OF assms(1)] by (metis option.distinct(1))
    with 3 show ?thesis by (intro that) (auto simp: holds_def)
  qed simp
qed

text \<open>A view with a new block of its own.\<close>

lemma views_ok_add:
  assumes "views_ok ds A C" and "p \<noteq> NULL" and "v_mem C p = None" and "length vs = n * cells_of ds"
  shows "views_ok ds (A\<lparr>a_list := a_list A @ [Some (Keeps n vs)]\<rparr>)
    \<lparr>v_mem = (v_mem C)(p \<mapsto> vs), v_list = v_list C @ [Some \<lparr>na_array = (p, 0), na_size = n, na_clone = Init_Copy\<rparr>]\<rparr>"
proof -
  note D = views_okD [OF assms(1)]
  from assms(3) have "p \<notin> dom (v_mem C)" by auto
  then have p: "p \<notin> dom (a_mem A)" "p \<notin> set (blocks (v_list C))" using D(6) by auto
  have "list_all2 (view_rel ds (a_mem A) ((v_mem C)(p \<mapsto> vs))) (v_list C) (a_list A)"
    by (rule views_rel_frame [OF D(3)]) (use p in auto)
  moreover have "((v_mem C)(p \<mapsto> vs)) b = Some ws" if "a_mem A b = Some ws" for b ws
    using that D(2) p(1) by (cases "b = p") auto
  ultimately show ?thesis using assms D p
    by (auto simp: views_ok_def intro: list_all2_appendI)
qed

lemma views_ok_ref:
  assumes "views_ok ds A C" and "in_array ds (a_mem A) a n"
  shows "views_ok ds (A\<lparr>a_list := a_list A @ [Some (Follows a n)]\<rparr>) (C\<lparr>v_list := v_list C @ [Some (InitRef a n)]\<rparr>)"
  using assms by (auto simp: views_ok_def intro: list_all2_appendI)


lemma in_array_assign:
  assumes "M b = Some cells" and "in_array ds M a n"
  shows "in_array ds (M(b \<mapsto> cells[k := v])) a n"
  using assms by (auto simp: in_array_def split: option.splits)

lemma views_ok_assign:
  assumes "views_ok ds A C" and "a_mem A b = Some cells"
  shows "views_ok ds (A\<lparr>a_mem := (a_mem A)(b \<mapsto> cells[k := v])\<rparr>) (C\<lparr>v_mem := (v_mem C)(b \<mapsto> cells[k := v])\<rparr>)"
proof -
  note D = views_okD [OF assms(1)]
  have b: "v_mem C b = Some cells" using D(2) [OF assms(2)] .
  then have "b \<noteq> NULL" using D(1) by (metis option.distinct(1))
  have "list_all2 (view_rel ds ((a_mem A)(b \<mapsto> cells[k := v])) ((v_mem C)(b \<mapsto> cells[k := v]))) (v_list C) (a_list A)"
  proof (rule views_rel_frame [OF D(3)])
    show "((v_mem C)(b \<mapsto> cells[k := v])) b' = v_mem C b'" if "b' \<in> set (blocks (v_list C))" for b'
      using D(5) [OF that] assms(2) by auto
  qed (rule in_array_assign [of "a_mem A", OF assms(2)])
  then show ?thesis using D assms \<open>b \<noteq> NULL\<close> b by (auto simp: views_ok_def)
qed

lemma views_ok_destroy:
  assumes "views_ok ds A C" and "i < length (a_list A)" and "v_list C ! i = Some x"
  shows "\<exists>H. destroy_NativeArray x (v_mem C) = Inr H \<and>
    views_ok ds (A\<lparr>a_list := (a_list A)[i := None]\<rparr>) \<lparr>v_mem = H, v_list = (v_list C)[i := None]\<rparr>"
proof -
  note D = views_okD [OF assms(1)]
  have i: "i < length (v_list C)" using assms(2) list_all2_lengthD [OF D(3)] by simp
  define vs ws U where "vs = take i (v_list C)" and "ws = drop (Suc i) (v_list C)" and "U = (v_list C)[i := None]"
  have split: "v_list C = vs @ Some x # ws" "U = vs @ None # ws"
    using id_take_nth_drop [OF i] upd_conv_take_nth_drop [OF i] assms(3) by (simp_all add: vs_def ws_def U_def)
  let ?own = "set (own (Some x))"
  have blocks: "set (blocks (v_list C)) = ?own \<union> set (blocks U)" "?own \<inter> set (blocks U) = {}" "distinct (blocks U)"
    using D(4) by (auto simp: split)
  let ?H = "\<lambda>b. if b \<in> ?own then None else v_mem C b"
  have "list_all2 (view_rel ds (a_mem A) (v_mem C)) U ((a_list A)[i := None])"
    unfolding U_def by (rule list_all2_update_cong [OF D(3)]) simp
  then have rel: "list_all2 (view_rel ds (a_mem A) ?H) U ((a_list A)[i := None])"
    by (rule views_rel_frame) (use blocks(2) in auto)
  have own: "a_mem A b = None" if "b \<in> ?own" for b
    using D(5) [of b] that blocks(1) by blast
  then have "dom ?H = dom (a_mem A) \<union> set (blocks U)"
    using D(6) blocks(1,2) by (auto simp: dom_def set_eq_iff)
  moreover have "set (blocks U) \<inter> dom (a_mem A) = {}" using D(5) blocks(1) by fastforce
  moreover have "?H b = Some ws" if "a_mem A b = Some ws" for b ws using own [of b] D(2) that by auto
  ultimately have "views_ok ds (A\<lparr>a_list := (a_list A)[i := None]\<rparr>) \<lparr>v_mem = ?H, v_list = U\<rparr>"
    unfolding views_ok_def using rel blocks(3) D(1) by simp
  moreover have "destroy_NativeArray x (v_mem C) = Inr ?H"
    using list_all2_nthD2 [OF D(3) assms(2)] unfolding assms(3)
  proof (cases rule: view_rel_cases)
    case (3 p n vs)
    then have "p \<noteq> NULL" using D(1) by (metis option.distinct(1))
    with 3 show ?thesis by (auto simp: destroy_NativeArray_def)
  qed (auto simp: destroy_NativeArray_def InitRef_def own_def)
  ultimately show ?thesis unfolding U_def by blast
qed

lemma view_step_refines:
  assumes "views_ok ds A C" and "view_legal ds op A C"
  shows "\<exists>C'. view_step ds op C = Inr C' \<and> views_ok ds (a_step ds op A) C'"
proof (cases op)
  case (View_Ref array)
  with assms views_ok_ref [OF assms(1), of "fst array" "snd array"] show ?thesis
    by (cases array) (simp add: ConstReference_def)
next
  case (View_Copy p garbage array)
  obtain a n where array: "array = (a, n)" by (cases array)
  with assms(2) View_Copy have legal: "in_array ds (a_mem A) a n" "p \<noteq> NULL" "v_mem C p = None"
    "length garbage = n * cells_of ds" by (simp_all add: fresh_block_def)
  note part = part_holds [OF assms(1) legal(1)]
  from InitCopy_copies [OF part legal(2-4)] views_ok_add [OF assms(1) legal(2,3) part(2)]
  show ?thesis by (simp add: View_Copy array Copy_def)
next
  case (View_Clone p garbage i)
  with assms(2) obtain av where av: "i < length (a_list A)" "a_list A ! i = Some av" and
    legal: "p \<noteq> NULL" "v_mem C p = None" "length garbage = aview_size av * cells_of ds"
    by (auto simp: fresh_block_def split: option.splits)
  from list_all2_nthD2 [OF views_okD(3) [OF assms(1)] av(1)]
  show ?thesis unfolding av(2)
  proof (cases rule: view_rel_cases)
    case (2 a n)
    with views_ok_ref [OF assms(1) 2(3)] av View_Clone show ?thesis
      by (cases C) (simp add: copy_NativeArray_def InitRef_def)
  next
    case (3 q n vs)
    from view_holds [OF assms(1) av] obtain x where "v_list C ! i = Some x"
      "holds (v_mem C) (na_array x) (aview_contents ds (a_mem A) av)" .
    with 3 have "holds (v_mem C) (q, 0) vs" by simp
    from InitCopy_copies [OF this, of n ds p garbage] views_ok_add [OF assms(1) legal(1,2) 3(4)] legal 3 av View_Clone
    show ?thesis by (simp add: copy_NativeArray_def)
  qed simp
next
  case (View_Destroy i)
  with assms(2) obtain av where av: "i < length (a_list A)" "a_list A ! i = Some av" by auto
  then obtain x where "v_list C ! i = Some x" using view_holds [OF assms(1) av] by blast
  with views_ok_destroy [OF assms(1) av(1)] View_Destroy show ?thesis by fastforce
next
  case (Assign a v)
  with assms(2) obtain cells where c: "a_mem A (fst a) = Some cells" "snd a < length cells"
    by (auto split: option.splits)
  have m: "v_mem C (fst a) = Some cells" using views_okD(2) [OF assms(1) c(1)] .
  then have "fst a \<noteq> NULL" using views_okD(1) [OF assms(1)] by (metis option.distinct(1))
  then have "store (v_mem C) a v = Inr ((v_mem C)(fst a \<mapsto> cells[snd a := v]))"
    using m c(2) by (simp add: store_def)
  with views_ok_assign [OF assms(1) c(1)] c(1) Assign show ?thesis by simp
qed

section \<open>Histories of views\<close>

fun view_run :: "nat list \<Rightarrow> 'v view_op list \<Rightarrow> 'v views \<Rightarrow> 'v views res" where
  "view_run ds [] C = Inr C"
| "view_run ds (op # ops) C = bindr (view_step ds op C) (view_run ds ops)"

fun legal_history :: "nat list \<Rightarrow> 'v view_op list \<Rightarrow> 'v aviews \<Rightarrow> 'v views \<Rightarrow> bool" where
  "legal_history ds [] A C = True"
| "legal_history ds (op # ops) A C = (view_legal ds op A C \<and> (case view_step ds op C of
     Inl _ \<Rightarrow> True | Inr C' \<Rightarrow> legal_history ds ops (a_step ds op A) C'))"

lemma view_run_refines:
  assumes "views_ok ds A C" and "legal_history ds ops A C"
  shows "\<exists>C'. view_run ds ops C = Inr C' \<and> views_ok ds (fold (a_step ds) ops A) C'"
  using assms
proof (induction ops arbitrary: A C)
  case (Cons op ops)
  then obtain C' where "view_step ds op C = Inr C'" "views_ok ds (a_step ds op A) C'"
    using view_step_refines by fastforce
  with Cons show ?case by simp
qed auto

lemma na_eq_contents:
  assumes "views_ok ds A C" and "i < length (a_list A)" "a_list A ! i = Some u"
    and "j < length (a_list A)" "a_list A ! j = Some v"
  shows "\<exists>x y. v_list C ! i = Some x \<and> v_list C ! j = Some y \<and> na_eq eq (v_mem C) ds x y =
    Inr (aview_size u = aview_size v \<and>
      list_all2 eq (aview_contents ds (a_mem A) u) (aview_contents ds (a_mem A) v))"
proof -
  from view_holds [OF assms(1-3)] obtain x where x: "v_list C ! i = Some x" "na_size x = aview_size u"
    "holds (v_mem C) (na_array x) (aview_contents ds (a_mem A) u)"
    "length (aview_contents ds (a_mem A) u) = aview_size u * cells_of ds" .
  from view_holds [OF assms(1,4,5)] obtain y where y: "v_list C ! j = Some y" "na_size y = aview_size v"
    "holds (v_mem C) (na_array y) (aview_contents ds (a_mem A) v)"
    "length (aview_contents ds (a_mem A) v) = aview_size v * cells_of ds" .
  from x y ArrayEq_size_cells [OF x(3) y(3), of "aview_size u" ds eq] show ?thesis
    by (auto simp: na_eq_def na_begin_def)
qed

text \<open>
C33: a program that takes views of its arrays by reference and by copy, copies and destroys views and
goes on assigning to its arrays never faults. Comparing two views that are alive compares the current
cells of what a referencing view refers to and, for a copying view and the copies of it, the cells at the time of
the copy, for elements of any dimensions and whatever the new blocks contained; and once the views
are destroyed only the program's own arrays are allocated.
\<close>

theorem native_array_views_refine_values:
  assumes "M NULL = None" and "A = fold (a_step ds) ops \<lparr>a_mem = M, a_list = []\<rparr>"
    and "legal_history ds ops \<lparr>a_mem = M, a_list = []\<rparr> \<lparr>v_mem = M, v_list = []\<rparr>"
  shows "\<exists>C. view_run ds ops \<lparr>v_mem = M, v_list = []\<rparr> = Inr C \<and>
    (\<forall>i u j v. i < length (a_list A) \<longrightarrow> a_list A ! i = Some u \<longrightarrow> j < length (a_list A) \<longrightarrow> a_list A ! j = Some v \<longrightarrow>
      (\<exists>x y. v_list C ! i = Some x \<and> v_list C ! j = Some y \<and> na_eq eq (v_mem C) ds x y =
        Inr (aview_size u = aview_size v \<and>
          list_all2 eq (aview_contents ds (a_mem A) u) (aview_contents ds (a_mem A) v)))) \<and>
    (set (a_list A) \<subseteq> {None} \<longrightarrow> dom (v_mem C) = dom (a_mem A))"
proof -
  have "views_ok ds \<lparr>a_mem = M, a_list = []\<rparr> \<lparr>v_mem = M, v_list = []\<rparr>"
    using assms(1) by (simp add: views_ok_def)
  from view_run_refines [OF this assms(3)] obtain C where
    C: "view_run ds ops \<lparr>v_mem = M, v_list = []\<rparr> = Inr C" "views_ok ds A C"
    using assms(2) by auto
  have "dom (v_mem C) = dom (a_mem A)" if "set (a_list A) \<subseteq> {None}"
  proof -
    have "own v = []" if "v \<in> set (v_list C)" for v
    proof -
      from that obtain i where "i < length (v_list C)" "v = v_list C ! i" by (metis in_set_conv_nth)
      then have rel: "view_rel ds (a_mem A) (v_mem C) v (a_list A ! i)" and "a_list A ! i \<in> set (a_list A)"
        using views_okD(3) [OF C(2)] by (auto simp: list_all2_conv_all_nth)
      with \<open>set (a_list A) \<subseteq> {None}\<close> have "a_list A ! i = None" by blast
      with rel show ?thesis by (cases v) simp_all
    qed
    then have "set (blocks (v_list C)) = {}" by simp
    with views_okD(6) [OF C(2)] show ?thesis by simp
  qed
  with C(1) na_eq_contents [OF C(2)] show ?thesis by blast
qed

text \<open>A matrix viewed by reference and by copy, the copy copied, then one cell of the matrix assigned.\<close>

definition sample_ops :: "int view_op list" where
  "sample_ops = [View_Ref ((1, 0), 2), View_Copy 2 [0, 0, 0, 0] ((1, 0), 2), View_Clone 3 [9, 9, 9, 9] 1,
     Assign (1, 3) 7, View_Destroy 1]"

definition sample_memory :: "int memory" where
  "sample_memory = [1 \<mapsto> [1, 2, 3, 4]]"

theorem native_array_views_refine_values_witness:
  "\<exists>C x y. view_run [2] sample_ops \<lparr>v_mem = sample_memory, v_list = []\<rparr> = Inr C \<and>
    v_list C ! 0 = Some x \<and> v_list C ! 2 = Some y \<and> na_eq (=) (v_mem C) [2] x y = Inr False"
proof -
  let ?A = "\<lparr>a_mem = sample_memory, a_list = []\<rparr>" and ?C = "\<lparr>v_mem = sample_memory, v_list = []\<rparr>"
  have A: "fold (a_step [2]) sample_ops ?A = \<lparr>a_mem = [1 \<mapsto> [1, 2, 3, 7]],
      a_list = [Some (Follows (1, 0) 2), None, Some (Keeps 2 [1, 2, 3, 4])]\<rparr>"
    by (simp add: sample_ops_def sample_memory_def part_def eval_nat_numeral)
  have legal: "legal_history [2] sample_ops ?A ?C"
    by (simp add: sample_ops_def sample_memory_def in_array_def fresh_block_def part_def ConstReference_def InitRef_def
        Copy_def InitCopy_def copy_NativeArray_def CopyArray_size_def destroy_NativeArray_def load_def store_def eval_nat_numeral)
  have "sample_memory NULL = None" by (simp add: sample_memory_def)
  let ?M = "[1 \<mapsto> [1, 2, 3, 7]] :: int memory"
  let ?vs = "[Some (Follows (1, 0) 2), None, Some (Keeps 2 [1, 2, 3, 4])] :: int aview option list"
  from native_array_views_refine_values [OF \<open>sample_memory NULL = None\<close> refl legal, of "(=)"] obtain C where
    C: "view_run [2] sample_ops ?C = Inr C" and
    eq: "\<forall>i u j v. i < length ?vs \<longrightarrow> ?vs ! i = Some u \<longrightarrow> j < length ?vs \<longrightarrow> ?vs ! j = Some v \<longrightarrow>
      (\<exists>x y. v_list C ! i = Some x \<and> v_list C ! j = Some y \<and> na_eq (=) (v_mem C) [2] x y =
        Inr (aview_size u = aview_size v \<and> list_all2 (=) (aview_contents [2] ?M u) (aview_contents [2] ?M v)))"
    unfolding A aviews.select_convs by blast
  from eq [rule_format, of 0 "Follows (1, 0) 2" 2 "Keeps 2 [1, 2, 3, 4]"] C show ?thesis
    by (auto simp: part_def eval_nat_numeral)
qed

end
