(* ===== verification/Gtest_Tuple.thy ===== *)
theory Gtest_Tuple
  imports Prelude
begin

text \<open>
  The tuples of the bundled googletest (gtest-tuple.h), which the matchers, actions and generators pass around. The classes
  for 0 to 10 fields are one definition: a tuple is the list of its fields, each with the cell it owns or, for a
  reference type, the cell it refers to, on a store of values. What does not compile is \<open>None\<close>. Main results: a
  tuple made of values gives them back and compares field by field, and assignment copies field after
  field, which is the assignment of all fields at once exactly when no field is read after its cell was written.
\<close>

section \<open>Fields, construction and access\<close>

datatype tuple_field = Value ptr | Reference ptr

type_synonym tuple_object = "tuple_field list"
type_synonym 'v cells = "ptr \<Rightarrow> 'v"

primrec cell :: "tuple_field \<Rightarrow> ptr" where
  "cell (Value p) = p"
| "cell (Reference p) = p"

definition tuple_size :: "'t list \<Rightarrow> nat" where
  "tuple_size t = length t"

text \<open>\<open>TupleElement\<close> is only defined for a valid index.\<close>

definition tuple_element :: "nat \<Rightarrow> 't list \<Rightarrow> 't option" where
  "tuple_element k Tuple = (if k < tuple_size Tuple then Some (Tuple ! k) else None)"

text \<open>\<open>Get<k>::Field\<close> and \<open>get<k>\<close>: the cell the result refers to.\<close>

definition get :: "nat \<Rightarrow> tuple_object \<Rightarrow> ptr option" where
  "get k t = map_option cell (tuple_element k t)"

text \<open>The type of a field, and the initialisation of a field from the cell of an argument.\<close>

datatype field_kind = by_value | by_reference

fun init_field :: "('v \<Rightarrow> 'v) \<Rightarrow> field_kind \<Rightarrow> ptr \<Rightarrow> ptr \<Rightarrow> 'v cells \<Rightarrow> tuple_field \<times> 'v cells" where
  "init_field convert by_value own arg h = (Value own, h(own := convert (h arg)))"
| "init_field convert by_reference own arg h = (Reference arg, h)"

text \<open>\<open>tuple(f0, ..., fn)\<close>; \<open>own\<close> are the cells of the new object.\<close>

fun construct :: "('v \<Rightarrow> 'v) list \<Rightarrow> field_kind list \<Rightarrow> ptr list \<Rightarrow> ptr list \<Rightarrow> 'v cells \<Rightarrow> tuple_object \<times> 'v cells" where
  "construct (c # cs) (k # ks) (own # owns) (arg # args) h =
     (case init_field c k own arg h of (f, h) \<Rightarrow> case construct cs ks owns args h of (fs, h) \<Rightarrow> (f # fs, h))"
| "construct cs ks owns args h = ([], h)"

text \<open>\<open>tuple()\<close> initialises every field with the default value; a reference has none.\<close>

fun default_tuple :: "'v list \<Rightarrow> field_kind list \<Rightarrow> ptr list \<Rightarrow> 'v cells \<Rightarrow> (tuple_object \<times> 'v cells) option" where
  "default_tuple (d # ds) (by_value # ks) (own # owns) h =
     map_option (map_prod ((#) (Value own)) id) (default_tuple ds ks owns (h(own := d)))"
| "default_tuple ds (by_reference # ks) owns h = None"
| "default_tuple ds ks owns h = Some ([], h)"

text \<open>The copy and conversion constructors, and the one from a pair.\<close>

definition copy_tuple :: "('v \<Rightarrow> 'v) list \<Rightarrow> field_kind list \<Rightarrow> ptr list \<Rightarrow> tuple_object \<Rightarrow> 'v cells \<Rightarrow> tuple_object \<times> 'v cells" where
  "copy_tuple convert kinds own t = construct convert kinds own (map cell t)"

definition tuple_of_pair :: "('v \<Rightarrow> 'v) list \<Rightarrow> field_kind list \<Rightarrow> ptr list \<Rightarrow> ptr \<times> ptr \<Rightarrow> 'v cells \<Rightarrow> tuple_object \<times> 'v cells" where
  "tuple_of_pair convert kinds own p = construct convert kinds own [fst p, snd p]"

text \<open>\<open>make_tuple\<close> deduces value types.\<close>

definition make_tuple :: "ptr list \<Rightarrow> ptr list \<Rightarrow> 'v cells \<Rightarrow> tuple_object \<times> 'v cells" where
  "make_tuple own args = construct (map (\<lambda>_. id) args) (map (\<lambda>_. by_value) args) own args"

section \<open>Assignment\<close>

text \<open>Field after field, with the conversion of each field; a reference is assigned through.\<close>

fun CopyFrom :: "('v \<Rightarrow> 'v) list \<Rightarrow> tuple_object \<Rightarrow> tuple_object \<Rightarrow> 'v cells \<Rightarrow> 'v cells" where
  "CopyFrom (c # cs) (f # fs) (g # gs) h = CopyFrom cs fs gs (h(cell f := c (h (cell g))))"
| "CopyFrom cs fs gs h = h"

definition assign :: "('v \<Rightarrow> 'v) list \<Rightarrow> tuple_object \<Rightarrow> tuple_object \<Rightarrow> 'v cells \<Rightarrow> 'v cells option" where
  "assign convert t u h = (if tuple_size t = tuple_size u then Some (CopyFrom convert t u h) else None)"

definition assign_pair :: "('v \<Rightarrow> 'v) list \<Rightarrow> tuple_object \<Rightarrow> ptr \<times> ptr \<Rightarrow> 'v cells \<Rightarrow> 'v cells option" where
  "assign_pair convert t p h = (if tuple_size t = 2 then
     let h = h(cell (t ! 0) := (convert ! 0) (h (fst p))) in
     Some (h(cell (t ! 1) := (convert ! 1) (h (snd p)))) else None)"

section \<open>Comparison\<close>

fun SameSizeTuplePrefixComparator_Eq ::
  "('v \<Rightarrow> 'v \<Rightarrow> bool) \<Rightarrow> nat \<Rightarrow> tuple_object \<Rightarrow> tuple_object \<Rightarrow> 'v cells \<Rightarrow> bool option" where
  "SameSizeTuplePrefixComparator_Eq eq 0 t1 t2 h = Some True"
| "SameSizeTuplePrefixComparator_Eq eq (Suc k) t1 t2 h =
     (case (SameSizeTuplePrefixComparator_Eq eq k t1 t2 h, get k t1, get k t2) of
        (Some b, Some p, Some q) \<Rightarrow> Some (b \<and> eq (h p) (h q)) | _ \<Rightarrow> None)"

definition tuple_eq :: "('v \<Rightarrow> 'v \<Rightarrow> bool) \<Rightarrow> tuple_object \<Rightarrow> tuple_object \<Rightarrow> 'v cells \<Rightarrow> bool option" where
  "tuple_eq eq t u h =
     (if tuple_size t = tuple_size u then SameSizeTuplePrefixComparator_Eq eq (tuple_size t) t u h else None)"

definition tuple_ne :: "('v \<Rightarrow> 'v \<Rightarrow> bool) \<Rightarrow> tuple_object \<Rightarrow> tuple_object \<Rightarrow> 'v cells \<Rightarrow> bool option" where
  "tuple_ne eq t u h = map_option Not (tuple_eq eq t u h)"

section \<open>Tuples as values\<close>

text \<open>What a tuple holds.\<close>

definition contents :: "tuple_object \<Rightarrow> 'v cells \<Rightarrow> 'v list" where
  "contents t h = map (\<lambda>f. h (cell f)) t"

lemma get_contents: "get k t = Some p \<Longrightarrow> h p = contents t h ! k"
  by (auto simp: get_def tuple_element_def contents_def tuple_size_def split: if_splits)

lemma prefix_comparator:
  "k \<le> length t \<Longrightarrow> k \<le> length u \<Longrightarrow> SameSizeTuplePrefixComparator_Eq eq k t u h =
     Some (list_all2 eq (take k (contents t h)) (take k (contents u h)))"
proof (induction k)
  case (Suc k)
  then have "take (Suc k) (contents t h) = take k (contents t h) @ [h (cell (t ! k))]"
    "take (Suc k) (contents u h) = take k (contents u h) @ [h (cell (u ! k))]"
    by (simp_all add: contents_def take_Suc_conv_app_nth)
  moreover have "get k t = Some (cell (t ! k))" "get k u = Some (cell (u ! k))"
    using Suc.prems by (simp_all add: get_def tuple_element_def tuple_size_def)
  moreover have "length (take k (contents t h)) = length (take k (contents u h))"
    using Suc.prems by (simp add: contents_def)
  ultimately show ?case using Suc by (simp add: list_all2_append)
qed simp

lemma tuple_eq_contents:
  "tuple_eq eq t u h = (if length t = length u then Some (list_all2 eq (contents t h) (contents u h)) else None)"
  using prefix_comparator [of "length t" t u eq h] by (auto simp: tuple_eq_def tuple_size_def contents_def)

text \<open>The cells an object owns, and that a new object shares none with what it is made from.\<close>

lemma construct_values:
  assumes "length own = length args" "distinct own" "set own \<inter> set args = {}" "length cs = length args"
  shows "\<exists>h'. construct cs (map (\<lambda>_. by_value) args) own args h = (map Value own, h') \<and>
    contents (map Value own) h' = map2 (\<lambda>c a. c (h a)) cs args \<and> (\<forall>p. p \<notin> set own \<longrightarrow> h' p = h p)"
  using assms
proof (induction args arbitrary: own cs h)
  case (Cons a args)
  obtain p own' c cs' where own: "own = p # own'" "cs = c # cs'" using Cons.prems(1,4) by (metis length_Suc_conv)
  define h1 where "h1 = h(p := c (h a))"
  have h1: "h1 p = c (h a)" "\<And>q. q \<noteq> p \<Longrightarrow> h1 q = h q" by (simp_all add: h1_def)
  have "length own' = length args" "distinct own'" "set own' \<inter> set args = {}" "length cs' = length args" "p \<notin> set own'"
      "p \<notin> set args" using Cons.prems own by auto
  with Cons.IH [of own' cs' h1] obtain h' where
    h': "construct cs' (map (\<lambda>_. by_value) args) own' args h1 = (map Value own', h')"
      "contents (map Value own') h' = map2 (\<lambda>c a. c (h1 a)) cs' args" "\<And>q. q \<notin> set own' \<Longrightarrow> h' q = h1 q" by blast
  have "map2 (\<lambda>c a. c (h1 a)) cs' args = map2 (\<lambda>c a. c (h a)) cs' args"
    using \<open>p \<notin> set args\<close> by (intro map_cong) (auto simp: h1_def dest!: set_zip_rightD)
  moreover have "h' p = c (h a)" using h'(3) \<open>p \<notin> set own'\<close> h1(1) by simp
  moreover have "h' q = h q" if "q \<notin> set own" for q using that h'(3) h1(2) own by simp
  ultimately show ?case using h'(1,2) own unfolding h1_def by (simp add: contents_def)
qed (simp add: contents_def)

text \<open>
  Assignment field after field is assignment of all fields at once, when the fields of the target have different
  cells and no field of the source is the cell of an earlier field of the target.
\<close>

definition read_before_written :: "tuple_object \<Rightarrow> tuple_object \<Rightarrow> bool" where
  "read_before_written t u \<longleftrightarrow> distinct (map cell t) \<and> (\<forall>j < length u. \<forall>i < j. cell (t ! i) \<noteq> cell (u ! j))"

lemma read_before_written_Cons:
  "read_before_written (f # fs) (g # gs) \<longleftrightarrow>
     cell f \<notin> cell ` set fs \<and> cell f \<notin> cell ` set gs \<and> read_before_written fs gs"
proof -
  have "(\<forall>j < length (g # gs). \<forall>i < j. cell ((f # fs) ! i) \<noteq> cell ((g # gs) ! j)) \<longleftrightarrow>
      (\<forall>j < length gs. cell f \<noteq> cell (gs ! j) \<and> (\<forall>i < j. cell (fs ! i) \<noteq> cell (gs ! j)))"
    by (simp add: All_less_Suc2)
  moreover have "cell f \<notin> cell ` set gs \<longleftrightarrow> (\<forall>j < length gs. cell f \<noteq> cell (gs ! j))"
    by (auto simp: in_set_conv_nth image_iff Bex_def)
  ultimately show ?thesis unfolding read_before_written_def by auto
qed

lemma CopyFrom_parallel:
  "length t = length u \<Longrightarrow> length cs = length u \<Longrightarrow> read_before_written t u \<Longrightarrow>
    contents t (CopyFrom cs t u h) = map2 (\<lambda>c v. c v) cs (contents u h) \<and>
    (\<forall>p. p \<notin> cell ` set t \<longrightarrow> CopyFrom cs t u h p = h p)"
proof (induction t u arbitrary: cs h rule: list_induct2')
  case (4 f fs g gs)
  obtain c cs' where cs: "cs = c # cs'" using 4(3) by (metis length_Suc_conv list.size(4) add.commute plus_1_eq_Suc)
  define h1 where "h1 = h(cell f := c (h (cell g)))"
  have h1: "h1 (cell f) = c (h (cell g))" "\<And>q. q \<noteq> cell f \<Longrightarrow> h1 q = h q" by (simp_all add: h1_def)
  have ok: "read_before_written fs gs" "cell f \<notin> cell ` set fs" "cell f \<notin> cell ` set gs"
    using 4(4) by (simp_all add: read_before_written_Cons)
  have "contents gs h1 = contents gs h" using ok(3) by (simp add: contents_def h1_def) (metis imageI)
  with 4(1) [of cs' h1] 4(2,3) ok cs
  have "contents fs (CopyFrom cs' fs gs h1) = map2 (\<lambda>c v. c v) cs' (contents gs h)"
    "\<And>p. p \<notin> cell ` set fs \<Longrightarrow> CopyFrom cs' fs gs h1 p = h1 p" by simp_all
  then show ?case using cs ok h1 unfolding h1_def [symmetric] CopyFrom.simps by (simp add: contents_def h1_def [symmetric])
qed (simp_all add: contents_def)

text \<open>
A tuple made by \<open>make_tuple\<close> in cells of its own holds the arguments, \<open>get\<close> compiles exactly for its indices and gives
them, and it equals any tuple that holds equal values. Assigning a tuple of the same size converts and copies every field
and writes nothing else, provided the fields of the target have different cells and none is read after it was
written; tuples of other sizes cannot be assigned or compared.
\<close>

theorem tuples_are_values:
  assumes "length own = length args" "distinct own" "set own \<inter> set args = {}"
    and "read_before_written t u" "length cs = length u"
  shows "(case make_tuple own args h of (m, h') \<Rightarrow>
      (\<forall>k. map_option h' (get k m) = (if k < length args then Some (h (args ! k)) else None)) \<and>
      (\<forall>eq. tuple_eq eq m u h' = (if length args = length u then Some (list_all2 eq (map h args) (contents u h')) else None)) \<and>
      (\<forall>p. p \<notin> set own \<longrightarrow> h' p = h p)) \<and>
    (case assign cs t u h of
       None \<Rightarrow> length t \<noteq> length u
     | Some h' \<Rightarrow> length t = length u \<and> contents t h' = map2 (\<lambda>c v. c v) cs (contents u h) \<and>
         (\<forall>p. p \<notin> cell ` set t \<longrightarrow> h' p = h p))"
proof (intro conjI)
  obtain h' where m: "make_tuple own args h = (map Value own, h')" and
    c: "contents (map Value own) h' = map2 (\<lambda>c a. c (h a)) (map (\<lambda>_. id) args) args" and
    o: "\<forall>p. p \<notin> set own \<longrightarrow> h' p = h p"
    using construct_values [OF assms(1-3), of "map (\<lambda>_. id) args" h] by (auto simp: make_tuple_def)
  have "map2 (\<lambda>c a. c (h a)) (map (\<lambda>_. id) args) args = map h args" by (rule nth_equalityI) simp_all
  with c have c: "contents (map Value own) h' = map h args" by simp
  have "map_option h' (get k (map Value own)) = (if k < length args then Some (h (args ! k)) else None)" for k
  proof (cases "k < length args")
    case True
    then have "h' (own ! k) = map h args ! k" using assms(1) unfolding c [symmetric] by (simp add: contents_def)
    with True assms(1) show ?thesis by (simp add: get_def tuple_element_def tuple_size_def)
  qed (use assms(1) in \<open>simp add: get_def tuple_element_def tuple_size_def\<close>)
  with m c o assms(1) show "case make_tuple own args h of (m, h') \<Rightarrow>
      (\<forall>k. map_option h' (get k m) = (if k < length args then Some (h (args ! k)) else None)) \<and>
      (\<forall>eq. tuple_eq eq m u h' = (if length args = length u then Some (list_all2 eq (map h args) (contents u h')) else None)) \<and>
      (\<forall>p. p \<notin> set own \<longrightarrow> h' p = h p)" by (simp add: tuple_eq_contents)
  show "case assign cs t u h of
       None \<Rightarrow> length t \<noteq> length u
     | Some h' \<Rightarrow> length t = length u \<and> contents t h' = map2 (\<lambda>c v. c v) cs (contents u h) \<and>
         (\<forall>p. p \<notin> cell ` set t \<longrightarrow> h' p = h p)"
    using CopyFrom_parallel [OF _ assms(5,4)] by (simp add: assign_def tuple_size_def)
qed

text \<open>A value tuple is assigned from the tuple of references to two variables.\<close>

theorem tuples_are_values_witness:
  "assign [\<lambda>v. v + 1, \<lambda>v. v] [Value 10, Value 11] [Reference 0, Reference 1] (\<lambda>p. int p) =
     Some ((\<lambda>p. int p)(10 := 1, 11 := 1)) \<and>
   contents [Value 10, Value 11] ((\<lambda>p. int p)(10 := 1, 11 := 1)) = [1, 1]"
proof -
  have "read_before_written [Value 10, Value 11] [Reference 0, Reference 1]"
    by (simp add: read_before_written_Cons) (simp add: read_before_written_def)
  from tuples_are_values [of "[20, 21]" "[0, 1]", OF _ _ _ this, of "[\<lambda>v. v + 1, \<lambda>v. v]" "\<lambda>p. int p"]
  show ?thesis by (simp add: assign_def tuple_size_def contents_def)
qed

text \<open>
  The proviso matters: through tuples of references two variables are not swapped, both end up with the value of
  the second. Self-assignment meets it.
\<close>

lemma reference_tuples_do_not_swap:
  "a \<noteq> b \<Longrightarrow> assign [id, id] [Reference a, Reference b] [Reference b, Reference a] h = Some (h(a := h b))"
  by (auto simp: assign_def tuple_size_def)

lemma self_assignment:
  "distinct (map cell t) \<Longrightarrow> length t = n \<Longrightarrow> contents t (CopyFrom (replicate n id) t t h) = contents t h"
proof -
  assume d: "distinct (map cell t)" and n: "length t = n"
  have "read_before_written t t" using d by (auto simp: read_before_written_def distinct_conv_nth)
  moreover have "map2 (\<lambda>c v. c v) (replicate (length t) id) (contents t h) = contents t h"
    by (rule nth_equalityI) (simp_all add: contents_def)
  ultimately show ?thesis using CopyFrom_parallel [of t t "replicate (length t) id" h] n by simp
qed

text \<open>Copying a tuple of values gives an equal tuple; copying a tuple of references refers to the same variables.\<close>

lemma copy_of_values:
  assumes "length own = length t" "distinct own" "set own \<inter> cell ` set t = {}"
  shows "\<exists>h'. copy_tuple (map (\<lambda>_. id) t) (map (\<lambda>_. by_value) t) own t h = (map Value own, h') \<and>
    contents (map Value own) h' = contents t h"
proof -
  obtain h' where "construct (map (\<lambda>_. id) t) (map (\<lambda>_. by_value) (map cell t)) own (map cell t) h = (map Value own, h')"
      "contents (map Value own) h' = map2 (\<lambda>c a. c (h a)) (map (\<lambda>_. id) t) (map cell t)"
    using construct_values [of own "map cell t" "map (\<lambda>_. id) t" h] assms by auto
  moreover have "map2 (\<lambda>c a. c (h a)) (map (\<lambda>_. id) t) (map cell t) = contents t h"
    by (rule nth_equalityI) (simp_all add: contents_def)
  ultimately show ?thesis by (simp add: copy_tuple_def comp_def)
qed

lemma copy_of_references:
  "length own = length t \<Longrightarrow> copy_tuple (map (\<lambda>_. id) t) (map (\<lambda>_. by_reference) t) own t h =
     (map (\<lambda>f. Reference (cell f)) t, h)"
proof (induction t arbitrary: own)
  case (Cons f t)
  then show ?case by (cases own) (simp_all add: copy_tuple_def)
qed (simp add: copy_tuple_def)

end
