(* ===== verification/Gtest_Death_Tests.thy ===== *)
theory Gtest_Death_Tests
  imports Gtest_Assertions
begin

text \<open>
  Death tests (gtest-death-test.h and gtest-death-test-internal.h). \<open>GTEST_DEATH_TEST_\<close> runs in two
  processes: the parent oversees, the child executes the statement and signals through \<open>Abort\<close> when
  the statement did not end the process. The macro, the sentinel that notices a \<open>return\<close> and the exception
  barrier are the code of the headers; the concrete \<open>DeathTest\<close> is compiled code, a record of functions on a
  world of any type. Main result: the parent reports a failure exactly when the statement does
  not end the process with an accepted status and output.
\<close>

section \<open>The interface DeathTest\<close>

datatype TestRole = OVERSEE_TEST | EXECUTE_TEST

datatype AbortReason = TEST_ENCOUNTERED_RETURN_STATEMENT | TEST_THREW_EXCEPTION | TEST_DID_NOT_DIE

text \<open>
  \<open>dt_Create\<close> gives \<open>None\<close> for an error and \<open>Some NULL\<close> for a death test to be skipped. \<open>dt_Abort\<close> returns, or ends
  the process with a status.
\<close>

record ('re, 'x, 's) death_test_api =
  dt_Create :: "string \<Rightarrow> 're \<Rightarrow> 's \<Rightarrow> ptr option \<times> 's"
  dt_AssumeRole :: "ptr \<Rightarrow> 's \<Rightarrow> TestRole \<times> 's"
  dt_Wait :: "ptr \<Rightarrow> 's \<Rightarrow> int \<times> 's"
  dt_Passed :: "ptr \<Rightarrow> bool \<Rightarrow> 's \<Rightarrow> bool \<times> 's"
  dt_Abort :: "ptr \<Rightarrow> AbortReason \<Rightarrow> 's \<Rightarrow> int option \<times> 's"
  dt_LastMessage :: "'s \<Rightarrow> string"
  dt_delete :: "ptr \<Rightarrow> 's \<Rightarrow> 's"
  dt_what :: "'x \<Rightarrow> string option"
  print_stderr :: "string \<Rightarrow> 's \<Rightarrow> 's"
  FormatFileLocation :: string
  ExitedUnsuccessfully :: "int \<Rightarrow> bool"

section \<open>The statement in the child\<close>

text \<open>A statement can also end the process.\<close>

datatype 'x outcome = Lives "'x control" | Dies int

type_synonym ('s, 'x) deadly = "'s \<Rightarrow> 'x outcome \<times> 's"

definition abort_then ::
  "('re, 'x, 's) death_test_api \<Rightarrow> ptr \<Rightarrow> AbortReason \<Rightarrow> ('s, 'x) deadly \<Rightarrow> ('s, 'x) deadly" where
  "abort_then api dt reason k s = (case dt_Abort api dt reason s of
     (Some status, s) \<Rightarrow> (Dies status, s) | (None, s) \<Rightarrow> k s)"

definition GTEST_EXECUTE_DEATH_TEST_STATEMENT ::
  "('re, 'x, 's) death_test_api \<Rightarrow> ptr \<Rightarrow> ('s, 'x) deadly \<Rightarrow> ('s, 'x) deadly" where
  "GTEST_EXECUTE_DEATH_TEST_STATEMENT api dt statement s = (case statement s of
     (Lives (Threw x), s) \<Rightarrow>
       let s = (case dt_what api x of
           Some what \<Rightarrow> print_stderr api (newline @ FormatFileLocation api @
             '': Caught std::exception-derived exception escaping the death test statement. Exception message: '' @
             what @ newline) s
         | None \<Rightarrow> s)
       in abort_then api dt TEST_THREW_EXCEPTION (\<lambda>s. (Lives Completed, s)) s
   | (c, s) \<Rightarrow> (c, s))"

text \<open>Leaving the block destroys the sentinel.\<close>

definition destroy_ReturnSentinel ::
  "('re, 'x, 's) death_test_api \<Rightarrow> ptr \<Rightarrow> 'x control \<Rightarrow> ('s, 'x) deadly" where
  "destroy_ReturnSentinel api dt c =
     abort_then api dt TEST_ENCOUNTERED_RETURN_STATEMENT (\<lambda>s. (Lives c, s))"

definition execute_case :: "('re, 'x, 's) death_test_api \<Rightarrow> ptr \<Rightarrow> ('s, 'x) deadly \<Rightarrow> ('s, 'x) deadly" where
  "execute_case api dt statement s =
     (case GTEST_EXECUTE_DEATH_TEST_STATEMENT api dt statement s of
        (Lives Completed, s) \<Rightarrow>
          abort_then api dt TEST_DID_NOT_DIE (destroy_ReturnSentinel api dt Completed) s
      | (Lives c, s) \<Rightarrow> destroy_ReturnSentinel api dt c s
      | (Dies status, s) \<Rightarrow> (Dies status, s))"

section \<open>The macros\<close>

text \<open>\<open>gtest_dt_ptr\<close> deletes the death test when its block is left, before a jump reaches the label.\<close>

definition deleting :: "('re, 'x, 's) death_test_api \<Rightarrow> ptr \<Rightarrow> 'x outcome \<times> 's \<Rightarrow> 'x outcome \<times> 's" where
  "deleting api dt r = (case r of (Dies status, s) \<Rightarrow> (Dies status, s) | (Lives c, s) \<Rightarrow> (Lives c, dt_delete api dt s))"

definition fail_statement ::
  "('re, 'x, 's) death_test_api \<Rightarrow> (string \<Rightarrow> ('s, 'x) stmt) \<Rightarrow> ('s, 'x) deadly" where
  "fail_statement api fail s = (case fail (dt_LastMessage api s) s of (c, s) \<Rightarrow> (Lives c, s))"

definition GTEST_DEATH_TEST ::
  "('re, 'x, 's) death_test_api \<Rightarrow> ('s, 'x) deadly \<Rightarrow> string \<Rightarrow> (int \<Rightarrow> bool) \<Rightarrow> 're \<Rightarrow>
    (string \<Rightarrow> ('s, 'x) stmt) \<Rightarrow> ('s, 'x) deadly" where
  "GTEST_DEATH_TEST api statement text predicate regex fail s =
     (case dt_Create api text regex s of
        (None, s) \<Rightarrow> fail_statement api fail s
      | (Some gtest_dt, s) \<Rightarrow>
          if gtest_dt = NULL then (Lives Completed, s)
          else case dt_AssumeRole api gtest_dt s of
            (OVERSEE_TEST, s) \<Rightarrow>
              (case dt_Wait api gtest_dt s of (status, s) \<Rightarrow>
               case dt_Passed api gtest_dt (predicate status) s of (passed, s) \<Rightarrow>
                 if \<not> passed then fail_statement api fail (dt_delete api gtest_dt s)
                 else deleting api gtest_dt (Lives Completed, s))
          | (EXECUTE_TEST, s) \<Rightarrow> deleting api gtest_dt (execute_case api gtest_dt statement s))"

definition ASSERT_EXIT where
  "ASSERT_EXIT api rep statement text predicate regex =
     GTEST_DEATH_TEST api statement text predicate regex (GTEST_FATAL_FAILURE rep)"

definition EXPECT_EXIT where
  "EXPECT_EXIT api rep statement text predicate regex =
     GTEST_DEATH_TEST api statement text predicate regex (GTEST_NONFATAL_FAILURE rep)"

definition ASSERT_DEATH where
  "ASSERT_DEATH api rep statement text regex =
     ASSERT_EXIT api rep statement text (ExitedUnsuccessfully api) regex"

definition EXPECT_DEATH where
  "EXPECT_DEATH api rep statement text regex =
     EXPECT_EXIT api rep statement text (ExitedUnsuccessfully api) regex"

text \<open>In \<open>NDEBUG\<close> mode the statement of \<open>EXPECT_DEBUG_DEATH\<close> and \<open>ASSERT_DEBUG_DEATH\<close> is only executed.\<close>

definition GTEST_EXECUTE_STATEMENT :: "('s, 'x) deadly \<Rightarrow> ('s, 'x) deadly" where
  "GTEST_EXECUTE_STATEMENT statement = statement"

definition DEBUG_DEATH :: "bool \<Rightarrow> ('s, 'x) deadly \<Rightarrow> ('s, 'x) deadly \<Rightarrow> ('s, 'x) deadly" where
  "DEBUG_DEATH ndebug death statement = (if ndebug then GTEST_EXECUTE_STATEMENT statement else death)"

section \<open>What the child signals\<close>

text \<open>
  The documented behaviour of \<open>Abort\<close>: it signals that the statement did not die as expected (\<open>signals\<close> is the
  log of these), and the child ends there.
\<close>

definition abort_contract :: "('re, 'x, 's) death_test_api \<Rightarrow> ('s \<Rightarrow> AbortReason list) \<Rightarrow> int \<Rightarrow> bool" where
  "abort_contract api signals status \<longleftrightarrow>
     (\<forall>dt reason s. fst (dt_Abort api dt reason s) = Some status \<and>
        signals (snd (dt_Abort api dt reason s)) = signals s @ [reason]) \<and>
     (\<forall>text s. signals (print_stderr api text s) = signals s)"

fun reason_of :: "'x outcome \<Rightarrow> AbortReason list" where
  "reason_of (Dies status) = []"
| "reason_of (Lives Completed) = [TEST_DID_NOT_DIE]"
| "reason_of (Lives Returned) = [TEST_ENCOUNTERED_RETURN_STATEMENT]"
| "reason_of (Lives (Threw x)) = [TEST_THREW_EXCEPTION]"

lemma abort_then_ends:
  assumes "abort_contract api signals status"
  shows "\<exists>s'. abort_then api dt reason k s = (Dies status, s') \<and> signals s' = signals s @ [reason]"
  using assms unfolding abort_contract_def abort_then_def
  by (cases "dt_Abort api dt reason s") (metis (mono_tags, lifting) case_prod_conv fst_conv option.simps(5) snd_conv)

text \<open>The child always ends, after one signal that says how the statement went if it did not die.\<close>

lemma execute_case_signals:
  assumes "abort_contract api signals status" and "statement s = (c, s1)"
  shows "\<exists>s'. execute_case api dt statement s = (Dies (case c of Dies st \<Rightarrow> st | _ \<Rightarrow> status), s') \<and>
    signals s' = signals s1 @ reason_of c \<and> (\<forall>st. c = Dies st \<longrightarrow> s' = s1)"
proof (cases c)
  case (Dies st)
  then show ?thesis using assms(2) by (simp add: execute_case_def GTEST_EXECUTE_DEATH_TEST_STATEMENT_def)
next
  case (Lives control)
  note ends = abort_then_ends [OF assms(1)]
  show ?thesis
  proof (cases control)
    case Completed
    with ends [of dt TEST_DID_NOT_DIE "destroy_ReturnSentinel api dt Completed" s1] Lives assms(2) show ?thesis
      by (auto simp: execute_case_def GTEST_EXECUTE_DEATH_TEST_STATEMENT_def)
  next
    case Returned
    with ends [of dt TEST_ENCOUNTERED_RETURN_STATEMENT "\<lambda>s. (Lives Returned, s)" s1] Lives assms(2) show ?thesis
      by (auto simp: execute_case_def GTEST_EXECUTE_DEATH_TEST_STATEMENT_def destroy_ReturnSentinel_def)
  next
    case (Threw x)
    let ?s2 = "case dt_what api x of
        Some what \<Rightarrow> print_stderr api (newline @ FormatFileLocation api @
          '': Caught std::exception-derived exception escaping the death test statement. Exception message: '' @
          what @ newline) s1 | None \<Rightarrow> s1"
    have "signals ?s2 = signals s1" using assms(1) by (auto simp: abort_contract_def split: option.splits)
    with ends [of dt TEST_THREW_EXCEPTION "\<lambda>s. (Lives Completed, s)" ?s2] Lives Threw assms(2) show ?thesis
      by (auto simp: execute_case_def GTEST_EXECUTE_DEATH_TEST_STATEMENT_def Let_def)
  qed
qed

section \<open>What the parent reports\<close>

text \<open>
  The documented behaviour of \<open>Wait\<close> and \<open>Passed\<close> for a child that ended with a status in a final state:
  the status is returned, and the test passed when the child exited during the test without a
  signal, the status was accepted and the output matches.
\<close>

definition oversee_contract ::
  "('re, 'x, 's) death_test_api \<Rightarrow> ('s \<Rightarrow> AbortReason list) \<Rightarrow> ('s \<Rightarrow> bool) \<Rightarrow> 'x outcome \<times> 's \<Rightarrow> bool" where
  "oversee_contract api signals output_ok child \<longleftrightarrow> (\<forall>status sc dt ok s. child = (Dies status, sc) \<longrightarrow>
     fst (dt_Wait api dt s) = status \<and>
     fst (dt_Passed api dt ok s) = (signals sc = [] \<and> ok \<and> output_ok sc))"

text \<open>The state in which the parent goes on.\<close>

definition overseen :: "('re, 'x, 's) death_test_api \<Rightarrow> (int \<Rightarrow> bool) \<Rightarrow> ptr \<Rightarrow> 's \<Rightarrow> 's" where
  "overseen api predicate dt s = (case dt_Wait api dt s of (status, s) \<Rightarrow>
     dt_delete api dt (snd (dt_Passed api dt (predicate status) s)))"

definition dies_as_required :: "(int \<Rightarrow> bool) \<Rightarrow> ('s \<Rightarrow> bool) \<Rightarrow> 'x outcome \<times> 's \<Rightarrow> bool" where
  "dies_as_required predicate output_ok r = (case r of
     (Dies status, s) \<Rightarrow> predicate status \<and> output_ok s | (Lives c, s) \<Rightarrow> False)"

lemma parent_verdict:
  assumes "oversee_contract api signals output_ok (Dies status, sc)"
    and "dt_Create api text regex s = (Some dt, s1)" "dt \<noteq> NULL" "dt_AssumeRole api dt s1 = (OVERSEE_TEST, s2)"
  shows "GTEST_DEATH_TEST api statement text predicate regex fail s =
    (if signals sc = [] \<and> predicate status \<and> output_ok sc then (Lives Completed, overseen api predicate dt s2)
     else fail_statement api fail (overseen api predicate dt s2))"
proof -
  obtain st s3 where w: "dt_Wait api dt s2 = (st, s3)" by (cases "dt_Wait api dt s2")
  obtain ok s4 where p: "dt_Passed api dt (predicate st) s3 = (ok, s4)" by (cases "dt_Passed api dt (predicate st) s3")
  have "fst (dt_Wait api dt s2) = status"
    "fst (dt_Passed api dt (predicate st) s3) = (signals sc = [] \<and> predicate st \<and> output_ok sc)"
    using assms(1) by (auto simp: oversee_contract_def)
  then have "st = status" and ok: "(signals sc = [] \<and> predicate status \<and> output_ok sc) = ok" using w p by auto
  with assms(2-4) w p show ?thesis unfolding ok
    by (simp add: GTEST_DEATH_TEST_def overseen_def deleting_def)
qed

lemma child_ends:
  assumes "abort_contract api signals aborted" and "statement sc1 = (c, sc2)" and "signals sc2 = []"
    and "dt_Create api text regex sc = (Some dt, sc0)" "dt \<noteq> NULL" "dt_AssumeRole api dt sc0 = (EXECUTE_TEST, sc1)"
  shows "\<exists>status s'. GTEST_DEATH_TEST api statement text predicate regex fail sc = (Dies status, s') \<and>
    (signals s' = [] \<and> predicate status \<and> output_ok s' \<longleftrightarrow> dies_as_required predicate output_ok (c, sc2))"
proof -
  from execute_case_signals [of api signals aborted statement sc1 c sc2 dt, OF assms(1,2)] obtain s' where
    s': "execute_case api dt statement sc1 = (Dies (case c of Dies st \<Rightarrow> st | _ \<Rightarrow> aborted), s')"
      "signals s' = reason_of c" "\<forall>st. c = Dies st \<longrightarrow> s' = sc2" using assms(3) by auto
  have "GTEST_DEATH_TEST api statement text predicate regex fail sc = (Dies (case c of Dies st \<Rightarrow> st | _ \<Rightarrow> aborted), s')"
    using assms(4-6) s'(1) by (simp add: GTEST_DEATH_TEST_def deleting_def)
  moreover have "reason_of c = [] \<longleftrightarrow> (\<exists>st. c = Dies st)" by (cases c rule: reason_of.cases) simp_all
  then have "signals s' = [] \<and> predicate (case c of Dies st \<Rightarrow> st | _ \<Rightarrow> aborted) \<and> output_ok s'
      \<longleftrightarrow> dies_as_required predicate output_ok (c, sc2)"
    using s'(2,3) by (cases c) (auto simp: dies_as_required_def)
  ultimately show ?thesis by blast
qed

text \<open>
C35: run in a parent that oversees and a child that executes, \<open>EXPECT_EXIT\<close> and \<open>ASSERT_EXIT\<close> report a failure in the parent
exactly when the statement does not end the child itself with an accepted status and matching output: also when it
runs to its end, returns from the test or lets an exception escape, even if the child then exits with an accepted status.
A failing \<open>ASSERT_EXIT\<close> returns, everything else goes on, and the child never goes on with the test.
\<close>

theorem death_test_reports_exactly:
  assumes "abort_contract api signals aborted" and "statement sc1 = (c, sc2)" and "signals sc2 = []"
    and "dt_Create api text regex sc = (Some dtc, sc0)" "dtc \<noteq> NULL" "dt_AssumeRole api dtc sc0 = (EXECUTE_TEST, sc1)"
    and "oversee_contract api signals output_ok (EXPECT_EXIT api rep statement text predicate regex sc)"
    and "dt_Create api text regex s = (Some dt, s1)" "dt \<noteq> NULL" "dt_AssumeRole api dt s1 = (OVERSEE_TEST, s2)"
  shows "let s' = overseen api predicate dt s2; msg = dt_LastMessage api s';
             died = dies_as_required predicate output_ok (c, sc2) in
    EXPECT_EXIT api rep statement text predicate regex s =
      (Lives Completed, if died then s' else rep kNonFatalFailure msg s') \<and>
    ASSERT_EXIT api rep statement text predicate regex s =
      (if died then (Lives Completed, s') else (Lives Returned, rep kFatalFailure msg s')) \<and>
    (\<exists>status. fst (EXPECT_EXIT api rep statement text predicate regex sc) = Dies status)"
proof -
  from child_ends [of api signals aborted statement sc1 c sc2 "text" regex sc dtc sc0 predicate
      "GTEST_NONFATAL_FAILURE rep" output_ok, OF assms(1-6)] obtain status s' where
    child: "EXPECT_EXIT api rep statement text predicate regex sc = (Dies status, s')"
      "signals s' = [] \<and> predicate status \<and> output_ok s' \<longleftrightarrow> dies_as_required predicate output_ok (c, sc2)"
    by (auto simp: EXPECT_EXIT_def)
  note verdict = parent_verdict [OF assms(7) [unfolded child(1)] assms(8-10), of statement predicate]
  show ?thesis
    by (simp add: Let_def EXPECT_EXIT_def [where predicate = predicate] ASSERT_EXIT_def verdict child(2)
        fail_statement_def failure_statements child(1) [unfolded EXPECT_EXIT_def])
qed


text \<open>A statement that returns, with a child that then exits with an accepted status.\<close>

type_synonym demo_world = "bool \<times> AbortReason list \<times> string list"

definition demo_death_tests :: "(unit, unit, demo_world) death_test_api" where
  "demo_death_tests = \<lparr>dt_Create = (\<lambda>text re s. (Some 1, s)),
     dt_AssumeRole = (\<lambda>dt s. (if fst s then EXECUTE_TEST else OVERSEE_TEST, s)),
     dt_Wait = (\<lambda>dt s. (1, s)), dt_Passed = (\<lambda>dt ok s. (False, s)),
     dt_Abort = (\<lambda>dt reason s. (Some 1, (fst s, fst (snd s) @ [reason], snd (snd s)))),
     dt_LastMessage = (\<lambda>s. ''returned''), dt_delete = (\<lambda>dt s. s), dt_what = (\<lambda>x. None),
     print_stderr = (\<lambda>text s. s), FormatFileLocation = [], ExitedUnsuccessfully = (\<lambda>status. status \<noteq> 0)\<rparr>"

theorem death_test_reports_exactly_witness:
  "EXPECT_EXIT demo_death_tests (\<lambda>t m s. (fst s, fst (snd s), snd (snd s) @ [m])) (\<lambda>s. (Lives Returned, s)) ''return''
     (\<lambda>status. status \<noteq> 0) () (False, [], []) = (Lives Completed, (False, [], [''returned'']))"
proof -
  let ?rep = "\<lambda>t m s :: demo_world. (fst s, fst (snd s), snd (snd s) @ [m])"
  let ?st = "\<lambda>s :: demo_world. (Lives Returned :: unit outcome, s)"
  have "abort_contract demo_death_tests (\<lambda>s. fst (snd s)) 1"
    by (simp add: abort_contract_def demo_death_tests_def)
  moreover have "oversee_contract demo_death_tests (\<lambda>s. fst (snd s)) (\<lambda>s. True)
      (EXPECT_EXIT demo_death_tests ?rep ?st ''return'' (\<lambda>status. status \<noteq> 0) () (True, [], []))"
    by (simp add: oversee_contract_def EXPECT_EXIT_def GTEST_DEATH_TEST_def execute_case_def abort_then_def
        GTEST_EXECUTE_DEATH_TEST_STATEMENT_def destroy_ReturnSentinel_def deleting_def demo_death_tests_def)
  ultimately show ?thesis
    using death_test_reports_exactly [of demo_death_tests "\<lambda>s. fst (snd s)" 1 ?st "(True, [], [])" "Lives Returned"
        "(True, [], [])" "''return''" "()" "(True, [], [])" 1 "(True, [], [])" "\<lambda>s. True" ?rep "\<lambda>status. status \<noteq> 0"
        "(False, [], [])" 1 "(False, [], [])" "(False, [], [])"]
    by (simp add: demo_death_tests_def dies_as_required_def overseen_def Let_def)
qed

end
