(* ===== verification/Gtest_Spi.thy ===== *)
theory Gtest_Spi
  imports Gtest_Assertions
begin

text \<open>
  Testing assertions themselves: \<open>TestPartResult\<close> (gtest-test-part.h) and the macros \<open>EXPECT_FATAL_FAILURE\<close>
  and \<open>EXPECT_NONFATAL_FAILURE\<close> with their variants for all threads (gtest-spi.h). The macros are the code of the
  header: the local objects with the order of their destruction, and the ways the statement can leave the block. The
  classes \<open>ScopedFakeTestPartResultReporter\<close> and \<open>SingleFailureChecker\<close> are compiled code, the fields of \<open>spi_api\<close>;
  what their comments promise is \<open>spi_contract\<close>. Main result: applied to a body of assertions, the macros keep
  every failure of the body from the surrounding test, which gets one nonfatal failure exactly when the body does not
  fail once in the expected way.
\<close>

section \<open>Test part results\<close>

record TestPartResult =
  tpr_type :: part_type
  tpr_file_name :: string
  tpr_line_number :: int
  tpr_summary :: string
  tpr_message :: string

definition make_TestPartResult ::
  "(string \<Rightarrow> string) \<Rightarrow> part_type \<Rightarrow> string option \<Rightarrow> int \<Rightarrow> string \<Rightarrow> TestPartResult" where
  "make_TestPartResult ExtractSummary a_type a_file_name a_line_number a_message =
     \<lparr>tpr_type = a_type, tpr_file_name = (case a_file_name of None \<Rightarrow> [] | Some f \<Rightarrow> f), tpr_line_number = a_line_number,
      tpr_summary = ExtractSummary a_message, tpr_message = a_message\<rparr>"

definition file_name :: "TestPartResult \<Rightarrow> string option" where
  "file_name r = (if tpr_file_name r = [] then None else Some (tpr_file_name r))"

definition passed :: "TestPartResult \<Rightarrow> bool" where
  "passed r \<longleftrightarrow> tpr_type r = kSuccess"

definition failed :: "TestPartResult \<Rightarrow> bool" where
  "failed r \<longleftrightarrow> tpr_type r \<noteq> kSuccess"

definition nonfatally_failed :: "TestPartResult \<Rightarrow> bool" where
  "nonfatally_failed r \<longleftrightarrow> tpr_type r = kNonFatalFailure"

definition fatally_failed :: "TestPartResult \<Rightarrow> bool" where
  "fatally_failed r \<longleftrightarrow> tpr_type r = kFatalFailure"

text \<open>A result is in one of three classes, and the file name survives unless it is empty.\<close>

lemma result_classes:
  "passed r \<noteq> failed r"
  "failed r \<longleftrightarrow> nonfatally_failed r \<noteq> fatally_failed r"
  by (cases "tpr_type r"; simp add: passed_def failed_def nonfatally_failed_def fatally_failed_def)+

lemma file_name_make:
  "file_name (make_TestPartResult ex t f l m) = (if f = Some [] then None else f)"
  by (simp add: file_name_def make_TestPartResult_def split: option.splits)

section \<open>The macros\<close>

datatype InterceptMode = INTERCEPT_ONLY_CURRENT_THREAD | INTERCEPT_ALL_THREADS

text \<open>
  The constructors and destructors of the three local objects: the array of results, the checker (whose
  constructor only remembers its arguments) and the reporter.
\<close>

record 's spi_api =
  new_array :: "'s \<Rightarrow> ptr \<times> 's"
  delete_array :: "ptr \<Rightarrow> 's \<Rightarrow> 's"
  install_reporter :: "InterceptMode \<Rightarrow> ptr \<Rightarrow> 's \<Rightarrow> 's"
  remove_reporter :: "'s \<Rightarrow> 's"
  check_single_failure :: "ptr \<Rightarrow> part_type \<Rightarrow> string \<Rightarrow> 's \<Rightarrow> 's"

text \<open>The inner block: the reporter is destroyed however the statement leaves it.\<close>

definition reporter_block :: "'s spi_api \<Rightarrow> InterceptMode \<Rightarrow> ptr \<Rightarrow> ('s, 'x) stmt \<Rightarrow> ('s, 'x) stmt" where
  "reporter_block api mode gtest_failures body s =
     (case body (install_reporter api mode gtest_failures s) of (c, s) \<Rightarrow> (c, remove_reporter api s))"

text \<open>The outer block: the checker is destroyed next, then the array.\<close>

definition checker_block ::
  "'s spi_api \<Rightarrow> part_type \<Rightarrow> string \<Rightarrow> (ptr \<Rightarrow> ('s, 'x) stmt) \<Rightarrow> ('s, 'x) stmt" where
  "checker_block api failure_type substr body s = (case new_array api s of (gtest_failures, s) \<Rightarrow>
     case body gtest_failures s of (c, s) \<Rightarrow>
       (c, delete_array api gtest_failures (check_single_failure api gtest_failures failure_type substr s)))"

text \<open>The statement is the body of a function of its own, so that \<open>return\<close> only leaves that function.\<close>

definition Execute :: "('s, 'x) stmt \<Rightarrow> ('s, 'x) stmt" where
  "Execute statement s = (case statement s of (Returned, s) \<Rightarrow> (Completed, s) | (c, s) \<Rightarrow> (c, s))"

definition EXPECT_FATAL_FAILURE :: "'s spi_api \<Rightarrow> ('s, 'x) stmt \<Rightarrow> string \<Rightarrow> ('s, 'x) stmt" where
  "EXPECT_FATAL_FAILURE api statement substr = checker_block api kFatalFailure substr (\<lambda>gtest_failures.
     reporter_block api INTERCEPT_ONLY_CURRENT_THREAD gtest_failures (Execute statement))"

definition EXPECT_FATAL_FAILURE_ON_ALL_THREADS :: "'s spi_api \<Rightarrow> ('s, 'x) stmt \<Rightarrow> string \<Rightarrow> ('s, 'x) stmt" where
  "EXPECT_FATAL_FAILURE_ON_ALL_THREADS api statement substr = checker_block api kFatalFailure substr (\<lambda>gtest_failures.
     reporter_block api INTERCEPT_ALL_THREADS gtest_failures (Execute statement))"

definition EXPECT_NONFATAL_FAILURE :: "'s spi_api \<Rightarrow> ('s, 'x) stmt \<Rightarrow> string \<Rightarrow> ('s, 'x) stmt" where
  "EXPECT_NONFATAL_FAILURE api statement substr = checker_block api kNonFatalFailure substr (\<lambda>gtest_failures.
     reporter_block api INTERCEPT_ONLY_CURRENT_THREAD gtest_failures statement)"

definition EXPECT_NONFATAL_FAILURE_ON_ALL_THREADS :: "'s spi_api \<Rightarrow> ('s, 'x) stmt \<Rightarrow> string \<Rightarrow> ('s, 'x) stmt" where
  "EXPECT_NONFATAL_FAILURE_ON_ALL_THREADS api statement substr = checker_block api kNonFatalFailure substr (\<lambda>gtest_failures.
     reporter_block api INTERCEPT_ALL_THREADS gtest_failures statement)"

section \<open>What the compiled classes promise\<close>

text \<open>
  Two observations of a state: the arrays the installed reporters fill, innermost first (at the bottom the results
  of the test), and what each array holds. A reported failure is appended to the first one. The
  checker promises to report a nonfatal failure unless the array holds exactly one failure, of the given
  type and with the given text; \<open>verdict\<close> gives its message.
\<close>

type_synonym 's observed = "('s \<Rightarrow> ptr list) \<times> ('s \<Rightarrow> ptr \<Rightarrow> TestPartResult list)"

abbreviation reporters :: "'s observed \<Rightarrow> 's \<Rightarrow> ptr list" where "reporters \<equiv> fst"
abbreviation received :: "'s observed \<Rightarrow> 's \<Rightarrow> ptr \<Rightarrow> TestPartResult list" where "received \<equiv> snd"

definition single_failure :: "part_type \<Rightarrow> string \<Rightarrow> TestPartResult list \<Rightarrow> bool" where
  "single_failure t substr rs \<longleftrightarrow> (\<exists>r. rs = [r] \<and> tpr_type r = t \<and> sublist substr (tpr_message r))"

definition report_contract :: "'s observed \<Rightarrow> (part_type \<Rightarrow> string \<Rightarrow> TestPartResult) \<Rightarrow> 's reporter \<Rightarrow> bool" where
  "report_contract obs result rep \<longleftrightarrow>
     (\<forall>t m. tpr_type (result t m) = t \<and> tpr_message (result t m) = m) \<and>
     (\<forall>t m s a as. reporters obs s = a # as \<longrightarrow> reporters obs (rep t m s) = a # as \<and>
        received obs (rep t m s) = (received obs s)(a := received obs s a @ [result t m]))"

definition spi_contract :: "'s spi_api \<Rightarrow> 's observed \<Rightarrow> 's reporter \<Rightarrow>
    (part_type \<Rightarrow> string \<Rightarrow> TestPartResult list \<Rightarrow> string) \<Rightarrow> bool" where
  "spi_contract api obs rep verdict \<longleftrightarrow>
     (\<forall>s a s'. new_array api s = (a, s') \<longrightarrow> a \<notin> set (reporters obs s) \<and>
        reporters obs s' = reporters obs s \<and> received obs s' = (received obs s)(a := [])) \<and>
     (\<forall>mode a s. reporters obs (install_reporter api mode a s) = a # reporters obs s \<and>
        received obs (install_reporter api mode a s) = received obs s) \<and>
     (\<forall>s a as. reporters obs s = a # as \<longrightarrow>
        reporters obs (remove_reporter api s) = as \<and> received obs (remove_reporter api s) = received obs s) \<and>
     (\<forall>a t substr s. list_all failed (received obs s a) \<longrightarrow>
        check_single_failure api a t substr s =
          (if single_failure t substr (received obs s a) then s
           else rep kNonFatalFailure (verdict t substr (received obs s a)) s)) \<and>
     (\<forall>a s. reporters obs (delete_array api a s) = reporters obs s \<and>
        (\<forall>b. b \<noteq> a \<longrightarrow> received obs (delete_array api a s) b = received obs s b))"

section \<open>What the macros let through\<close>

text \<open>A statement that only reports to the innermost reporter, and there the given failures.\<close>

definition only_reports :: "'s observed \<Rightarrow> ('s, 'x) stmt \<Rightarrow> 'x control \<Rightarrow> TestPartResult list \<Rightarrow> bool" where
  "only_reports obs st c rs \<longleftrightarrow> (\<forall>s a as. reporters obs s = a # as \<longrightarrow>
     (\<exists>s'. st s = (c, s') \<and> reporters obs s' = a # as \<and> received obs s' a = received obs s a @ rs \<and>
        (\<forall>b \<in> set as. b \<noteq> a \<longrightarrow> received obs s' b = received obs s b)))"

lemma checker_block_reports:
  assumes "spi_contract api obs rep verdict" and "report_contract obs result rep"
    and "only_reports obs st c rs" and "list_all failed rs"
  shows "only_reports obs (checker_block api t substr (\<lambda>a. reporter_block api mode a st)) c
    (if single_failure t substr rs then [] else [result kNonFatalFailure (verdict t substr rs)])"
  unfolding only_reports_def
proof (intro allI impI)
  fix s a as
  assume s: "reporters obs s = a # as"
  obtain f s1 where n: "new_array api s = (f, s1)" by (cases "new_array api s")
  let ?s2 = "install_reporter api mode f s1"
  from assms(1) n s have fresh: "f \<noteq> a" "f \<notin> set as" and s1: "reporters obs s1 = a # as"
      "received obs s1 = (received obs s)(f := [])"
    unfolding spi_contract_def by (metis list.set_intros(1), metis list.set_intros(2), metis, metis)
  have s2: "reporters obs ?s2 = f # a # as" "received obs ?s2 = received obs s1"
    using assms(1) s1 by (simp_all add: spi_contract_def)
  then obtain s3 where run: "st ?s2 = (c, s3)" and s3: "reporters obs s3 = f # a # as" "received obs s3 f = rs"
      "received obs s3 a = received obs s a" "\<forall>b \<in> set as. received obs s3 b = received obs s b"
    using assms(3) fresh s1(2) by (fastforce simp: only_reports_def)
  let ?s4 = "remove_reporter api s3"
  have s4: "reporters obs ?s4 = a # as" "received obs ?s4 = received obs s3"
    using assms(1) s3(1) by (simp_all add: spi_contract_def)
  let ?s5 = "check_single_failure api f t substr ?s4"
  have s5: "?s5 = (if single_failure t substr rs then ?s4 else rep kNonFatalFailure (verdict t substr rs) ?s4)"
    using assms(1,4) s3(2) s4(2) by (simp add: spi_contract_def)
  have r5: "reporters obs ?s5 = a # as" "received obs ?s5 a = received obs s a @
      (if single_failure t substr rs then [] else [result kNonFatalFailure (verdict t substr rs)])"
      "\<forall>b \<in> set as. b \<noteq> a \<longrightarrow> received obs ?s5 b = received obs s b"
    using assms(2) s3 s4 unfolding s5 by (simp_all add: report_contract_def)
  let ?s6 = "delete_array api f ?s5"
  have "reporters obs ?s6 = reporters obs ?s5" "\<And>b. b \<noteq> f \<Longrightarrow> received obs ?s6 b = received obs ?s5 b"
    using assms(1) by (simp_all add: spi_contract_def)
  with r5 fresh have "reporters obs ?s6 = a # as" "received obs ?s6 a = received obs s a @
      (if single_failure t substr rs then [] else [result kNonFatalFailure (verdict t substr rs)])"
      "\<forall>b \<in> set as. b \<noteq> a \<longrightarrow> received obs ?s6 b = received obs s b" by (simp, metis, metis)
  then show "\<exists>s'. checker_block api t substr (\<lambda>a. reporter_block api mode a st) s = (c, s') \<and>
      reporters obs s' = a # as \<and> received obs s' a = received obs s a @
      (if single_failure t substr rs then [] else [result kNonFatalFailure (verdict t substr rs)]) \<and>
      (\<forall>b \<in> set as. b \<noteq> a \<longrightarrow> received obs s' b = received obs s b)"
    using run by (simp add: checker_block_def reporter_block_def n)
qed

lemma Execute_reports:
  "only_reports obs st c rs \<Longrightarrow> only_reports obs (Execute st) (if c = Returned then Completed else c) rs"
  unfolding only_reports_def Execute_def by (cases c) fastforce+

text \<open>A body of assertions only reports its failing ones.\<close>

lemma report_checks:
  assumes "report_contract obs result rep" and "reporters obs s = a # as"
  shows "reporters obs (fold (report_check rep) cs s) = a # as \<and>
    received obs (fold (report_check rep) cs s) = (received obs s)(a := received obs s a @
      map (\<lambda>c. result (if fst c then kFatalFailure else kNonFatalFailure) (message (snd c))) cs)"
  using assms(2)
proof (induction cs arbitrary: s)
  case (Cons c cs)
  have "reporters obs (report_check rep c s) = a # as"
    "received obs (report_check rep c s) = (received obs s)(a := received obs s a @
       [result (if fst c then kFatalFailure else kNonFatalFailure) (message (snd c))])"
    using assms(1) Cons.prems unfolding report_contract_def report_check_def by metis+
  with Cons.IH [of "report_check rep c s"] show ?case by (auto simp: fun_eq_iff)
qed simp

definition check_results :: "(part_type \<Rightarrow> string \<Rightarrow> TestPartResult) \<Rightarrow> check list \<Rightarrow> TestPartResult list" where
  "check_results result cs =
     map (\<lambda>c. result (if fst c then kFatalFailure else kNonFatalFailure) (message (snd c))) (filter failing (executed cs))"

lemma body_reports:
  assumes "report_contract obs result rep"
  shows "only_reports obs (TestBody (map (check_stmt rep) cs)) (if list_ex stops cs then Returned else Completed)
    (check_results result cs)"
  using report_checks [OF assms] unfolding only_reports_def TestBody_checks check_results_def by simp

lemma check_results_failed:
  assumes "report_contract obs result rep"
  shows "list_all failed (check_results result cs)"
  using assms by (auto simp: check_results_def list_all_iff failed_def report_contract_def)

text \<open>The one failure a body has to report.\<close>

definition fails_once :: "bool \<Rightarrow> string \<Rightarrow> check list \<Rightarrow> bool" where
  "fails_once fatal substr cs \<longleftrightarrow> (\<exists>c. filter failing (executed cs) = [c] \<and> fst c = fatal \<and> sublist substr (message (snd c)))"

lemma single_failure_of_body:
  assumes "report_contract obs result rep"
  shows "single_failure kFatalFailure substr (check_results result cs) \<longleftrightarrow> fails_once True substr cs"
    and "single_failure kNonFatalFailure substr (check_results result cs) \<longleftrightarrow> fails_once False substr cs"
proof -
  have one: "single_failure t substr (map g fs) \<longleftrightarrow>
      (\<exists>c. fs = [c] \<and> tpr_type (g c) = t \<and> sublist substr (tpr_message (g c)))" for t g and fs :: "check list"
    by (auto simp: single_failure_def map_eq_Cons_conv)
  have "tpr_type (result t m) = t" "tpr_message (result t m) = m" for t m
    using assms by (simp_all add: report_contract_def)
  then show "single_failure kFatalFailure substr (check_results result cs) \<longleftrightarrow> fails_once True substr cs"
    "single_failure kNonFatalFailure substr (check_results result cs) \<longleftrightarrow> fails_once False substr cs"
    unfolding check_results_def one fails_once_def by (intro iff_exI; auto)+
qed

text \<open>The macros report at most their verdict themselves, so they can be nested.\<close>

lemma expectations_report:
  assumes "spi_contract api obs rep verdict" and "report_contract obs result rep"
    and "only_reports obs st c rs" and "list_all failed rs"
  shows "only_reports obs (EXPECT_FATAL_FAILURE api st substr) (if c = Returned then Completed else c)
      (if single_failure kFatalFailure substr rs then [] else [result kNonFatalFailure (verdict kFatalFailure substr rs)])"
    and "only_reports obs (EXPECT_FATAL_FAILURE_ON_ALL_THREADS api st substr) (if c = Returned then Completed else c)
      (if single_failure kFatalFailure substr rs then [] else [result kNonFatalFailure (verdict kFatalFailure substr rs)])"
    and "only_reports obs (EXPECT_NONFATAL_FAILURE api st substr) c
      (if single_failure kNonFatalFailure substr rs then [] else [result kNonFatalFailure (verdict kNonFatalFailure substr rs)])"
    and "only_reports obs (EXPECT_NONFATAL_FAILURE_ON_ALL_THREADS api st substr) c
      (if single_failure kNonFatalFailure substr rs then [] else [result kNonFatalFailure (verdict kNonFatalFailure substr rs)])"
  unfolding EXPECT_FATAL_FAILURE_def EXPECT_FATAL_FAILURE_ON_ALL_THREADS_def EXPECT_NONFATAL_FAILURE_def
    EXPECT_NONFATAL_FAILURE_ON_ALL_THREADS_def
  by (rule checker_block_reports [OF assms(1,2) _ assms(4)], (rule Execute_reports)?, rule assms(3))+

text \<open>
C36: \<open>EXPECT_FATAL_FAILURE\<close> and \<open>EXPECT_NONFATAL_FAILURE\<close> around a body of assertions keep the failures of the body from
the surrounding test. The test gets one nonfatal failure, exactly when the body does not fail exactly once with the expected
severity and text; otherwise it gets nothing. A \<open>return\<close> by a failing \<open>ASSERT\<close> does not leave
\<open>EXPECT_FATAL_FAILURE\<close>, but it leaves the function around \<open>EXPECT_NONFATAL_FAILURE\<close>, after the check. In every case
the reporter of the surrounding test is installed again.
\<close>

theorem failure_expectations_exact:
  assumes "spi_contract api obs rep verdict" and "report_contract obs result rep" and "reporters obs s = a # as"
  shows "let body = TestBody (map (check_stmt rep) cs);
      seen = (\<lambda>t once s'. reporters obs s' = a # as \<and>
        received obs s' a = received obs s a @ (if once then []
          else [result kNonFatalFailure (verdict t substr (check_results result cs))]) \<and>
        (\<forall>b \<in> set as. b \<noteq> a \<longrightarrow> received obs s' b = received obs s b)) in
    (\<exists>s'. EXPECT_FATAL_FAILURE api body substr s = (Completed, s') \<and> seen kFatalFailure (fails_once True substr cs) s') \<and>
    (\<exists>s'. EXPECT_NONFATAL_FAILURE api body substr s = (if list_ex stops cs then Returned else Completed, s') \<and>
       seen kNonFatalFailure (fails_once False substr cs) s')"
proof -
  note reports = expectations_report [OF assms(1,2) body_reports [OF assms(2)] check_results_failed [OF assms(2)],
      of cs substr]
  have "(if (if list_ex stops cs then Returned else Completed) = Returned then Completed
      else if list_ex stops cs then Returned else Completed) = Completed" by simp
  note fatal = reports(1) [unfolded this only_reports_def, rule_format, OF assms(3)]
  note nonfatal = reports(3) [unfolded only_reports_def, rule_format, OF assms(3)]
  from fatal nonfatal show ?thesis unfolding Let_def single_failure_of_body [OF assms(2)] by (intro conjI)
qed

text \<open>A stack of arrays, and a body with one failing \<open>EXPECT\<close> where a fatal failure is expected.\<close>

type_synonym demo_results = "ptr list \<times> (ptr \<Rightarrow> TestPartResult list)"

definition demo_result :: "part_type \<Rightarrow> string \<Rightarrow> TestPartResult" where
  "demo_result t m = make_TestPartResult id t None (-1) m"

definition demo_report :: "demo_results reporter" where
  "demo_report t m s = (case s of (as, h) \<Rightarrow> (as, h(hd as := h (hd as) @ [demo_result t m])))"

definition demo_spi :: "demo_results spi_api" where
  "demo_spi = \<lparr>new_array = (\<lambda>(as, h). let a = Suc (sum_list as) in (a, (as, h(a := [])))),
     delete_array = (\<lambda>a s. s), install_reporter = (\<lambda>mode a (as, h). (a # as, h)),
     remove_reporter = (\<lambda>(as, h). (tl as, h)),
     check_single_failure = (\<lambda>a t substr s. if single_failure t substr (snd s a) then s
       else demo_report kNonFatalFailure ''unexpected'' s)\<rparr>"

lemma demo_contracts:
  "report_contract (fst, snd) demo_result demo_report"
  "spi_contract demo_spi (fst, snd) demo_report (\<lambda>t substr rs. ''unexpected'')"
proof -
  show "report_contract (fst, snd) demo_result demo_report"
    by (auto simp: report_contract_def demo_report_def demo_result_def make_TestPartResult_def)
  have "Suc (sum_list as) \<notin> set as" for as :: "nat list" using member_le_sum_list [of "Suc (sum_list as)" as] by auto
  then show "spi_contract demo_spi (fst, snd) demo_report (\<lambda>t substr rs. ''unexpected'')"
    by (auto simp: spi_contract_def demo_spi_def Let_def split: prod.splits)
qed

theorem failure_expectations_exact_witness:
  "\<exists>s'. EXPECT_FATAL_FAILURE demo_spi (TestBody (map (check_stmt demo_report)
      [(False, \<lparr>ar_success = False, ar_message = Some ''bad''\<rparr>)])) ''bad'' ([0], \<lambda>a. []) = (Completed, s') \<and>
    snd s' 0 = [demo_result kNonFatalFailure ''unexpected'']"
proof -
  let ?cs = "[(False, \<lparr>ar_success = False, ar_message = Some ''bad''\<rparr>)] :: check list"
  have "\<not> fails_once True ''bad'' ?cs" by (auto simp: fails_once_def executed_def failing_def stops_def)
  then show ?thesis
    using failure_expectations_exact [OF demo_contracts(2,1), of "([0], \<lambda>a. [])" 0 "[]" ?cs "''bad''"]
    by (auto simp: Let_def)
qed

end
