(* ===== verification/Gmock_Matchers.thy ===== *)
theory Gmock_Matchers
  imports Prelude Gtest_Floating_Point
begin

text \<open>
  The matchers of the bundled googlemock (\<open>gmock/gmock-matchers.h\<close>): listeners, the matcher interface,
  comparison, pointer, string, logical, floating point and composite matchers. A matcher is a record
  of its three virtual functions. A listener is the text streamed so far, or \<open>None\<close> when it has no
  stream (nobody wants an explanation); descriptions are the text they print. How values of the
  matched types are printed is an argument (\<open>UniversalPrint\<close>, \<open>GetTypeName\<close>).

  The interface is a locale: the verdict must not depend on the listener, and an explanation is
  only ever appended. Every matcher of the header keeps it; the matchers take short cuts for
  listeners without a stream, so this is not evident.
\<close>

section \<open>Listeners\<close>

type_synonym listener = "string option"

abbreviation DummyMatchResultListener :: listener where "DummyMatchResultListener \<equiv> None"
abbreviation StringMatchResultListener :: listener where "StringMatchResultListener \<equiv> Some []"

definition put :: "string \<Rightarrow> listener \<Rightarrow> listener" where
  "put x l = (case l of None \<Rightarrow> None | Some t \<Rightarrow> Some (t @ x))"

definition IsInterested :: "listener \<Rightarrow> bool" where
  "IsInterested l \<longleftrightarrow> l \<noteq> None"

definition listener_str :: "listener \<Rightarrow> string" where
  "listener_str l = (case l of None \<Rightarrow> [] | Some t \<Rightarrow> t)"

lemma put_simps [simp]: "put x None = None" "put x (Some t) = Some (t @ x)"
  by (simp_all add: put_def)

lemma put_put [simp]: "put y (put x l) = put (x @ y) l"
  by (cases l) simp_all

lemma put_Nil [simp]: "put [] l = l"
  by (cases l) simp_all

section \<open>The matcher interface\<close>

record 'a matcher =
  MatchAndExplain :: "'a \<Rightarrow> listener \<Rightarrow> bool \<times> listener"
  DescribeTo :: string
  DescribeNegationTo :: string

text \<open>The default of \<open>MatcherDescriberInterface\<close>.\<close>

definition default_DescribeNegationTo :: "string \<Rightarrow> string" where
  "default_DescribeNegationTo d = ''not ('' @ d @ '')''"

definition Matches :: "'a matcher \<Rightarrow> 'a \<Rightarrow> bool" where
  "Matches m x = fst (MatchAndExplain m x DummyMatchResultListener)"

text \<open>Matching with a fresh \<open>StringMatchResultListener\<close>: the verdict and the explanation.\<close>

definition Explained :: "'a matcher \<Rightarrow> 'a \<Rightarrow> bool \<times> string" where
  "Explained m x = (let (b, l) = MatchAndExplain m x StringMatchResultListener in (b, listener_str l))"

definition ExplainMatchResultTo :: "'a matcher \<Rightarrow> 'a \<Rightarrow> string \<Rightarrow> string" where
  "ExplainMatchResultTo m x os = listener_str (snd (MatchAndExplain m x (Some os)))"

text \<open>
  What an implementation of \<open>MatcherInterface\<close> owes its callers.
\<close>

locale matcher_interface =
  fixes mae :: "'a \<Rightarrow> listener \<Rightarrow> bool \<times> listener"
  assumes quiet: "snd (mae x None) = None"
    and verdict: "fst (mae x (Some s)) = fst (mae x None)"
    and appends: "snd (mae x (Some s)) = put (listener_str (snd (mae x (Some [])))) (Some s)"
begin

lemma mae_eq: "mae x l = (fst (mae x None), put (listener_str (snd (mae x (Some [])))) l)"
proof (cases l)
  case None
  then show ?thesis using quiet [of x] by (cases "mae x None") simp
next
  case (Some s)
  show ?thesis unfolding prod_eq_iff fst_conv snd_conv Some using verdict appends by blast
qed

end

abbreviation good :: "'a matcher \<Rightarrow> bool" where
  "good m \<equiv> matcher_interface (MatchAndExplain m)"

definition expl :: "'a matcher \<Rightarrow> 'a \<Rightarrow> string" where
  "expl m x = snd (Explained m x)"

named_theorems good_intros \<open>which matchers keep the interface\<close>
named_theorems matches_simps \<open>what a matcher matches\<close>

lemma good_MAE: "good m \<Longrightarrow> MatchAndExplain m x l = (Matches m x, put (expl m x) l)"
  using matcher_interface.mae_eq [of "MatchAndExplain m" x l]
  by (simp add: Matches_def expl_def Explained_def case_prod_beta)

lemma good_Explained: "good m \<Longrightarrow> Explained m x = (Matches m x, expl m x)"
  by (simp add: Explained_def good_MAE listener_str_def)

lemma goodI:
  assumes "\<And>x l. MatchAndExplain m x l = (p x, put (e x) l)"
  shows "good m" and "Matches m x = p x" and "expl m x = e x"
proof -
  show "good m" by unfold_locales (simp_all add: assms listener_str_def)
  show "Matches m x = p x" by (simp add: Matches_def assms)
  show "expl m x = e x" by (simp add: expl_def Explained_def assms listener_str_def)
qed

lemma good_ExplainMatchResultTo: "good m \<Longrightarrow> ExplainMatchResultTo m x os = os @ expl m x"
  by (simp add: ExplainMatchResultTo_def good_MAE listener_str_def)

subsection \<open>Casts between matcher types\<close>

text \<open>Casting a \<open>Matcher<U>\<close> to a \<open>Matcher<T>\<close> converts the argument and delegates.\<close>

definition MatcherCast :: "('t \<Rightarrow> 'u) \<Rightarrow> 'u matcher \<Rightarrow> 't matcher" where
  "MatcherCast conv m =
     \<lparr>MatchAndExplain = (\<lambda>x l. MatchAndExplain m (conv x) l),
      DescribeTo = DescribeTo m, DescribeNegationTo = DescribeNegationTo m\<rparr>"

lemma MatcherCast_good [good_intros]: "good m \<Longrightarrow> good (MatcherCast f m)"
  by (rule goodI(1) [where p = "\<lambda>x. Matches m (f x)" and e = "\<lambda>x. expl m (f x)"])
    (simp add: MatcherCast_def good_MAE)

lemma MatcherCast_matches [matches_simps]: "Matches (MatcherCast f m) x = Matches m (f x)"
  by (simp add: MatcherCast_def Matches_def)

text \<open>A polymorphic matcher's implementation becomes a matcher of the type it is used at.\<close>

definition MonomorphicImpl ::
  "('a \<Rightarrow> listener \<Rightarrow> bool \<times> listener) \<Rightarrow> string \<Rightarrow> string \<Rightarrow> 'a matcher" where
  "MonomorphicImpl impl d nd = \<lparr>MatchAndExplain = impl, DescribeTo = d, DescribeNegationTo = nd\<rparr>"

section \<open>Explaining\<close>

definition PrintIfNotEmpty :: "string \<Rightarrow> listener \<Rightarrow> listener" where
  "PrintIfNotEmpty explanation os = (if explanation \<noteq> [] \<and> os \<noteq> None then put ('', '' @ explanation) os else os)"

definition comma_expl :: "string \<Rightarrow> string" where
  "comma_expl e = (if e \<noteq> [] then '', '' @ e else [])"

lemma PrintIfNotEmpty_put: "PrintIfNotEmpty e l = put (comma_expl e) l"
  by (cases l) (simp_all add: PrintIfNotEmpty_def comma_expl_def)

definition IsReadableTypeName :: "string \<Rightarrow> bool" where
  "IsReadableTypeName type_name \<longleftrightarrow>
     length type_name \<le> 20 \<or> (CHR ''<'' \<notin> set type_name \<and> CHR ''('' \<notin> set type_name)"

record 'a printer =
  UniversalPrint :: "'a \<Rightarrow> string"
  GetTypeName :: string

definition MatchPrintAndExplain :: "'a printer \<Rightarrow> 'a \<Rightarrow> 'a matcher \<Rightarrow> listener \<Rightarrow> bool \<times> listener" where
  "MatchPrintAndExplain pr x m l =
     (if \<not> IsInterested l then (Matches m x, l)
      else let (match, inner) = Explained m x;
               l1 = put (UniversalPrint pr x) l;
               l2 = (if IsReadableTypeName (GetTypeName pr)
                     then put ('' (of type '' @ GetTypeName pr @ '')'') l1 else l1)
           in (match, PrintIfNotEmpty inner l2))"

definition print_expl :: "'a printer \<Rightarrow> 'a matcher \<Rightarrow> 'a \<Rightarrow> string" where
  "print_expl pr m x = UniversalPrint pr x
     @ (if IsReadableTypeName (GetTypeName pr) then '' (of type '' @ GetTypeName pr @ '')'' else [])
     @ comma_expl (expl m x)"

lemma MatchPrintAndExplain_eq:
  "good m \<Longrightarrow> MatchPrintAndExplain pr x m l = (Matches m x, put (print_expl pr m x) l)"
  by (cases l) (simp_all add: MatchPrintAndExplain_def IsInterested_def good_Explained
      PrintIfNotEmpty_put print_expl_def)

section \<open>Tuples of arguments\<close>

text \<open>
  The arguments of a mock function and their matchers, as lists of one value type; the compiler
  makes sure they have the same length.
\<close>

fun TuplePrefix_Matches :: "nat \<Rightarrow> 'a matcher list \<Rightarrow> 'a list \<Rightarrow> bool" where
  "TuplePrefix_Matches 0 ms vs = True"
| "TuplePrefix_Matches (Suc n) ms vs = (TuplePrefix_Matches n ms vs \<and> Matches (ms ! n) (vs ! n))"

fun TuplePrefix_ExplainMatchFailuresTo ::
  "'a printer \<Rightarrow> nat \<Rightarrow> 'a matcher list \<Rightarrow> 'a list \<Rightarrow> string \<Rightarrow> string" where
  "TuplePrefix_ExplainMatchFailuresTo pr 0 ms vs os = os"
| "TuplePrefix_ExplainMatchFailuresTo pr (Suc n) ms vs os =
     (let os1 = TuplePrefix_ExplainMatchFailuresTo pr n ms vs os;
          (match, inner) = Explained (ms ! n) (vs ! n)
      in if \<not> match
         then os1 @ ''  Expected arg #'' @ show_nat n @ '': '' @ DescribeTo (ms ! n) @ [CHR 0x0A]
              @ ''           Actual: '' @ UniversalPrint pr (vs ! n) @ comma_expl inner @ [CHR 0x0A]
         else os1)"

definition TupleMatches :: "'a matcher list \<Rightarrow> 'a list \<Rightarrow> bool" where
  "TupleMatches ms vs = TuplePrefix_Matches (length vs) ms vs"

definition ExplainMatchFailureTupleTo :: "'a printer \<Rightarrow> 'a matcher list \<Rightarrow> 'a list \<Rightarrow> string \<Rightarrow> string" where
  "ExplainMatchFailureTupleTo pr ms vs os = TuplePrefix_ExplainMatchFailuresTo pr (length ms) ms vs os"

definition TransformTupleValues :: "('a \<Rightarrow> 'b) \<Rightarrow> 'a list \<Rightarrow> 'b list \<Rightarrow> 'b list" where
  "TransformTupleValues f t out = fold (\<lambda>x out. out @ [f x]) t out"

lemma TuplePrefix_Matches_iff: "TuplePrefix_Matches n ms vs \<longleftrightarrow> (\<forall>i < n. Matches (ms ! i) (vs ! i))"
  by (induction n) (auto simp: less_Suc_eq)

lemma TupleMatches_iff: "length ms = length vs \<Longrightarrow> TupleMatches ms vs \<longleftrightarrow> list_all2 Matches ms vs"
  by (auto simp: TupleMatches_def TuplePrefix_Matches_iff list_all2_conv_all_nth)

lemma TransformTupleValues_eq: "TransformTupleValues f t out = out @ map f t"
  unfolding TransformTupleValues_def by (induction t arbitrary: out) simp_all

section \<open>Basic matchers\<close>

definition AnyMatcher :: "'a matcher" where
  "AnyMatcher = \<lparr>MatchAndExplain = (\<lambda>x l. (True, l)), DescribeTo = ''is anything'',
     DescribeNegationTo = ''never matches''\<rparr>"

definition AnythingMatcher :: "'a matcher" where
  "AnythingMatcher = AnyMatcher"

definition ComparisonBase :: "string \<Rightarrow> string \<Rightarrow> ('a \<Rightarrow> 'b \<Rightarrow> bool) \<Rightarrow> ('b \<Rightarrow> string) \<Rightarrow> 'b \<Rightarrow> 'a matcher" where
  "ComparisonBase d nd op pr rhs =
     \<lparr>MatchAndExplain = (\<lambda>lhs l. (op lhs rhs, l)),
      DescribeTo = d @ '' '' @ pr rhs, DescribeNegationTo = nd @ '' '' @ pr rhs\<rparr>"

definition EqMatcher :: "('a \<Rightarrow> string) \<Rightarrow> 'a \<Rightarrow> 'a matcher" where
  "EqMatcher pr rhs = ComparisonBase ''is equal to'' ''isn't equal to'' (=) pr rhs"

definition NeMatcher :: "('a \<Rightarrow> string) \<Rightarrow> 'a \<Rightarrow> 'a matcher" where
  "NeMatcher pr rhs = ComparisonBase ''isn't equal to'' ''is equal to'' (\<noteq>) pr rhs"

definition LtMatcher :: "('a::linorder \<Rightarrow> string) \<Rightarrow> 'a \<Rightarrow> 'a matcher" where
  "LtMatcher pr rhs = ComparisonBase ''is <'' ''isn't <'' (<) pr rhs"

definition GtMatcher :: "('a::linorder \<Rightarrow> string) \<Rightarrow> 'a \<Rightarrow> 'a matcher" where
  "GtMatcher pr rhs = ComparisonBase ''is >'' ''isn't >'' (>) pr rhs"

definition LeMatcher :: "('a::linorder \<Rightarrow> string) \<Rightarrow> 'a \<Rightarrow> 'a matcher" where
  "LeMatcher pr rhs = ComparisonBase ''is <='' ''isn't <='' (\<le>) pr rhs"

definition GeMatcher :: "('a::linorder \<Rightarrow> string) \<Rightarrow> 'a \<Rightarrow> 'a matcher" where
  "GeMatcher pr rhs = ComparisonBase ''is >='' ''isn't >='' (\<ge>) pr rhs"

definition IsNullMatcher :: "ptr matcher" where
  "IsNullMatcher = MonomorphicImpl (\<lambda>p l. (p = NULL, l)) ''is NULL'' ''isn't NULL''"

definition NotNullMatcher :: "ptr matcher" where
  "NotNullMatcher = MonomorphicImpl (\<lambda>p l. (p \<noteq> NULL, l)) ''isn't NULL'' ''is NULL''"

text \<open>A reference is the address of the variable; addresses are printed by \<open>pa\<close>, variables by \<open>pr\<close>.\<close>

definition RefMatcher :: "(ptr \<Rightarrow> string) \<Rightarrow> (ptr \<Rightarrow> string) \<Rightarrow> ptr \<Rightarrow> ptr matcher" where
  "RefMatcher pa pr object =
     \<lparr>MatchAndExplain = (\<lambda>x l. (x = object, put (''which is located @'' @ pa x) l)),
      DescribeTo = ''references the variable '' @ pr object,
      DescribeNegationTo = ''does not reference the variable '' @ pr object\<rparr>"

lemma AnyMatcher_good [good_intros]: "good AnyMatcher"
  and AnyMatcher_matches [matches_simps]: "Matches AnyMatcher x"
  using goodI [where m = AnyMatcher and p = "\<lambda>_. True" and e = "\<lambda>_. []"]
  by (simp_all add: AnyMatcher_def)

lemma ComparisonBase_good [good_intros]: "good (ComparisonBase d nd op pr rhs)"
  and ComparisonBase_matches: "Matches (ComparisonBase d nd op pr rhs) x \<longleftrightarrow> op x rhs"
  using goodI [where m = "ComparisonBase d nd op pr rhs" and p = "\<lambda>x. op x rhs" and e = "\<lambda>_. []"]
  by (simp_all add: ComparisonBase_def)

lemmas comparison_defs = EqMatcher_def NeMatcher_def LtMatcher_def GtMatcher_def LeMatcher_def GeMatcher_def

lemma comparison_good [good_intros]:
  "good (EqMatcher pr r)" "good (NeMatcher pr r)" "good (LtMatcher pr' s)" "good (GtMatcher pr' s)"
  "good (LeMatcher pr' s)" "good (GeMatcher pr' s)"
  by (simp_all add: comparison_defs ComparisonBase_good)

lemma comparison_matches [matches_simps]:
  "Matches (EqMatcher pr r) x \<longleftrightarrow> x = r" "Matches (NeMatcher pr r) x \<longleftrightarrow> x \<noteq> r"
  "Matches (LtMatcher pr' s) y \<longleftrightarrow> y < s" "Matches (GtMatcher pr' s) y \<longleftrightarrow> y > s"
  "Matches (LeMatcher pr' s) y \<longleftrightarrow> y \<le> s" "Matches (GeMatcher pr' s) y \<longleftrightarrow> y \<ge> s"
  by (simp_all add: comparison_defs ComparisonBase_matches)

lemma null_good [good_intros]: "good IsNullMatcher" "good NotNullMatcher"
  and null_matches [matches_simps]: "Matches IsNullMatcher p \<longleftrightarrow> p = NULL" "Matches NotNullMatcher p \<longleftrightarrow> p \<noteq> NULL"
  using goodI [where m = IsNullMatcher and p = "\<lambda>p. p = NULL" and e = "\<lambda>_. []"]
    goodI [where m = NotNullMatcher and p = "\<lambda>p. p \<noteq> NULL" and e = "\<lambda>_. []"]
  by (simp_all add: IsNullMatcher_def NotNullMatcher_def MonomorphicImpl_def)

lemma RefMatcher_good [good_intros]: "good (RefMatcher pa pr r)"
  and RefMatcher_matches [matches_simps]: "Matches (RefMatcher pa pr r) x \<longleftrightarrow> x = r"
  using goodI [where m = "RefMatcher pa pr r" and p = "\<lambda>x. x = r" and e = "\<lambda>x. ''which is located @'' @ pa x"]
  by (simp_all add: RefMatcher_def)

text \<open>The matchers of two-element tuples.\<close>

definition PairMatchBase :: "string \<Rightarrow> ('a \<Rightarrow> 'b \<Rightarrow> bool) \<Rightarrow> ('a \<times> 'b) matcher" where
  "PairMatchBase d op =
     \<lparr>MatchAndExplain = (\<lambda>args l. (op (fst args) (snd args), l)),
      DescribeTo = ''are '' @ d, DescribeNegationTo = ''aren't '' @ d\<rparr>"

definition Eq2Matcher :: "('a \<times> 'a) matcher" where "Eq2Matcher = PairMatchBase ''an equal pair'' (=)"
definition Ne2Matcher :: "('a \<times> 'a) matcher" where "Ne2Matcher = PairMatchBase ''an unequal pair'' (\<noteq>)"
definition Lt2Matcher :: "('a::linorder \<times> 'a) matcher" where
  "Lt2Matcher = PairMatchBase ''a pair where the first < the second'' (<)"
definition Gt2Matcher :: "('a::linorder \<times> 'a) matcher" where
  "Gt2Matcher = PairMatchBase ''a pair where the first > the second'' (>)"
definition Le2Matcher :: "('a::linorder \<times> 'a) matcher" where
  "Le2Matcher = PairMatchBase ''a pair where the first <= the second'' (\<le>)"
definition Ge2Matcher :: "('a::linorder \<times> 'a) matcher" where
  "Ge2Matcher = PairMatchBase ''a pair where the first >= the second'' (\<ge>)"

lemma PairMatchBase_good [good_intros]: "good (PairMatchBase d op)"
  and PairMatchBase_matches [matches_simps]: "Matches (PairMatchBase d op) (x, y) \<longleftrightarrow> op x y"
  using goodI [where m = "PairMatchBase d op" and p = "\<lambda>a. op (fst a) (snd a)" and e = "\<lambda>_. []"]
  by (simp_all add: PairMatchBase_def)

section \<open>String matchers\<close>

abbreviation (input) NUL :: char where "NUL \<equiv> CHR 0x00"

definition c_str :: "string \<Rightarrow> string" where
  "c_str s = takeWhile (\<lambda>c. c \<noteq> NUL) s"

definition find_nul :: "string \<Rightarrow> nat option" where
  "find_nul s = (if NUL \<in> set s then Some (length (c_str s)) else None)"

text \<open>\<open>ci\<close> is \<open>String::CaseInsensitiveCStringEquals\<close> of the compiled library.\<close>

function CaseInsensitiveStringEquals :: "(string \<Rightarrow> string \<Rightarrow> bool) \<Rightarrow> string \<Rightarrow> string \<Rightarrow> bool" where
  "CaseInsensitiveStringEquals ci s1 s2 =
     (if \<not> ci (c_str s1) (c_str s2) then False
      else case (find_nul s1, find_nul s2) of
        (Some i1, Some i2) \<Rightarrow> CaseInsensitiveStringEquals ci (drop (i1 + 1) s1) (drop (i2 + 1) s2)
      | (i1, i2) \<Rightarrow> i1 = i2)"
  by pat_completeness auto
termination
  by (relation "measure (\<lambda>(ci, s1, s2). length s1)")
    (auto simp: find_nul_def c_str_def split: if_splits intro!: diff_less dest: length_pos_if_in_set)

declare CaseInsensitiveStringEquals.simps [simp del]

definition StrEqualityMatcher ::
  "(string \<Rightarrow> string \<Rightarrow> bool) \<Rightarrow> (string \<Rightarrow> string) \<Rightarrow> string \<Rightarrow> bool \<Rightarrow> bool \<Rightarrow> string matcher" where
  "StrEqualityMatcher ci pr str expect_eq case_sensitive =
     (let describe = (\<lambda>eq. (if eq then ''is '' else ''isn't '') @ ''equal to ''
            @ (if \<not> case_sensitive then ''(ignoring case) '' else []) @ pr str)
      in MonomorphicImpl
           (\<lambda>s2 l. (expect_eq = (if case_sensitive then s2 = str else CaseInsensitiveStringEquals ci s2 str), l))
           (describe expect_eq) (describe (\<not> expect_eq)))"

text \<open>The overloads for a character pointer, which may be NULL (\<open>None\<close>).\<close>

definition StrEqualityMatcher_ptr ::
  "(string \<Rightarrow> string \<Rightarrow> bool) \<Rightarrow> (string \<Rightarrow> string) \<Rightarrow> string \<Rightarrow> bool \<Rightarrow> bool \<Rightarrow> string option matcher" where
  "StrEqualityMatcher_ptr ci pr str expect_eq case_sensitive =
     (let m = StrEqualityMatcher ci pr str expect_eq case_sensitive
      in MonomorphicImpl
           (\<lambda>s l. case s of None \<Rightarrow> (\<not> expect_eq, l) | Some t \<Rightarrow> MatchAndExplain m t l)
           (DescribeTo m) (DescribeNegationTo m))"

definition char_pointer :: "string matcher \<Rightarrow> string option matcher" where
  "char_pointer m = MonomorphicImpl
     (\<lambda>s l. case s of None \<Rightarrow> (False, l) | Some t \<Rightarrow> MatchAndExplain m t l) (DescribeTo m) (DescribeNegationTo m)"

fun find_substring :: "string \<Rightarrow> string \<Rightarrow> nat \<Rightarrow> nat option" where
  "find_substring sub s i =
     (if take (length sub) s = sub then Some i
      else case s of [] \<Rightarrow> None | c # cs \<Rightarrow> find_substring sub cs (i + 1))"

definition HasSubstrMatcher :: "(string \<Rightarrow> string) \<Rightarrow> string \<Rightarrow> string matcher" where
  "HasSubstrMatcher pr sub = MonomorphicImpl (\<lambda>s l. (find_substring sub s 0 \<noteq> None, l))
     (''has substring '' @ pr sub) (''has no substring '' @ pr sub)"

definition StartsWithMatcher :: "(string \<Rightarrow> string) \<Rightarrow> string \<Rightarrow> string matcher" where
  "StartsWithMatcher pr pre = MonomorphicImpl
     (\<lambda>s l. (length s \<ge> length pre \<and> take (length pre) s = pre, l))
     (''starts with '' @ pr pre) (''doesn't start with '' @ pr pre)"

definition EndsWithMatcher :: "(string \<Rightarrow> string) \<Rightarrow> string \<Rightarrow> string matcher" where
  "EndsWithMatcher pr suf = MonomorphicImpl
     (\<lambda>s l. (length s \<ge> length suf \<and> drop (length s - length suf) s = suf, l))
     (''ends with '' @ pr suf) (''doesn't end with '' @ pr suf)"

definition MatchesRegexMatcher ::
  "('re \<Rightarrow> string \<Rightarrow> bool) \<Rightarrow> ('re \<Rightarrow> string \<Rightarrow> bool) \<Rightarrow> ('re \<Rightarrow> string) \<Rightarrow> 're \<Rightarrow> bool \<Rightarrow> string matcher" where
  "MatchesRegexMatcher full_match_fn partial_match_fn pattern re full_match = MonomorphicImpl
     (\<lambda>s l. (if full_match then full_match_fn re s else partial_match_fn re s, l))
     ((if full_match then ''matches'' else ''contains'') @ '' regular expression '' @ pattern re)
     (''doesn't '' @ (if full_match then ''match'' else ''contain'') @ '' regular expression '' @ pattern re)"

lemma MonomorphicImpl_good:
  assumes "\<And>x l. impl x l = (p x, put (e x) l)"
  shows "good (MonomorphicImpl impl d nd)" and "Matches (MonomorphicImpl impl d nd) x = p x"
  using goodI [where m = "MonomorphicImpl impl d nd" and p = p and e = e] assms
  by (simp_all add: MonomorphicImpl_def)

lemma take_prefix_iff: "take (length p) s = p \<longleftrightarrow> prefix p s"
  by (metis append_eq_conv_conj append_take_drop_id prefix_def)

lemma drop_suffix_iff: "length p \<le> length s \<Longrightarrow> drop (length s - length p) s = p \<longleftrightarrow> suffix p s"
  by (auto simp: suffix_def) (metis append_take_drop_id)

lemma find_substring_iff: "find_substring sub s i \<noteq> None \<longleftrightarrow> sublist sub s"
proof (induction s arbitrary: i)
  case Nil
  then show ?case by (subst find_substring.simps) (auto simp: take_prefix_iff)
next
  case (Cons c cs)
  show ?case
  proof (cases "prefix sub (c # cs)")
    case True
    then show ?thesis by (subst find_substring.simps) (simp add: take_prefix_iff sublist_Cons_right)
  next
    case False
    then have "find_substring sub (c # cs) i = find_substring sub cs (i + 1)"
      by (subst find_substring.simps) (simp add: take_prefix_iff)
    then show ?thesis using Cons [of "i + 1"] False by (simp add: sublist_Cons_right)
  qed
qed

lemma string_good [good_intros]:
  "good (StrEqualityMatcher ci pr s eq cs)" "good (HasSubstrMatcher pr s)"
  "good (StartsWithMatcher pr s)" "good (EndsWithMatcher pr s)"
  "good (MatchesRegexMatcher f g pat re full)"
  unfolding StrEqualityMatcher_def Let_def HasSubstrMatcher_def StartsWithMatcher_def EndsWithMatcher_def
    MatchesRegexMatcher_def
  by (rule MonomorphicImpl_good(1) [where e = "\<lambda>_. []"], simp)+

lemma string_matches [matches_simps]:
  "Matches (StrEqualityMatcher ci pr t eq cs) s \<longleftrightarrow>
     eq = (if cs then s = t else CaseInsensitiveStringEquals ci s t)"
  "Matches (HasSubstrMatcher pr t) s \<longleftrightarrow> sublist t s"
  "Matches (StartsWithMatcher pr t) s \<longleftrightarrow> prefix t s"
  "Matches (EndsWithMatcher pr t) s \<longleftrightarrow> suffix t s"
  "Matches (MatchesRegexMatcher f g pat re full) s \<longleftrightarrow> (if full then f re s else g re s)"
proof -
  show "Matches (HasSubstrMatcher pr t) s \<longleftrightarrow> sublist t s"
    using find_substring_iff [of t s 0] by (simp add: HasSubstrMatcher_def Matches_def MonomorphicImpl_def)
  show "Matches (StartsWithMatcher pr t) s \<longleftrightarrow> prefix t s"
    by (auto simp: StartsWithMatcher_def Matches_def MonomorphicImpl_def take_prefix_iff dest: prefix_length_le)
  show "Matches (EndsWithMatcher pr t) s \<longleftrightarrow> suffix t s"
    using drop_suffix_iff [of t s]
    by (auto simp: EndsWithMatcher_def Matches_def MonomorphicImpl_def dest: suffix_length_le)
qed (simp_all add: StrEqualityMatcher_def Let_def MatchesRegexMatcher_def Matches_def MonomorphicImpl_def)

lemma char_pointer_good [good_intros]: "good m \<Longrightarrow> good (char_pointer m)"
  unfolding char_pointer_def
  by (rule MonomorphicImpl_good(1) [where p = "\<lambda>s. case s of None \<Rightarrow> False | Some t \<Rightarrow> Matches m t"
        and e = "\<lambda>s. case s of None \<Rightarrow> [] | Some t \<Rightarrow> expl m t"])
    (simp add: good_MAE split: option.split)

lemma char_pointer_matches [matches_simps]:
  "Matches (char_pointer m) s \<longleftrightarrow> (\<exists>t. s = Some t \<and> Matches m t)"
  by (cases s) (simp_all add: char_pointer_def Matches_def MonomorphicImpl_def)

lemma StrEqualityMatcher_ptr_good [good_intros]: "good (StrEqualityMatcher_ptr ci pr s eq cs)"
  unfolding StrEqualityMatcher_ptr_def Let_def
  by (rule MonomorphicImpl_good(1) [where p = "\<lambda>t. case t of None \<Rightarrow> \<not> eq | Some t \<Rightarrow> Matches (StrEqualityMatcher ci pr s eq cs) t"
        and e = "\<lambda>t. case t of None \<Rightarrow> [] | Some t \<Rightarrow> expl (StrEqualityMatcher ci pr s eq cs) t"])
    (simp add: good_MAE string_good split: option.split)

text \<open>Splitting at the first NUL, which the recursion on embedded NULs follows.\<close>

lemma nul_split:
  "find_nul s = Some i \<Longrightarrow> s = c_str s @ NUL # drop (i + 1) s"
  "find_nul s = None \<Longrightarrow> c_str s = s"
  "NUL \<notin> set (c_str s)"
proof -
  show "NUL \<notin> set (c_str s)" by (auto simp: c_str_def dest: set_takeWhileD)
  show "find_nul s = None \<Longrightarrow> c_str s = s"
    by (auto simp: find_nul_def c_str_def takeWhile_eq_all_conv split: if_splits)
  assume "find_nul s = Some i"
  then have i: "i = length (c_str s)" and n: "NUL \<in> set s" by (auto simp: find_nul_def split: if_splits)
  obtain r where r: "dropWhile (\<lambda>c. c \<noteq> NUL) s = NUL # r"
  proof (cases "dropWhile (\<lambda>c. c \<noteq> NUL) s")
    case Nil
    then show ?thesis using n by (auto simp: dropWhile_eq_Nil_conv)
  next
    case (Cons a r)
    then have "a = NUL" by (simp add: dropWhile_eq_Cons_conv)
    then show ?thesis using Cons that by simp
  qed
  have "s = c_str s @ NUL # r" unfolding c_str_def r [symmetric] by simp
  moreover from this have "drop (i + 1) s = r" unfolding i by (metis append_eq_conv_conj drop_drop drop_Suc_Cons drop0 One_nat_def add.commute)
  ultimately show "s = c_str s @ NUL # drop (i + 1) s" by simp
qed

text \<open>\<open>tolower\<close> in the C locale.\<close>

definition tolower :: "char \<Rightarrow> char" where
  "tolower c = (let n = of_char c :: nat in if 65 \<le> n \<and> n \<le> 90 then char_of (n + 32) else c)"

definition ignoring_case :: "(string \<Rightarrow> string \<Rightarrow> bool) \<Rightarrow> bool" where
  "ignoring_case ci \<longleftrightarrow> (\<forall>a b. NUL \<notin> set a \<longrightarrow> NUL \<notin> set b \<longrightarrow> ci a b = (map tolower a = map tolower b))"

lemma tolower_NUL: "tolower c = NUL \<longleftrightarrow> c = NUL"
proof (cases "65 \<le> (of_char c :: nat) \<and> (of_char c :: nat) \<le> 90")
  case True
  then have "of_char (tolower c) = (of_char c + 32 :: nat)" by (simp add: tolower_def Let_def)
  then show ?thesis using True by auto
qed (auto simp: tolower_def Let_def)

lemma NUL_map_tolower: "NUL \<in> tolower ` A \<longleftrightarrow> NUL \<in> A"
  by (auto simp: image_iff) (metis tolower_NUL)+

lemma nul_append_eq:
  "NUL \<notin> set a \<Longrightarrow> NUL \<notin> set b \<Longrightarrow> a @ NUL # x = b @ NUL # y \<longleftrightarrow> a = b \<and> x = y"
proof (induction a arbitrary: b)
  case Nil
  then show ?case by (cases b) auto
next
  case (Cons c a)
  then show ?case by (cases b) auto
qed

lemma map_tolower_at_nul:
  assumes "find_nul s1 = Some i1" and "find_nul s2 = Some i2"
  shows "map tolower s1 = map tolower s2 \<longleftrightarrow>
    map tolower (c_str s1) = map tolower (c_str s2) \<and>
    map tolower (drop (i1 + 1) s1) = map tolower (drop (i2 + 1) s2)"
proof -
  have "map tolower s1 = map tolower (c_str s1) @ NUL # map tolower (drop (i1 + 1) s1)"
    by (subst nul_split(1) [OF assms(1)]) (simp add: tolower_def)
  moreover have "map tolower s2 = map tolower (c_str s2) @ NUL # map tolower (drop (i2 + 1) s2)"
    by (subst nul_split(1) [OF assms(2)]) (simp add: tolower_def)
  ultimately show ?thesis
    using nul_split(3) [of s1] nul_split(3) [of s2] by (simp add: nul_append_eq NUL_map_tolower)
qed

text \<open>When the library's comparison of C strings ignores case, the comparison of strings that may
  contain NUL characters returns and ignores case on the whole strings, not only up to the first NUL.\<close>

theorem case_insensitive_whole_string:
  assumes "ignoring_case ci"
  shows "CaseInsensitiveStringEquals ci s1 s2 \<longleftrightarrow> map tolower s1 = map tolower s2"
  using assms
proof (induction ci s1 s2 rule: CaseInsensitiveStringEquals.induct)
  case (1 ci s1 s2)
  have ci: "ci (c_str s1) (c_str s2) \<longleftrightarrow> map tolower (c_str s1) = map tolower (c_str s2)"
    using "1.prems" nul_split(3) [of s1] nul_split(3) [of s2] by (simp add: ignoring_case_def)
  have whole: "map tolower s1 = map tolower s2 \<Longrightarrow> NUL \<in> set s1 \<longleftrightarrow> NUL \<in> set s2"
    by (metis NUL_map_tolower list.set_map)
  show ?case
  proof (cases "\<exists>i1 i2. find_nul s1 = Some i1 \<and> find_nul s2 = Some i2")
    case True
    then obtain i1 i2 where i: "find_nul s1 = Some i1" "find_nul s2 = Some i2" by blast
    let ?r1 = "drop (i1 + 1) s1" and ?r2 = "drop (i2 + 1) s2"
    have "CaseInsensitiveStringEquals ci s1 s2 \<longleftrightarrow>
        ci (c_str s1) (c_str s2) \<and> CaseInsensitiveStringEquals ci ?r1 ?r2"
      using i by (subst CaseInsensitiveStringEquals.simps) simp
    also have "\<dots> \<longleftrightarrow> ci (c_str s1) (c_str s2) \<and> map tolower ?r1 = map tolower ?r2"
      using "1.IH" i "1.prems" by auto
    finally show ?thesis using ci map_tolower_at_nul [OF i] by simp
  next
    case False
    then have "CaseInsensitiveStringEquals ci s1 s2 \<longleftrightarrow> ci (c_str s1) (c_str s2) \<and> find_nul s1 = find_nul s2"
      by (subst CaseInsensitiveStringEquals.simps) (auto split: option.splits)
    moreover have "find_nul s1 = find_nul s2 \<longleftrightarrow> NUL \<notin> set s1 \<and> NUL \<notin> set s2"
      using False by (auto simp: find_nul_def)
    moreover have "NUL \<notin> set s1 \<Longrightarrow> c_str s1 = s1" "NUL \<notin> set s2 \<Longrightarrow> c_str s2 = s2"
      by (auto intro!: nul_split(2) simp: find_nul_def)
    moreover have "\<not> (NUL \<in> set s1 \<and> NUL \<in> set s2)" using False by (auto simp: find_nul_def)
    ultimately show ?thesis using ci whole by metis
  qed
qed

text \<open>A comparison of C strings that ignores case exists, and the theorem tells strings apart after a NUL.\<close>

theorem case_insensitive_whole_string_witness:
  "ignoring_case (\<lambda>a b. map tolower a = map tolower b)
   \<and> CaseInsensitiveStringEquals (\<lambda>a b. map tolower a = map tolower b) [CHR ''a'', NUL, CHR ''B''] [CHR ''A'', NUL, CHR ''b'']
   \<and> \<not> CaseInsensitiveStringEquals (\<lambda>a b. map tolower a = map tolower b) [CHR ''a'', NUL, CHR ''B''] [CHR ''a'', NUL, CHR ''C'']"
proof -
  have ic: "ignoring_case (\<lambda>a b. map tolower a = map tolower b)" by (simp add: ignoring_case_def)
  have "map tolower [CHR ''a'', NUL, CHR ''B''] = map tolower [CHR ''A'', NUL, CHR ''b'']"
    "map tolower [CHR ''a'', NUL, CHR ''B''] \<noteq> map tolower [CHR ''a'', NUL, CHR ''C'']" by code_simp+
  then show ?thesis
    using case_insensitive_whole_string [OF ic] ic by blast
qed


section \<open>Logical matchers\<close>

definition NotMatcher :: "'a matcher \<Rightarrow> 'a matcher" where
  "NotMatcher m =
     \<lparr>MatchAndExplain = (\<lambda>x l. let (b, l') = MatchAndExplain m x l in (\<not> b, l')),
      DescribeTo = DescribeNegationTo m, DescribeNegationTo = DescribeTo m\<rparr>"

text \<open>How \<open>AllOf\<close> explains a match and \<open>AnyOf\<close> a mismatch of both.\<close>

definition put_both :: "string \<Rightarrow> string \<Rightarrow> listener \<Rightarrow> listener" where
  "put_both s1 s2 l =
     (if s1 = [] then put s2 l
      else let l1 = put s1 l in if s2 \<noteq> [] then put s2 (put '', and '' l1) else l1)"

definition BothOfMatcher :: "'a matcher \<Rightarrow> 'a matcher \<Rightarrow> 'a matcher" where
  "BothOfMatcher m1 m2 =
     \<lparr>MatchAndExplain = (\<lambda>x l.
        let (b1, s1) = Explained m1 x
        in if \<not> b1 then (False, put s1 l)
           else let (b2, s2) = Explained m2 x
                in if \<not> b2 then (False, put s2 l) else (True, put_both s1 s2 l)),
      DescribeTo = ''('' @ DescribeTo m1 @ '') and ('' @ DescribeTo m2 @ '')'',
      DescribeNegationTo = ''('' @ DescribeNegationTo m1 @ '') or ('' @ DescribeNegationTo m2 @ '')''\<rparr>"

definition EitherOfMatcher :: "'a matcher \<Rightarrow> 'a matcher \<Rightarrow> 'a matcher" where
  "EitherOfMatcher m1 m2 =
     \<lparr>MatchAndExplain = (\<lambda>x l.
        let (b1, s1) = Explained m1 x
        in if b1 then (True, put s1 l)
           else let (b2, s2) = Explained m2 x
                in if b2 then (True, put s2 l) else (False, put_both s1 s2 l)),
      DescribeTo = ''('' @ DescribeTo m1 @ '') or ('' @ DescribeTo m2 @ '')'',
      DescribeNegationTo = ''('' @ DescribeNegationTo m1 @ '') and ('' @ DescribeNegationTo m2 @ '')''\<rparr>"

text \<open>\<open>MatcherList\<close>: two matchers or more, combined from the right.\<close>

fun CreateMatcher :: "('a matcher \<Rightarrow> 'a matcher \<Rightarrow> 'a matcher) \<Rightarrow> 'a matcher \<Rightarrow> 'a matcher \<Rightarrow> 'a matcher list \<Rightarrow> 'a matcher" where
  "CreateMatcher comb m1 m2 [] = comb m1 m2"
| "CreateMatcher comb m1 m2 (m3 # ms) = comb m1 (CreateMatcher comb m2 m3 ms)"

definition AllOfMatcher :: "'a matcher \<Rightarrow> 'a matcher \<Rightarrow> 'a matcher list \<Rightarrow> 'a matcher" where
  "AllOfMatcher m1 m2 ms = CreateMatcher BothOfMatcher m1 m2 ms"

definition AnyOfMatcher :: "'a matcher \<Rightarrow> 'a matcher \<Rightarrow> 'a matcher list \<Rightarrow> 'a matcher" where
  "AnyOfMatcher m1 m2 ms = CreateMatcher EitherOfMatcher m1 m2 ms"

definition TrulyMatcher :: "('a \<Rightarrow> bool) \<Rightarrow> 'a matcher" where
  "TrulyMatcher pred = MonomorphicImpl (\<lambda>x l. (if pred x then True else False, l))
     ''satisfies the given predicate'' ''doesn't satisfy the given predicate''"

definition MatcherAsPredicate :: "('t \<Rightarrow> 'u) \<Rightarrow> 'u matcher \<Rightarrow> 't \<Rightarrow> bool" where
  "MatcherAsPredicate conv m x = Matches (MatcherCast conv m) x"

text \<open>\<open>EXPECT_THAT\<close>: success (\<open>None\<close>) or the failure message.\<close>

definition PredicateFormatterFromMatcher :: "'a printer \<Rightarrow> 'a matcher \<Rightarrow> string \<Rightarrow> 'a \<Rightarrow> string option" where
  "PredicateFormatterFromMatcher pr m value_text x =
     (let (b, l) = MatchPrintAndExplain pr x m StringMatchResultListener
      in if b then None
         else Some (''Value of: '' @ value_text @ [CHR 0x0A] @ ''Expected: '' @ DescribeTo m
                @ [CHR 0x0A] @ ''  Actual: '' @ listener_str l))"

lemma NotMatcher_good [good_intros]: "good m \<Longrightarrow> good (NotMatcher m)"
  by (rule goodI(1) [where p = "\<lambda>x. \<not> Matches m x" and e = "expl m"]) (simp add: NotMatcher_def good_MAE)

lemma NotMatcher_matches [matches_simps]: "Matches (NotMatcher m) x \<longleftrightarrow> \<not> Matches m x"
  by (simp add: NotMatcher_def Matches_def case_prod_beta)

definition both_expl :: "string \<Rightarrow> string \<Rightarrow> string" where
  "both_expl s1 s2 = (if s1 = [] then s2 else s1 @ (if s2 \<noteq> [] then '', and '' @ s2 else []))"

lemma put_both_eq: "put_both s1 s2 l = put (both_expl s1 s2) l"
  by (simp add: put_both_def both_expl_def Let_def)

lemma BothOfMatcher_MAE:
  "good m1 \<Longrightarrow> good m2 \<Longrightarrow> MatchAndExplain (BothOfMatcher m1 m2) x l =
     (Matches m1 x \<and> Matches m2 x,
      put (if \<not> Matches m1 x then expl m1 x else if \<not> Matches m2 x then expl m2 x
           else both_expl (expl m1 x) (expl m2 x)) l)"
  by (simp add: BothOfMatcher_def good_Explained put_both_eq)

lemma EitherOfMatcher_MAE:
  "good m1 \<Longrightarrow> good m2 \<Longrightarrow> MatchAndExplain (EitherOfMatcher m1 m2) x l =
     (Matches m1 x \<or> Matches m2 x,
      put (if Matches m1 x then expl m1 x else if Matches m2 x then expl m2 x
           else both_expl (expl m1 x) (expl m2 x)) l)"
  by (simp add: EitherOfMatcher_def good_Explained put_both_eq)

lemma both_either_good [good_intros]:
  "good m1 \<Longrightarrow> good m2 \<Longrightarrow> good (BothOfMatcher m1 m2)"
  "good m1 \<Longrightarrow> good m2 \<Longrightarrow> good (EitherOfMatcher m1 m2)"
  by (rule goodI(1), erule (1) BothOfMatcher_MAE EitherOfMatcher_MAE)+

lemma both_either_matches [matches_simps]:
  "good m1 \<Longrightarrow> good m2 \<Longrightarrow> Matches (BothOfMatcher m1 m2) x \<longleftrightarrow> Matches m1 x \<and> Matches m2 x"
  "good m1 \<Longrightarrow> good m2 \<Longrightarrow> Matches (EitherOfMatcher m1 m2) x \<longleftrightarrow> Matches m1 x \<or> Matches m2 x"
  by (simp_all add: Matches_def [of "BothOfMatcher m1 m2"] Matches_def [of "EitherOfMatcher m1 m2"]
      BothOfMatcher_MAE EitherOfMatcher_MAE)

lemma AllOf_facts:
  "\<forall>m \<in> set (m1 # m2 # ms). good m \<Longrightarrow>
     good (AllOfMatcher m1 m2 ms) \<and> (Matches (AllOfMatcher m1 m2 ms) x \<longleftrightarrow> (\<forall>m \<in> set (m1 # m2 # ms). Matches m x))"
  unfolding AllOfMatcher_def
  by (induction ms arbitrary: m1 m2) (auto simp: good_intros matches_simps)

lemma AnyOf_facts:
  "\<forall>m \<in> set (m1 # m2 # ms). good m \<Longrightarrow>
     good (AnyOfMatcher m1 m2 ms) \<and> (Matches (AnyOfMatcher m1 m2 ms) x \<longleftrightarrow> (\<exists>m \<in> set (m1 # m2 # ms). Matches m x))"
  unfolding AnyOfMatcher_def
  by (induction ms arbitrary: m1 m2) (auto simp: good_intros matches_simps)

lemma TrulyMatcher_good [good_intros]: "good (TrulyMatcher pred)"
  unfolding TrulyMatcher_def by (rule MonomorphicImpl_good(1) [where p = pred and e = "\<lambda>_. []"]) simp

lemma TrulyMatcher_matches [matches_simps]: "Matches (TrulyMatcher pred) x \<longleftrightarrow> pred x"
  by (simp add: TrulyMatcher_def Matches_def MonomorphicImpl_def)

section \<open>Floating point equality\<close>

text \<open>
  The raw type as the bits of its numbers: its fraction bits, its arithmetic and how it is printed.
  \<open>FloatingPoint<T>\<close> is modelled on the bits in \<open>Gtest_Floating_Point\<close>.
\<close>

record 'f float_ops =
  fl_fbits :: nat
  fl_eq :: "'f \<Rightarrow> 'f \<Rightarrow> bool"
  fl_minus :: "'f \<Rightarrow> 'f \<Rightarrow> 'f"
  fl_abs :: "'f \<Rightarrow> 'f"
  fl_le :: "'f \<Rightarrow> 'f \<Rightarrow> bool"
  fl_zero :: "'f"
  fl_show :: "'f \<Rightarrow> string"

abbreviation is_nan :: "'f::len word float_ops \<Rightarrow> 'f word \<Rightarrow> bool" where
  "is_nan F \<equiv> fp_is_nan (fl_fbits F)"

definition HasMaxAbsError :: "'f::len word float_ops \<Rightarrow> 'f word \<Rightarrow> bool" where
  "HasMaxAbsError F max_abs_error = fl_le F (fl_zero F) max_abs_error"

definition FloatingEq_MatchAndExplain ::
  "'f::len word float_ops \<Rightarrow> 'f word \<Rightarrow> bool \<Rightarrow> 'f word \<Rightarrow> 'f word \<Rightarrow> listener \<Rightarrow> bool \<times> listener" where
  "FloatingEq_MatchAndExplain F expected nan_eq_nan max_abs_error x l =
     (if is_nan F x \<or> is_nan F expected
      then if is_nan F x \<and> is_nan F expected then (nan_eq_nan, l) else (False, l)
      else if HasMaxAbsError F max_abs_error
      then if fl_eq F x expected then (True, l)
           else let diff = fl_minus F x expected
                in if fl_le F (fl_abs F diff) max_abs_error then (True, l)
                   else (False, if IsInterested l
                                then put (''which is '' @ fl_show F diff @ '' from '' @ fl_show F expected) l else l)
      else (AlmostEquals (fl_fbits F) x expected, l))"

definition FloatingEqMatcher :: "'f::len word float_ops \<Rightarrow> 'f word \<Rightarrow> bool \<Rightarrow> 'f word \<Rightarrow> 'f word matcher" where
  "FloatingEqMatcher F expected nan_eq_nan max_abs_error =
     \<lparr>MatchAndExplain = FloatingEq_MatchAndExplain F expected nan_eq_nan max_abs_error,
      DescribeTo =
        (if is_nan F expected then if nan_eq_nan then ''is NaN'' else ''never matches''
         else ''is approximately '' @ fl_show F expected
           @ (if HasMaxAbsError F max_abs_error then '' (absolute error <= '' @ fl_show F max_abs_error @ '')'' else [])),
      DescribeNegationTo =
        (if is_nan F expected then if nan_eq_nan then ''isn't NaN'' else ''is anything''
         else ''isn't approximately '' @ fl_show F expected
           @ (if HasMaxAbsError F max_abs_error then '' (absolute error > '' @ fl_show F max_abs_error @ '')'' else []))\<rparr>"

text \<open>The constructor with a user-specified error checks it.\<close>

definition FloatingEqMatcher_near :: "'f::len word float_ops \<Rightarrow> 'f word \<Rightarrow> bool \<Rightarrow> 'f word \<Rightarrow> 'f word matcher res" where
  "FloatingEqMatcher_near F expected nan_eq_nan max_abs_error =
     (if fl_le F (fl_zero F) max_abs_error
      then Inr (FloatingEqMatcher F expected nan_eq_nan max_abs_error) else Inl Abort)"

definition float_matches :: "'f::len word float_ops \<Rightarrow> 'f word \<Rightarrow> bool \<Rightarrow> 'f word \<Rightarrow> 'f word \<Rightarrow> bool" where
  "float_matches F expected nan_eq_nan max_abs_error x \<longleftrightarrow>
     (if is_nan F x \<or> is_nan F expected then is_nan F x \<and> is_nan F expected \<and> nan_eq_nan
      else if HasMaxAbsError F max_abs_error
      then fl_eq F x expected \<or> fl_le F (fl_abs F (fl_minus F x expected)) max_abs_error
      else AlmostEquals (fl_fbits F) x expected)"

lemma FloatingEq_MAE:
  "MatchAndExplain (FloatingEqMatcher F e n err) x l =
     (float_matches F e n err x,
      put (if is_nan F x \<or> is_nan F e \<or> \<not> HasMaxAbsError F err \<or> float_matches F e n err x then []
           else ''which is '' @ fl_show F (fl_minus F x e) @ '' from '' @ fl_show F e) l)"
  by (cases l) (auto simp: FloatingEqMatcher_def FloatingEq_MatchAndExplain_def float_matches_def
      IsInterested_def Let_def)

lemma FloatingEqMatcher_good [good_intros]: "good (FloatingEqMatcher F e n err)"
  by (rule goodI(1)) (rule FloatingEq_MAE)

lemma FloatingEqMatcher_matches [matches_simps]:
  "Matches (FloatingEqMatcher F e n err) x \<longleftrightarrow> float_matches F e n err x"
  by (simp add: Matches_def FloatingEq_MAE)

section \<open>Matchers that look into a value\<close>

text \<open>A raw or smart pointer is NULL (\<open>None\<close>) or points to a value.\<close>

definition PointeeMatcher :: "'a printer \<Rightarrow> 'a matcher \<Rightarrow> 'a option matcher" where
  "PointeeMatcher pr m =
     \<lparr>MatchAndExplain = (\<lambda>p l. case p of
         None \<Rightarrow> (False, l)
       | Some v \<Rightarrow> MatchPrintAndExplain pr v m (put ''which points to '' l)),
      DescribeTo = ''points to a value that '' @ DescribeTo m,
      DescribeNegationTo = ''does not point to a value that '' @ DescribeTo m\<rparr>"

text \<open>\<open>cast\<close> is the \<open>dynamic_cast\<close>: on pointers it yields NULL when it fails.\<close>

definition WhenDynamicCastToMatcherBase ::
  "string \<Rightarrow> 'b matcher \<Rightarrow> ('a \<Rightarrow> listener \<Rightarrow> bool \<times> listener) \<Rightarrow> 'a matcher" where
  "WhenDynamicCastToMatcherBase to_name m impl = MonomorphicImpl impl
     (''when dynamic_cast to '' @ to_name @ '', '' @ DescribeTo m)
     (''when dynamic_cast to '' @ to_name @ '', '' @ DescribeNegationTo m)"

definition WhenDynamicCastToMatcher :: "string \<Rightarrow> 'b option printer \<Rightarrow> ('a \<Rightarrow> 'b option) \<Rightarrow> 'b option matcher \<Rightarrow> 'a matcher" where
  "WhenDynamicCastToMatcher to_name pr cast m = WhenDynamicCastToMatcherBase to_name m
     (\<lambda>from l. MatchPrintAndExplain pr (cast from) m l)"

definition WhenDynamicCastToMatcher_ref :: "string \<Rightarrow> 'b printer \<Rightarrow> ('a \<Rightarrow> 'b option) \<Rightarrow> 'b matcher \<Rightarrow> 'a matcher" where
  "WhenDynamicCastToMatcher_ref to_name pr cast m = WhenDynamicCastToMatcherBase to_name m
     (\<lambda>from l. case cast from of
        None \<Rightarrow> (False, put (''which cannot be dynamic_cast to '' @ to_name) l)
      | Some to \<Rightarrow> MatchPrintAndExplain pr to m l)"

definition FieldMatcher :: "'f printer \<Rightarrow> ('a \<Rightarrow> 'f) \<Rightarrow> 'f matcher \<Rightarrow> 'a matcher" where
  "FieldMatcher pr field m = MonomorphicImpl
     (\<lambda>obj l. MatchPrintAndExplain pr (field obj) m (put ''whose given field is '' l))
     (''is an object whose given field '' @ DescribeTo m)
     (''is an object whose given field '' @ DescribeNegationTo m)"

definition PropertyMatcher :: "'f printer \<Rightarrow> ('a \<Rightarrow> 'f) \<Rightarrow> 'f matcher \<Rightarrow> 'a matcher" where
  "PropertyMatcher pr prop m = MonomorphicImpl
     (\<lambda>obj l. MatchPrintAndExplain pr (prop obj) m (put ''whose given property is '' l))
     (''is an object whose given property '' @ DescribeTo m)
     (''is an object whose given property '' @ DescribeNegationTo m)"

text \<open>The overloads of both for a pointer to the object.\<close>

definition object_pointer :: "'a matcher \<Rightarrow> 'a option matcher" where
  "object_pointer m = MonomorphicImpl
     (\<lambda>p l. case p of None \<Rightarrow> (False, l) | Some obj \<Rightarrow> MatchAndExplain m obj (put ''which points to an object '' l))
     (DescribeTo m) (DescribeNegationTo m)"

text \<open>A function pointer may be NULL, which the constructor refuses.\<close>

definition ResultOfMatcher :: "'r printer \<Rightarrow> ('a \<Rightarrow> 'r) option \<Rightarrow> 'r matcher \<Rightarrow> 'a matcher res" where
  "ResultOfMatcher pr callable m =
     (case callable of
        None \<Rightarrow> Inl Abort
      | Some f \<Rightarrow> Inr
         \<lparr>MatchAndExplain = (\<lambda>obj l.
            MatchPrintAndExplain pr (f obj) m (put ''which is mapped by the given callable to '' l)),
          DescribeTo = ''is mapped by the given callable to a value that '' @ DescribeTo m,
          DescribeNegationTo = ''is mapped by the given callable to a value that '' @ DescribeNegationTo m\<rparr>)"

definition KeyMatcher :: "'k matcher \<Rightarrow> ('k \<times> 'v) matcher" where
  "KeyMatcher m =
     \<lparr>MatchAndExplain = (\<lambda>kv l. let (match, explanation) = Explained m (fst kv)
        in (match, if explanation \<noteq> [] then put (''whose first field is a value '' @ explanation) l else l)),
      DescribeTo = ''has a key that '' @ DescribeTo m,
      DescribeNegationTo = ''doesn't have a key that '' @ DescribeTo m\<rparr>"

definition PairMatcher_ExplainSuccess :: "string \<Rightarrow> string \<Rightarrow> listener \<Rightarrow> listener" where
  "PairMatcher_ExplainSuccess e1 e2 l =
     (let l1 = put ''whose both fields match'' l;
          l2 = (if e1 \<noteq> [] then put ('', where the first field is a value '' @ e1) l1 else l1)
      in if e2 \<noteq> []
         then put (''the second field is a value '' @ e2)
                (put (if e1 \<noteq> [] then ''and '' else ''where '') (put '', '' l2))
         else l2)"

definition PairMatcher :: "'k matcher \<Rightarrow> 'v matcher \<Rightarrow> ('k \<times> 'v) matcher" where
  "PairMatcher m1 m2 =
     \<lparr>MatchAndExplain = (\<lambda>kv l.
        if \<not> IsInterested l then (Matches m1 (fst kv) \<and> Matches m2 (snd kv), l)
        else let (b1, e1) = Explained m1 (fst kv)
             in if \<not> b1 then (False, PrintIfNotEmpty e1 (put ''whose first field does not match'' l))
                else let (b2, e2) = Explained m2 (snd kv)
                     in if \<not> b2 then (False, PrintIfNotEmpty e2 (put ''whose second field does not match'' l))
                        else (True, PairMatcher_ExplainSuccess e1 e2 l)),
      DescribeTo = ''has a first field that '' @ DescribeTo m1 @ '', and has a second field that '' @ DescribeTo m2,
      DescribeNegationTo = ''has a first field that '' @ DescribeNegationTo m1
        @ '', or has a second field that '' @ DescribeNegationTo m2\<rparr>"

lemma PointeeMatcher_MAE: "good m \<Longrightarrow> MatchAndExplain (PointeeMatcher pr m) p l =
    (case p of None \<Rightarrow> False | Some v \<Rightarrow> Matches m v,
     put (case p of None \<Rightarrow> [] | Some v \<Rightarrow> ''which points to '' @ print_expl pr m v) l)"
  by (simp add: PointeeMatcher_def MatchPrintAndExplain_eq split: option.split)

lemma PointeeMatcher_good [good_intros]: "good m \<Longrightarrow> good (PointeeMatcher pr m)"
  by (rule goodI(1)) (erule PointeeMatcher_MAE)

lemma PointeeMatcher_matches [matches_simps]:
  "good m \<Longrightarrow> Matches (PointeeMatcher pr m) p \<longleftrightarrow> (\<exists>v. p = Some v \<and> Matches m v)"
  by (cases p) (simp_all add: Matches_def [of "PointeeMatcher pr m"] PointeeMatcher_MAE)

lemma dynamic_cast_good [good_intros]:
  "good m \<Longrightarrow> good (WhenDynamicCastToMatcher tn pr cast m)"
  "good m' \<Longrightarrow> good (WhenDynamicCastToMatcher_ref tn pr' cast' m')"
  unfolding WhenDynamicCastToMatcher_def WhenDynamicCastToMatcher_ref_def WhenDynamicCastToMatcherBase_def
  by (rule MonomorphicImpl_good(1) [where p = "\<lambda>x. Matches m (cast x)" and e = "\<lambda>x. print_expl pr m (cast x)"],
      simp add: MatchPrintAndExplain_eq,
      rule MonomorphicImpl_good(1) [where p = "\<lambda>x. case cast' x of None \<Rightarrow> False | Some y \<Rightarrow> Matches m' y"
        and e = "\<lambda>x. case cast' x of None \<Rightarrow> ''which cannot be dynamic_cast to '' @ tn | Some y \<Rightarrow> print_expl pr' m' y"],
      simp add: MatchPrintAndExplain_eq split: option.split)

lemma field_property_good [good_intros]:
  "good m \<Longrightarrow> good (FieldMatcher pr f m)" "good m \<Longrightarrow> good (PropertyMatcher pr f m)"
  unfolding FieldMatcher_def PropertyMatcher_def
  by (rule MonomorphicImpl_good(1) [where p = "\<lambda>x. Matches m (f x)" and e = "\<lambda>x. ''whose given field is '' @ print_expl pr m (f x)"],
      simp add: MatchPrintAndExplain_eq,
      rule MonomorphicImpl_good(1) [where p = "\<lambda>x. Matches m (f x)" and e = "\<lambda>x. ''whose given property is '' @ print_expl pr m (f x)"],
      simp add: MatchPrintAndExplain_eq)

lemma object_pointer_good [good_intros]: "good m \<Longrightarrow> good (object_pointer m)"
  unfolding object_pointer_def
  by (rule MonomorphicImpl_good(1) [where p = "\<lambda>p. case p of None \<Rightarrow> False | Some x \<Rightarrow> Matches m x"
        and e = "\<lambda>p. case p of None \<Rightarrow> [] | Some x \<Rightarrow> ''which points to an object '' @ expl m x"])
    (simp add: good_MAE split: option.split)

lemma ResultOfMatcher_good: "good m \<Longrightarrow> ResultOfMatcher pr c m = Inr m' \<Longrightarrow> good m'"
  by (rule goodI(1) [where p = "\<lambda>x. Matches m (the c x)"
        and e = "\<lambda>x. ''which is mapped by the given callable to '' @ print_expl pr m (the c x)"])
    (auto simp: ResultOfMatcher_def MatchPrintAndExplain_eq split: option.splits)

lemma inner_matches [matches_simps]:
  "good m \<Longrightarrow> Matches (FieldMatcher pr f m) x \<longleftrightarrow> Matches m (f x)"
  "good m \<Longrightarrow> Matches (PropertyMatcher pr f m) x \<longleftrightarrow> Matches m (f x)"
  "good m \<Longrightarrow> ResultOfMatcher pr c m = Inr r \<Longrightarrow> Matches r y \<longleftrightarrow> (\<exists>g. c = Some g \<and> Matches m (g y))"
  "good m \<Longrightarrow> Matches (WhenDynamicCastToMatcher_ref tn pr cast m) z \<longleftrightarrow> (\<exists>v. cast z = Some v \<and> Matches m v)"
  by (simp_all add: FieldMatcher_def PropertyMatcher_def ResultOfMatcher_def
      WhenDynamicCastToMatcher_ref_def WhenDynamicCastToMatcherBase_def MonomorphicImpl_def
      Matches_def [of "\<lparr>MatchAndExplain = x, DescribeTo = y, DescribeNegationTo = z\<rparr>" for x y z]
      MatchPrintAndExplain_eq split: option.splits)
    (auto simp: Matches_def [of "\<lparr>MatchAndExplain = x, DescribeTo = y, DescribeNegationTo = z\<rparr>" for x y z]
      MatchPrintAndExplain_eq)

lemma object_pointer_matches [matches_simps]:
  "Matches (object_pointer m) p \<longleftrightarrow> (\<exists>x. p = Some x \<and> Matches m x)" if "good m"
  unfolding Matches_def [of "object_pointer m"] using that
  by (cases p) (simp_all add: object_pointer_def MonomorphicImpl_def good_MAE)

lemma KeyMatcher_MAE: "good m \<Longrightarrow> MatchAndExplain (KeyMatcher m) kv l =
    (Matches m (fst kv), put (if expl m (fst kv) \<noteq> [] then ''whose first field is a value '' @ expl m (fst kv) else []) l)"
  by (simp add: KeyMatcher_def good_Explained)

definition pair_expl :: "string \<Rightarrow> string \<Rightarrow> string" where
  "pair_expl e1 e2 = ''whose both fields match''
     @ (if e1 \<noteq> [] then '', where the first field is a value '' @ e1 else [])
     @ (if e2 \<noteq> [] then '', '' @ (if e1 \<noteq> [] then ''and '' else ''where '') @ ''the second field is a value '' @ e2 else [])"

lemma PairMatcher_MAE: "good m1 \<Longrightarrow> good m2 \<Longrightarrow> MatchAndExplain (PairMatcher m1 m2) kv l =
    (Matches m1 (fst kv) \<and> Matches m2 (snd kv),
     put (if \<not> Matches m1 (fst kv) then ''whose first field does not match'' @ comma_expl (expl m1 (fst kv))
          else if \<not> Matches m2 (snd kv) then ''whose second field does not match'' @ comma_expl (expl m2 (snd kv))
          else pair_expl (expl m1 (fst kv)) (expl m2 (snd kv))) l)"
  by (cases l) (simp_all add: PairMatcher_def IsInterested_def good_Explained PrintIfNotEmpty_put
      PairMatcher_ExplainSuccess_def pair_expl_def Let_def)

lemma key_pair_good [good_intros]:
  "good m1 \<Longrightarrow> good (KeyMatcher m1)" "good m1 \<Longrightarrow> good m2 \<Longrightarrow> good (PairMatcher m1 m2)"
  by (rule goodI(1), erule KeyMatcher_MAE) (rule goodI(1), erule (1) PairMatcher_MAE)

lemma key_pair_matches [matches_simps]:
  "good m1 \<Longrightarrow> Matches (KeyMatcher m1) kv \<longleftrightarrow> Matches m1 (fst kv)"
  "good m1 \<Longrightarrow> good m2 \<Longrightarrow> Matches (PairMatcher m1 m2) kv \<longleftrightarrow> Matches m1 (fst kv) \<and> Matches m2 (snd kv)"
  by (simp_all add: Matches_def [of "KeyMatcher m1"] Matches_def [of "PairMatcher m1 m2"] KeyMatcher_MAE PairMatcher_MAE)

section \<open>What the matchers promise\<close>

text \<open>The basic matchers keep the interface.\<close>

interpretation any: matcher_interface "MatchAndExplain AnyMatcher"
  by (rule AnyMatcher_good)

interpretation comparison: matcher_interface "MatchAndExplain (ComparisonBase d nd op pr rhs)"
  for d nd op pr rhs
  by (rule ComparisonBase_good)

interpretation str_equality: matcher_interface "MatchAndExplain (StrEqualityMatcher ci pr s eq cs)"
  for ci pr s eq cs
  by (rule string_good)

interpretation floating_eq: matcher_interface "MatchAndExplain (FloatingEqMatcher F e n err)"
  for F e n err
  by (rule FloatingEqMatcher_good)

text \<open>For matchers that keep the interface, \<open>Not\<close>, \<open>AllOf\<close> and \<open>AnyOf\<close> of any number of matchers
  decide the boolean combination of the verdicts, whether or not anybody listens to the explanation.\<close>

theorem logical_matchers_boolean:
  assumes "\<forall>m \<in> set (m1 # m2 # ms). good m"
  shows "fst (MatchAndExplain (NotMatcher m1) x l) = (\<not> Matches m1 x)
    \<and> fst (MatchAndExplain (AllOfMatcher m1 m2 ms) x l) = (\<forall>m \<in> set (m1 # m2 # ms). Matches m x)
    \<and> fst (MatchAndExplain (AnyOfMatcher m1 m2 ms) x l) = (\<exists>m \<in> set (m1 # m2 # ms). Matches m x)"
  using AllOf_facts [OF assms, of x] AnyOf_facts [OF assms, of x] assms
  by (simp add: good_MAE good_intros matches_simps)

theorem logical_matchers_boolean_witness:
  "fst (MatchAndExplain (AllOfMatcher (GtMatcher show_int 2) (LtMatcher show_int 9) [NeMatcher show_int 5]) 7 (Some [])) = True
   \<and> fst (MatchAndExplain (AnyOfMatcher (GtMatcher show_int 2) (LtMatcher show_int 9) [NeMatcher show_int 5]) 7 None) = True
   \<and> fst (MatchAndExplain (NotMatcher (GtMatcher show_int 2)) 7 None) = False"
  using logical_matchers_boolean [of "GtMatcher show_int 2" "LtMatcher show_int 9" "[NeMatcher show_int 5]" 7 "Some []"]
    logical_matchers_boolean [of "GtMatcher show_int 2" "LtMatcher show_int 9" "[NeMatcher show_int 5]" 7 None]
  by (simp add: good_intros matches_simps)

text \<open>\<open>EXPECT_THAT\<close> succeeds exactly when the matcher matches, for the matchers that look into an
  object (a field, a property, the two fields of a pair, the pointee of a pointer) as well as for
  the matcher they are given; and the failure message says what was expected and what the value was.\<close>

theorem expect_that_decides:
  assumes "good m1" "good m2"
  shows "PredicateFormatterFromMatcher pr1 m1 t x =
      (if Matches m1 x then None
       else Some (''Value of: '' @ t @ [CHR 0x0A] @ ''Expected: '' @ DescribeTo m1 @ [CHR 0x0A]
              @ ''  Actual: '' @ print_expl pr1 m1 x))
    \<and> (PredicateFormatterFromMatcher pr2 (PairMatcher m1 m2) t (x, y) = None) = (Matches m1 x \<and> Matches m2 y)
    \<and> (PredicateFormatterFromMatcher pr3 (PointeeMatcher pr1 m1) t p = None) = (\<exists>v. p = Some v \<and> Matches m1 v)
    \<and> (PredicateFormatterFromMatcher pr4 (FieldMatcher pr1 f m1) t obj = None) = Matches m1 (f obj)
    \<and> (PredicateFormatterFromMatcher pr4 (PropertyMatcher pr1 f m1) t obj = None) = Matches m1 (f obj)"
proof -
  have pf: "PredicateFormatterFromMatcher pr m t x =
      (if Matches m x then None
       else Some (''Value of: '' @ t @ [CHR 0x0A] @ ''Expected: '' @ DescribeTo m @ [CHR 0x0A]
              @ ''  Actual: '' @ print_expl pr m x))" if "good m" for pr m t x
    using that by (simp add: PredicateFormatterFromMatcher_def MatchPrintAndExplain_eq listener_str_def)
  show ?thesis using assms by (simp add: pf good_intros matches_simps)
qed

theorem expect_that_decides_witness:
  "PredicateFormatterFromMatcher \<lparr>UniversalPrint = (\<lambda>_. ''...''), GetTypeName = ''pair''\<rparr>
     (PairMatcher (GtMatcher show_int 2) (LtMatcher show_int 9)) ''p'' (3, 4) = None
   \<and> PredicateFormatterFromMatcher \<lparr>UniversalPrint = show_int, GetTypeName = ''int''\<rparr> (GtMatcher show_int 2) ''x'' 1
     = Some (''Value of: x'' @ [CHR 0x0A] @ ''Expected: is > 2'' @ [CHR 0x0A] @ ''  Actual: 1 (of type int)'')"
proof -
  let ?pi = "\<lparr>UniversalPrint = show_int, GetTypeName = ''int''\<rparr>"
  have g: "good (GtMatcher show_int 2)" "good (LtMatcher show_int 9)" by (simp_all add: good_intros)
  have e: "print_expl ?pi (GtMatcher show_int 2) 1 = ''1 (of type int)''" by code_simp
  have d: "DescribeTo (GtMatcher show_int 2) = ''is > 2''" by code_simp
  have "PredicateFormatterFromMatcher ?pi (GtMatcher show_int 2) ''x'' 1 =
      Some (''Value of: x'' @ [CHR 0x0A] @ ''Expected: is > 2'' @ [CHR 0x0A] @ ''  Actual: 1 (of type int)'')"
    using conjunct1 [OF expect_that_decides [OF g, of ?pi "''x''" 1]] by (simp add: matches_simps e d)
  moreover have "PredicateFormatterFromMatcher \<lparr>UniversalPrint = (\<lambda>_. ''...''), GetTypeName = ''pair''\<rparr>
     (PairMatcher (GtMatcher show_int 2) (LtMatcher show_int 9)) ''p'' (3, 4) = None"
    using conjunct1 [OF conjunct2 [OF expect_that_decides [OF g]]] by (simp add: matches_simps)
  ultimately show ?thesis by blast
qed

end
