(* ===== verification/Gmock_Internal_Utils.thy ===== *)
theory Gmock_Internal_Utils
  imports Complex_Main Gmock_Matchers
begin

text \<open>
  The arithmetic type kinds of gmock-internal-utils.h, \<open>LosslessArithmeticConvertible\<close>, and the compile-time
  checks of \<open>SafeMatcherCast\<close> (gmock-matchers.h) that rest on it. Types are values; a static
  assertion that fails is \<open>None\<close>. Sizes, the signedness of \<open>char\<close> and \<open>wchar_t\<close>, and the floating point
  formats are those of a platform, an argument. Main results: between \<open>bool\<close> and the integer types the trait is true
  exactly when every value survives the conversion, and a matcher that \<open>SafeMatcherCast\<close> accepts sees the
  very number it is given.
\<close>

section \<open>Types and kinds\<close>

datatype cpp_type =
    Bool | PlainChar | SignedChar | UnsignedChar | Short | UnsignedShort | Int_t | UnsignedInt | Long | UnsignedLong
  | Wchar_t | Int64 | UInt64 | Float | Double | LongDouble | OtherType

datatype TypeKind = kBool | kInteger | kFloatingPoint | kOther

fun KindOf :: "cpp_type \<Rightarrow> TypeKind" where
  "KindOf Bool = kBool"
| "KindOf PlainChar = kInteger"
| "KindOf SignedChar = kInteger"
| "KindOf UnsignedChar = kInteger"
| "KindOf Short = kInteger"
| "KindOf UnsignedShort = kInteger"
| "KindOf Int_t = kInteger"
| "KindOf UnsignedInt = kInteger"
| "KindOf Long = kInteger"
| "KindOf UnsignedLong = kInteger"
| "KindOf Wchar_t = kInteger"
| "KindOf Int64 = kInteger"
| "KindOf UInt64 = kInteger"
| "KindOf Float = kFloatingPoint"
| "KindOf Double = kFloatingPoint"
| "KindOf LongDouble = kFloatingPoint"
| "KindOf OtherType = kOther"

section \<open>The platform and conversions\<close>

record platform =
  type_size :: "cpp_type \<Rightarrow> nat"
  char_signed :: bool
  wchar_signed :: bool
  precision :: "cpp_type \<Rightarrow> nat"
  min_exp :: "cpp_type \<Rightarrow> int"
  max_exp :: "cpp_type \<Rightarrow> int"
  rounded :: "cpp_type \<Rightarrow> rat \<Rightarrow> rat"

fun signed_type :: "platform \<Rightarrow> cpp_type \<Rightarrow> bool" where
  "signed_type P PlainChar = char_signed P"
| "signed_type P Wchar_t = wchar_signed P"
| "signed_type P SignedChar = True"
| "signed_type P Short = True"
| "signed_type P Int_t = True"
| "signed_type P Long = True"
| "signed_type P Int64 = True"
| "signed_type P _ = False"

definition bits :: "platform \<Rightarrow> cpp_type \<Rightarrow> nat" where
  "bits P T = 8 * type_size P T"

definition int_min :: "platform \<Rightarrow> cpp_type \<Rightarrow> int" where
  "int_min P T = (if signed_type P T then - (2 ^ (bits P T - 1)) else 0)"

definition int_bound :: "platform \<Rightarrow> cpp_type \<Rightarrow> int" where
  "int_bound P T = (if signed_type P T then 2 ^ (bits P T - 1) else 2 ^ bits P T)"

text \<open>Conversion to an integer type wraps around.\<close>

definition wrap :: "platform \<Rightarrow> cpp_type \<Rightarrow> int \<Rightarrow> int" where
  "wrap P T i = (i - int_min P T) mod 2 ^ bits P T + int_min P T"

text \<open>\<open>static_cast<T>(x)\<close> of a number; a fraction is cut off towards zero.\<close>

definition static_cast :: "platform \<Rightarrow> cpp_type \<Rightarrow> rat \<Rightarrow> rat" where
  "static_cast P T x = (case KindOf T of
     kBool \<Rightarrow> if x = 0 then 0 else 1
   | kInteger \<Rightarrow> of_int (wrap P T (if 0 \<le> x then \<lfloor>x\<rfloor> else \<lceil>x\<rceil>))
   | kFloatingPoint \<Rightarrow> rounded P T x
   | kOther \<Rightarrow> x)"

definition IS_SIGNED :: "platform \<Rightarrow> cpp_type \<Rightarrow> bool" where
  "IS_SIGNED P T \<longleftrightarrow> static_cast P T (- 1) < 0"

section \<open>LosslessArithmeticConvertible\<close>

text \<open>The primary template is false; the specialisations are for the kinds they name.\<close>

definition LosslessArithmeticConvertibleImpl :: "platform \<Rightarrow> TypeKind \<Rightarrow> cpp_type \<Rightarrow> TypeKind \<Rightarrow> cpp_type \<Rightarrow> bool" where
  "LosslessArithmeticConvertibleImpl P kFromKind F kToKind U = (case kFromKind of
     kBool \<Rightarrow> F = Bool \<and> (case kToKind of kBool \<Rightarrow> U = Bool | kInteger \<Rightarrow> True | kFloatingPoint \<Rightarrow> True | kOther \<Rightarrow> False)
   | kInteger \<Rightarrow> (case kToKind of
         kInteger \<Rightarrow> (type_size P F < type_size P U \<and> (\<not> IS_SIGNED P F \<or> IS_SIGNED P U)) \<or>
           (type_size P F = type_size P U \<and> IS_SIGNED P F = IS_SIGNED P U)
       | kBool \<Rightarrow> False | kFloatingPoint \<Rightarrow> False | kOther \<Rightarrow> False)
   | kFloatingPoint \<Rightarrow> (case kToKind of
         kFloatingPoint \<Rightarrow> type_size P F \<le> type_size P U
       | kBool \<Rightarrow> False | kInteger \<Rightarrow> False | kOther \<Rightarrow> False)
   | kOther \<Rightarrow> False)"

definition LosslessArithmeticConvertible :: "platform \<Rightarrow> cpp_type \<Rightarrow> cpp_type \<Rightarrow> bool" where
  "LosslessArithmeticConvertible P F U =
     LosslessArithmeticConvertibleImpl P (KindOf F) F (KindOf U) U"

section \<open>SafeMatcherCast\<close>

text \<open>A type as a template argument: whether it is a reference, and the raw type.\<close>

type_synonym arg_type = "bool \<times> cpp_type"

definition SafeMatcherCast ::
  "platform \<Rightarrow> (arg_type \<Rightarrow> arg_type \<Rightarrow> bool) \<Rightarrow> arg_type \<Rightarrow> arg_type \<Rightarrow> rat matcher \<Rightarrow> rat matcher option" where
  "SafeMatcherCast P ImplicitlyConvertible T U matcher =
     (let kTIsOther = (KindOf (snd T) = kOther); kUIsOther = (KindOf (snd U) = kOther) in
      if \<not> ImplicitlyConvertible T U then None
      else if \<not> (fst T \<or> \<not> fst U) then None
      else if \<not> (kTIsOther \<or> kUIsOther \<or> LosslessArithmeticConvertible P (snd T) (snd U)) then None
      else if T = U then Some matcher
      else Some (MatcherCast (static_cast P (snd U)) matcher))"

section \<open>The values of a type\<close>

definition in_type :: "platform \<Rightarrow> cpp_type \<Rightarrow> rat \<Rightarrow> bool" where
  "in_type P T x = (case KindOf T of
     kBool \<Rightarrow> x = 0 \<or> x = 1
   | kInteger \<Rightarrow> (\<exists>i. x = of_int i \<and> int_min P T \<le> i \<and> i < int_bound P T)
   | kFloatingPoint \<Rightarrow> (\<exists>m e. x = of_int m * 2 powi e \<and> \<bar>m\<bar> < 2 ^ precision P T \<and>
       min_exp P T \<le> e \<and> e \<le> max_exp P T)
   | kOther \<Rightarrow> True)"

text \<open>
  What C++ says of any platform: no type is empty, a larger floating point type has every
  value of a smaller one and all have 0 and 1, and converting a number to a floating point type that has it is
  exact.
\<close>

definition standard_platform :: "platform \<Rightarrow> bool" where
  "standard_platform P \<longleftrightarrow> (\<forall>T. 1 \<le> type_size P T) \<and>
     (\<forall>T U. KindOf T = kFloatingPoint \<longrightarrow> KindOf U = kFloatingPoint \<longrightarrow> type_size P T \<le> type_size P U \<longrightarrow>
        precision P T \<le> precision P U \<and> min_exp P U \<le> min_exp P T \<and> max_exp P T \<le> max_exp P U) \<and>
     (\<forall>T. KindOf T = kFloatingPoint \<longrightarrow> 1 \<le> precision P T \<and> min_exp P T \<le> 0 \<and> 0 \<le> max_exp P T) \<and>
     (\<forall>T x. KindOf T = kFloatingPoint \<longrightarrow> in_type P T x \<longrightarrow> rounded P T x = x)"

lemma standardD:
  assumes "standard_platform P"
  shows "1 \<le> type_size P T" and "8 \<le> bits P T"
    and "KindOf T = kFloatingPoint \<Longrightarrow> KindOf U = kFloatingPoint \<Longrightarrow> type_size P T \<le> type_size P U \<Longrightarrow>
        precision P T \<le> precision P U \<and> min_exp P U \<le> min_exp P T \<and> max_exp P T \<le> max_exp P U"
    and "KindOf T = kFloatingPoint \<Longrightarrow> 1 \<le> precision P T \<and> min_exp P T \<le> 0 \<and> 0 \<le> max_exp P T"
    and "KindOf T = kFloatingPoint \<Longrightarrow> in_type P T x \<Longrightarrow> rounded P T x = x"
  using assms unfolding standard_platform_def bits_def by (metis mult.right_neutral mult_le_mono2)+


section \<open>Wrapping keeps exactly the values of the type\<close>

lemma int_bound_min: "8 \<le> bits P T \<Longrightarrow> int_bound P T = int_min P T + 2 ^ bits P T"
  by (cases "bits P T") (simp_all add: int_bound_def int_min_def)

lemma wrap_id_iff:
  assumes "8 \<le> bits P T"
  shows "wrap P T i = i \<longleftrightarrow> int_min P T \<le> i \<and> i < int_bound P T"
proof -
  have pos: "(0::int) < 2 ^ bits P T" by simp
  have "wrap P T i = i \<longleftrightarrow> (i - int_min P T) mod 2 ^ bits P T = i - int_min P T"
    by (auto simp: wrap_def)
  also have "\<dots> \<longleftrightarrow> 0 \<le> i - int_min P T \<and> i - int_min P T < 2 ^ bits P T"
    using pos by (metis mod_pos_pos_trivial pos_mod_bound pos_mod_sign)
  finally show ?thesis using int_bound_min [OF assms] by auto
qed

lemma cut_of_int [simp]: "(if 0 \<le> (of_int i :: rat) then \<lfloor>of_int i :: rat\<rfloor> else \<lceil>of_int i :: rat\<rceil>) = i"
  by simp

lemma static_cast_int:
  assumes "KindOf T = kInteger"
  shows "static_cast P T (of_int i) = of_int (wrap P T i)"
  using assms by (simp add: static_cast_def)

lemma IS_SIGNED_iff:
  assumes "KindOf T = kInteger" and "8 \<le> bits P T"
  shows "IS_SIGNED P T \<longleftrightarrow> signed_type P T"
proof -
  have "IS_SIGNED P T \<longleftrightarrow> wrap P T (- 1) < 0"
    using static_cast_int [OF assms(1), of P "- 1"] by (simp add: IS_SIGNED_def)
  moreover have "wrap P T (- 1) = - 1" if "signed_type P T"
  proof -
    have "(- 1 :: int) < 2 ^ (bits P T - 1)" by (rule less_le_trans [of _ 0]) simp_all
    then show ?thesis using wrap_id_iff [OF assms(2), of "- 1"] that by (simp add: int_min_def int_bound_def)
  qed
  moreover have "0 \<le> wrap P T (- 1)" if "\<not> signed_type P T"
    using that by (simp add: wrap_def int_min_def)
  ultimately show ?thesis by (cases "signed_type P T") auto
qed

text \<open>The ranges of two integer types.\<close>

lemma range_subset_iff:
  assumes "8 \<le> bits P T" and "8 \<le> bits P U"
  shows "(\<forall>i. int_min P T \<le> i \<and> i < int_bound P T \<longrightarrow> int_min P U \<le> i \<and> i < int_bound P U)
    \<longleftrightarrow> int_min P U \<le> int_min P T \<and> int_bound P T \<le> int_bound P U" (is "?l \<longleftrightarrow> ?r")
proof
  assume l: ?l
  have "int_min P T < int_bound P T" using int_bound_min [OF assms(1)] by simp
  with l [rule_format, of "int_min P T"] l [rule_format, of "int_bound P T - 1"] show ?r by auto
qed auto

lemma range_le_iff:
  assumes "standard_platform P"
  shows "int_min P U \<le> int_min P T \<and> int_bound P T \<le> int_bound P U \<longleftrightarrow>
    (type_size P T < type_size P U \<and> (\<not> signed_type P T \<or> signed_type P U)) \<or>
    (type_size P T = type_size P U \<and> signed_type P T = signed_type P U)"
proof -
  define a b where "a = type_size P T" and "b = type_size P U"
  have ab: "1 \<le> a" "1 \<le> b" using standardD(1) [OF assms] by (simp_all add: a_def b_def)
  have pow: "((2::int) ^ m \<le> 2 ^ n) = (m \<le> n)" for m n by simp
  have "8 * a - 1 \<le> 8 * b - 1 \<longleftrightarrow> a \<le> b" "8 * a \<le> 8 * b - 1 \<longleftrightarrow> a < b" using ab by linarith+
  then show ?thesis using ab
    by (cases "signed_type P T"; cases "signed_type P U")
      (auto simp: int_min_def int_bound_def bits_def a_def [symmetric] b_def [symmetric] pow not_le
        intro: less_le_trans [of _ 0])
qed


section \<open>Properties\<close>

lemma lossless_integers:
  assumes "standard_platform P" and "KindOf T = kInteger" and "KindOf U = kInteger"
  shows "LosslessArithmeticConvertible P T U \<longleftrightarrow> (\<forall>x. in_type P T x \<longrightarrow> static_cast P U x = x)"
proof -
  note b = standardD(2) [OF assms(1), of T] standardD(2) [OF assms(1), of U]
  have "(\<forall>x. in_type P T x \<longrightarrow> static_cast P U x = x) \<longleftrightarrow>
      (\<forall>i. int_min P T \<le> i \<and> i < int_bound P T \<longrightarrow> wrap P U i = i)"
    by (auto simp: in_type_def assms(2) static_cast_int [OF assms(3)])
  then show ?thesis
    using range_subset_iff [OF b] range_le_iff [OF assms(1), of U T]
    by (simp add: wrap_id_iff [OF b(2)] LosslessArithmeticConvertible_def LosslessArithmeticConvertibleImpl_def
        assms(2,3) IS_SIGNED_iff [OF assms(2) b(1)] IS_SIGNED_iff [OF assms(3) b(2)])
qed

lemma integer_has:
  assumes "KindOf T = kInteger" and "8 \<le> bits P T" and "0 \<le> i" and "i \<le> 2"
  shows "int_min P T \<le> i" and "i < int_bound P T"
proof -
  have "(2::int) ^ 7 \<le> 2 ^ (bits P T - 1)" "(2::int) ^ 7 \<le> 2 ^ bits P T"
    by (rule power_increasing; use assms(2) in simp)+
  then show "i < int_bound P T" using assms(4) by (simp add: int_bound_def)
  have "int_min P T \<le> 0" by (simp add: int_min_def)
  with assms(3) show "int_min P T \<le> i" by simp
qed

lemma lossless_iff:
  assumes "standard_platform P" and "KindOf T \<in> {kBool, kInteger}" and "KindOf U \<in> {kBool, kInteger}"
  shows "LosslessArithmeticConvertible P T U \<longleftrightarrow> (\<forall>x. in_type P T x \<longrightarrow> static_cast P U x = x)"
proof -
  have bool: "V = Bool" if "KindOf V = kBool" for V using that by (cases V) simp_all
  note b = standardD(2) [OF assms(1)]
  consider "KindOf T = kInteger" "KindOf U = kInteger" | "KindOf T = kInteger" "KindOf U = kBool"
    | "KindOf T = kBool" "KindOf U = kBool" | "KindOf T = kBool" "KindOf U = kInteger" using assms(2,3) by auto
  then show ?thesis
  proof cases
    case 2
    have "in_type P T 2" unfolding in_type_def 2(1)
      using integer_has [OF 2(1) b, of 2] by (auto intro: exI [of _ 2])
    moreover have "static_cast P U 2 \<noteq> 2" by (simp add: static_cast_def 2)
    ultimately show ?thesis
      by (auto simp: LosslessArithmeticConvertible_def LosslessArithmeticConvertibleImpl_def 2)
  next
    case 4
    have "wrap P U 0 = 0" "wrap P U 1 = 1"
      using wrap_id_iff [OF b, of U] integer_has [OF 4(2) b] by simp_all
    with static_cast_int [OF 4(2), of P 0] static_cast_int [OF 4(2), of P 1] show ?thesis
      by (auto simp: LosslessArithmeticConvertible_def LosslessArithmeticConvertibleImpl_def 4 bool [OF 4(1)] in_type_def)
  qed (use lossless_integers [OF assms(1)] in \<open>auto simp: LosslessArithmeticConvertible_def
      LosslessArithmeticConvertibleImpl_def bool in_type_def static_cast_def\<close>)
qed


text \<open>
C37: between \<open>bool\<close> and the integer types \<open>LosslessArithmeticConvertible\<close> is true exactly when the conversion keeps
every value of the source type, on any platform: whatever the sizes of the types, and whether \<open>char\<close> and \<open>wchar_t\<close> are
signed or not.
\<close>

theorem lossless_iff_every_value_survives:
  assumes "standard_platform P" and "KindOf T \<in> {kBool, kInteger}" and "KindOf U \<in> {kBool, kInteger}"
  shows "LosslessArithmeticConvertible P T U \<longleftrightarrow> (\<forall>x. in_type P T x \<longrightarrow> static_cast P U x = x)"
  using assms by (rule lossless_iff)

text \<open>\<open>char\<close> to \<open>wchar_t\<close>, and the other way round, on the platform of the bundled libraries.\<close>

definition x86_64 :: platform where
  "x86_64 = \<lparr>type_size = (\<lambda>T. if T \<in> {Short, UnsignedShort} then 2 else if T \<in> {Int_t, UnsignedInt, Wchar_t, Float} then 4
       else if T \<in> {Long, UnsignedLong, Int64, UInt64, Double} then 8 else if T = LongDouble then 16 else 1),
     char_signed = True, wchar_signed = True,
     precision = (\<lambda>T. if T = Float then 24 else if T = Double then 53 else 64),
     min_exp = (\<lambda>T. if T = Float then - 149 else if T = Double then - 1074 else - 16445),
     max_exp = (\<lambda>T. if T = Float then 104 else if T = Double then 971 else 16320),
     rounded = (\<lambda>T x. x)\<rparr>"

lemma floating_types: "KindOf T = kFloatingPoint \<longleftrightarrow> T \<in> {Float, Double, LongDouble}"
  by (cases T) simp_all

lemma x86_64_standard: "standard_platform x86_64"
  unfolding standard_platform_def by (intro conjI allI impI) (auto simp: x86_64_def floating_types)

lemma x86_64_sizes: "type_size x86_64 PlainChar = 1" "type_size x86_64 Short = 2" "type_size x86_64 Int_t = 4" "type_size x86_64 Wchar_t = 4"
  by (simp_all add: x86_64_def)

lemma x86_64_signed: "IS_SIGNED x86_64 PlainChar" "IS_SIGNED x86_64 Short" "IS_SIGNED x86_64 Int_t" "IS_SIGNED x86_64 Wchar_t"
  using standardD(2) [OF x86_64_standard] by (simp_all add: IS_SIGNED_iff) (simp_all add: x86_64_def)

theorem lossless_iff_every_value_survives_witness:
  "static_cast x86_64 Wchar_t (- 1) = - 1 \<and> (\<exists>x. in_type x86_64 Wchar_t x \<and> static_cast x86_64 PlainChar x \<noteq> x)"
proof
  have "in_type x86_64 PlainChar (- 1)"
    using x86_64_sizes(1) by (simp add: in_type_def int_min_def int_bound_def bits_def x86_64_def exI [of _ "- 1"])
  then show "static_cast x86_64 Wchar_t (- 1) = - 1"
    using lossless_iff_every_value_survives [OF x86_64_standard, of PlainChar Wchar_t]
    by (simp add: LosslessArithmeticConvertible_def LosslessArithmeticConvertibleImpl_def x86_64_sizes x86_64_signed)
  show "\<exists>x. in_type x86_64 Wchar_t x \<and> static_cast x86_64 PlainChar x \<noteq> x"
    using lossless_iff_every_value_survives [OF x86_64_standard, of Wchar_t PlainChar]
    by (simp add: LosslessArithmeticConvertible_def LosslessArithmeticConvertibleImpl_def x86_64_sizes x86_64_signed)
qed

lemma lossless_exact:
  assumes "standard_platform P" and "LosslessArithmeticConvertible P T U" and "in_type P T x"
  shows "static_cast P U x = x"
proof (cases "KindOf U = kFloatingPoint")
  case True
  then have "in_type P U x"
  proof (cases "KindOf T")
    case kBool
    then have "x = of_int 0 \<or> x = of_int 1" using assms(3) by (simp add: in_type_def)
    then obtain m :: int where m: "x = of_int m" "\<bar>m\<bar> \<le> 1" by fastforce
    have pow: "(1::int) < 2 ^ precision P U" using standardD(4) [OF assms(1) True] by (simp add: one_less_power)
    have "x = of_int m * 2 powi 0 \<and> \<bar>m\<bar> < 2 ^ precision P U \<and> min_exp P U \<le> 0 \<and> 0 \<le> max_exp P U"
      using standardD(4) [OF assms(1) True] m(1) le_less_trans [OF m(2) pow] by simp
    then show ?thesis unfolding in_type_def True TypeKind.case by blast
  next
    case kFloatingPoint
    with assms(2) True have "type_size P T \<le> type_size P U"
      by (simp add: LosslessArithmeticConvertible_def LosslessArithmeticConvertibleImpl_def)
    from standardD(3) [OF assms(1) kFloatingPoint True this] have
      le: "(2::int) ^ precision P T \<le> 2 ^ precision P U" "min_exp P U \<le> min_exp P T" "max_exp P T \<le> max_exp P U"
      by (simp_all add: power_increasing)
    from assms(3) kFloatingPoint obtain m e where x: "x = of_int m * 2 powi e" "\<bar>m\<bar> < 2 ^ precision P T"
      "min_exp P T \<le> e" "e \<le> max_exp P T" by (auto simp: in_type_def)
    with less_le_trans [OF x(2) le(1)] order_trans [OF le(2) x(3)] order_trans [OF x(4) le(3)]
    show ?thesis unfolding in_type_def True TypeKind.case by blast
  qed (use assms(2) True in \<open>simp_all add: LosslessArithmeticConvertible_def LosslessArithmeticConvertibleImpl_def\<close>)
  with standardD(5) [OF assms(1) True] True show ?thesis by (simp add: static_cast_def)
next
  case False
  then have "KindOf T \<in> {kBool, kInteger}" "KindOf U \<in> {kBool, kInteger}"
    using assms(2) by (auto simp: LosslessArithmeticConvertible_def LosslessArithmeticConvertibleImpl_def split: TypeKind.splits)
  with lossless_iff [OF assms(1)] assms(2,3) show ?thesis by blast
qed


text \<open>
When \<open>SafeMatcherCast\<close> lets a matcher of one arithmetic type be used for another, the result gives on every value
of the new type the verdict and the explanation that the matcher gives for the same number, whatever listens; a cast
that could change a number does not compile.
\<close>

theorem safe_matcher_cast_keeps_numbers:
  assumes "standard_platform P" and "SafeMatcherCast P conv T U m = Some m'"
    and "KindOf (snd T) \<noteq> kOther" and "KindOf (snd U) \<noteq> kOther" and "in_type P (snd T) x"
  shows "MatchAndExplain m' x l = MatchAndExplain m x l"
proof -
  from assms(2-4) have "LosslessArithmeticConvertible P (snd T) (snd U)"
    by (auto simp: SafeMatcherCast_def Let_def split: if_splits)
  then have "static_cast P (snd U) x = x" using assms(1,5) by (intro lossless_exact)
  with assms(2) show ?thesis by (auto simp: SafeMatcherCast_def Let_def MatcherCast_def split: if_splits)
qed

theorem safe_matcher_cast_keeps_numbers_witness:
  "\<exists>m'. SafeMatcherCast x86_64 (\<lambda>_ _. True) (False, Short) (False, Int_t) (GtMatcher (\<lambda>_. []) (5 :: rat)) = Some m' \<and>
    MatchAndExplain m' 7 None = MatchAndExplain (GtMatcher (\<lambda>_. []) (5 :: rat)) 7 None"
proof -
  have lossless: "LosslessArithmeticConvertible x86_64 Short Int_t"
    by (simp add: LosslessArithmeticConvertible_def LosslessArithmeticConvertibleImpl_def x86_64_sizes x86_64_signed)
  have "in_type x86_64 Short (of_int 7)" unfolding in_type_def
    by (auto simp: int_min_def int_bound_def bits_def x86_64_sizes intro!: exI [of _ 7])
  moreover have "SafeMatcherCast x86_64 (\<lambda>_ _. True) (False, Short) (False, Int_t) (GtMatcher (\<lambda>_. []) (5 :: rat))
      = Some (MatcherCast (static_cast x86_64 Int_t) (GtMatcher (\<lambda>_. []) (5 :: rat)))"
    by (simp add: SafeMatcherCast_def lossless)
  ultimately show ?thesis
    using safe_matcher_cast_keeps_numbers [OF x86_64_standard, of "\<lambda>_ _. True" "(False, Short)" "(False, Int_t)" _ _ 7 None]
    by simp
qed

end
