(* ===== verification/Gmock_Containers.thy ===== *)
theory Gmock_Containers
  imports Gmock_Matchers
begin

text \<open>
  The container matchers of \<open>gmock/gmock-matchers.h\<close>: \<open>SizeIs\<close>, \<open>BeginEndDistanceIs\<close>, \<open>ContainerEq\<close>,
  \<open>WhenSortedBy\<close>, \<open>Pointwise\<close>, \<open>Contains\<close>, \<open>Each\<close>, \<open>ElementsAre\<close>, the match matrix and
  \<open>UnorderedElementsAre\<close>. An STL-style container is the list of its elements. The bipartite
  matching of the compiled library is an argument, with its contract as a hypothesis.
\<close>

section \<open>Sizes\<close>

text \<open>The explanation both size matchers share: \<open>what\<close> is what is measured.\<close>

definition measure_MatchAndExplain :: "string \<Rightarrow> ('n \<Rightarrow> string) \<Rightarrow> 'n matcher \<Rightarrow> 'n \<Rightarrow> listener \<Rightarrow> bool \<times> listener" where
  "measure_MatchAndExplain what pn m n l =
     (let (result, e) = Explained m n
      in (result, PrintIfNotEmpty e (put (what @ pn n @ (if result then '' matches'' else '' doesn't match'')) l)))"

definition SizeIsMatcher :: "nat matcher \<Rightarrow> 'a list matcher" where
  "SizeIsMatcher m =
     \<lparr>MatchAndExplain = (\<lambda>container l. measure_MatchAndExplain ''whose size '' show_nat m (length container) l),
      DescribeTo = ''size '' @ DescribeTo m, DescribeNegationTo = ''size '' @ DescribeNegationTo m\<rparr>"

definition BeginEndDistanceIsMatcher :: "int matcher \<Rightarrow> 'a list matcher" where
  "BeginEndDistanceIsMatcher m =
     \<lparr>MatchAndExplain = (\<lambda>container l.
        measure_MatchAndExplain ''whose distance between begin() and end() '' show_int m (int (length container)) l),
      DescribeTo = ''distance between begin() and end() '' @ DescribeTo m,
      DescribeNegationTo = ''distance between begin() and end() '' @ DescribeNegationTo m\<rparr>"

lemma measure_eq: "good m \<Longrightarrow> measure_MatchAndExplain what pn m n l =
    (Matches m n, put (what @ pn n @ (if Matches m n then '' matches'' else '' doesn't match'') @ comma_expl (expl m n)) l)"
  by (simp add: measure_MatchAndExplain_def good_Explained PrintIfNotEmpty_put)

lemma size_good [good_intros]:
  "good m \<Longrightarrow> good (SizeIsMatcher m)" "good m' \<Longrightarrow> good (BeginEndDistanceIsMatcher m')"
  by (rule goodI(1), simp add: SizeIsMatcher_def measure_eq)
    (rule goodI(1), simp add: BeginEndDistanceIsMatcher_def measure_eq)

lemma size_matches [matches_simps]:
  "good m \<Longrightarrow> Matches (SizeIsMatcher m) xs \<longleftrightarrow> Matches m (length xs)"
  "good m' \<Longrightarrow> Matches (BeginEndDistanceIsMatcher m') xs \<longleftrightarrow> Matches m' (int (length xs))"
  unfolding Matches_def [of "SizeIsMatcher m"] Matches_def [of "BeginEndDistanceIsMatcher m'"]
  by (simp_all add: SizeIsMatcher_def BeginEndDistanceIsMatcher_def measure_eq)

section \<open>Equality of containers\<close>

text \<open>
  One of the two loops that list the elements of a container not found in another: whether the
  header was printed, and the stream.
\<close>

fun list_absent :: "('a \<Rightarrow> string) \<Rightarrow> string \<Rightarrow> 'a list \<Rightarrow> 'a list \<Rightarrow> bool \<Rightarrow> string \<Rightarrow> bool \<times> string" where
  "list_absent pr header other [] printed os = (printed, os)"
| "list_absent pr header other (x # xs) printed os =
     (if x \<notin> set other
      then list_absent pr header other xs True (os @ (if printed then '', '' else header) @ pr x)
      else list_absent pr header other xs printed os)"

definition ContainerEqMatcher :: "('a \<Rightarrow> string) \<Rightarrow> ('a list \<Rightarrow> string) \<Rightarrow> 'a list \<Rightarrow> 'a list matcher" where
  "ContainerEqMatcher pr prs expected = MonomorphicImpl
     (\<lambda>lhs l. if lhs = expected then (True, l)
        else (False, case l of
           None \<Rightarrow> None
         | Some os \<Rightarrow>
             let (printed, os1) = list_absent pr ''which has these unexpected elements: '' expected lhs False os;
                 (printed2, os2) = list_absent pr ((if printed then '','' @ [CHR 0x0A] @ ''and'' else ''which'')
                   @ '' doesn't have these expected elements: '') lhs expected False os1
             in Some os2))
     (''equals '' @ prs expected) (''does not equal '' @ prs expected)"

lemma list_absent_append:
  "list_absent pr h other xs p os =
     (p \<or> (\<exists>x \<in> set xs. x \<notin> set other), os @ snd (list_absent pr h other xs p []))"
proof (induction xs arbitrary: p os)
  case (Cons x xs)
  show ?case
  proof (cases "x \<in> set other")
    case False
    let ?t = "(if p then '', '' else h) @ pr x"
    show ?thesis
      using False Cons.IH [of True "os @ ?t"] Cons.IH [of True ?t] by simp
  qed (use Cons.IH [of p os] in auto)
qed simp

definition absent :: "('a \<Rightarrow> string) \<Rightarrow> string \<Rightarrow> 'a list \<Rightarrow> 'a list \<Rightarrow> string" where
  "absent pr h other xs = snd (list_absent pr h other xs False [])"

lemma list_absent_eq:
  "list_absent pr h other xs False os = (\<exists>x \<in> set xs. x \<notin> set other, os @ absent pr h other xs)"
  using list_absent_append [of pr h other xs False os] by (simp add: absent_def)

lemma ContainerEqMatcher_good [good_intros]: "good (ContainerEqMatcher pr prs expected)"
  unfolding ContainerEqMatcher_def
  by (rule MonomorphicImpl_good(1) [where p = "\<lambda>lhs. lhs = expected"
        and e = "\<lambda>lhs. if lhs = expected then [] else
          absent pr ''which has these unexpected elements: '' expected lhs
          @ absent pr ((if \<exists>x \<in> set lhs. x \<notin> set expected then '','' @ [CHR 0x0A] @ ''and'' else ''which'')
              @ '' doesn't have these expected elements: '') lhs expected"])
    (simp add: list_absent_eq split: option.split)

lemma ContainerEqMatcher_matches [matches_simps]: "Matches (ContainerEqMatcher pr prs expected) xs \<longleftrightarrow> xs = expected"
  by (simp add: Matches_def ContainerEqMatcher_def MonomorphicImpl_def)

section \<open>Sorted and pointwise\<close>

text \<open>\<open>srt\<close> is what \<open>std::sort\<close> with the comparator makes of the copy.\<close>

definition WhenSortedByMatcher :: "('a list \<Rightarrow> string) \<Rightarrow> ('a list \<Rightarrow> 'a list) \<Rightarrow> 'a list matcher \<Rightarrow> 'a list matcher" where
  "WhenSortedByMatcher prs srt m =
     \<lparr>MatchAndExplain = (\<lambda>lhs l.
        let sorted_container = srt lhs
        in if \<not> IsInterested l then (Matches m sorted_container, l)
           else let l1 = put '' when sorted'' (put (prs sorted_container) (put ''which is '' l));
                    (match, e) = Explained m sorted_container
                in (match, PrintIfNotEmpty e l1)),
      DescribeTo = ''(when sorted) '' @ DescribeTo m,
      DescribeNegationTo = ''(when sorted) '' @ DescribeNegationTo m\<rparr>"

fun pointwise_loop ::
  "('a \<Rightarrow> string) \<Rightarrow> ('b \<Rightarrow> string) \<Rightarrow> ('a \<times> 'b) matcher \<Rightarrow> nat \<Rightarrow> 'a list \<Rightarrow> 'b list \<Rightarrow> listener \<Rightarrow> bool \<times> listener" where
  "pointwise_loop pa pb m i (x # xs) (y # ys) l =
     (if IsInterested l
      then let (b, e) = Explained m (x, y)
           in if \<not> b then (False, PrintIfNotEmpty e (put (''where the value pair ('' @ pa x @ '', '' @ pb y
                  @ '') at index #'' @ show_nat i @ '' don't match'') l))
              else pointwise_loop pa pb m (i + 1) xs ys l
      else if \<not> Matches m (x, y) then (False, l)
      else pointwise_loop pa pb m (i + 1) xs ys l)"
| "pointwise_loop pa pb m i xs ys l = (True, l)"

definition PointwiseMatcher ::
  "('a \<Rightarrow> string) \<Rightarrow> ('b \<Rightarrow> string) \<Rightarrow> ('b list \<Rightarrow> string) \<Rightarrow> ('a \<times> 'b) matcher \<Rightarrow> 'b list \<Rightarrow> 'a list matcher" where
  "PointwiseMatcher pa pb pbs m rhs =
     \<lparr>MatchAndExplain = (\<lambda>lhs l.
        if length lhs \<noteq> length rhs then (False, put (''which contains '' @ show_nat (length lhs) @ '' values'') l)
        else pointwise_loop pa pb m 0 lhs rhs l),
      DescribeTo = ''contains '' @ show_nat (length rhs)
        @ '' values, where each value and its corresponding value in '' @ pbs rhs @ '' '' @ DescribeTo m,
      DescribeNegationTo = ''doesn't contain exactly '' @ show_nat (length rhs)
        @ '' values, or contains a value x at some index i where x and the i-th value of '' @ pbs rhs @ '' ''
        @ DescribeNegationTo m\<rparr>"

lemma WhenSortedBy_MAE: "good m \<Longrightarrow> MatchAndExplain (WhenSortedByMatcher prs srt m) xs l =
    (Matches m (srt xs), put (''which is '' @ prs (srt xs) @ '' when sorted'' @ comma_expl (expl m (srt xs))) l)"
  by (cases l) (simp_all add: WhenSortedByMatcher_def IsInterested_def good_Explained PrintIfNotEmpty_put Let_def)

fun pw_expl :: "('a \<Rightarrow> string) \<Rightarrow> ('b \<Rightarrow> string) \<Rightarrow> ('a \<times> 'b) matcher \<Rightarrow> nat \<Rightarrow> 'a list \<Rightarrow> 'b list \<Rightarrow> string" where
  "pw_expl pa pb m i (x # xs) (y # ys) =
     (if Matches m (x, y) then pw_expl pa pb m (i + 1) xs ys
      else ''where the value pair ('' @ pa x @ '', '' @ pb y @ '') at index #'' @ show_nat i
        @ '' don't match'' @ comma_expl (expl m (x, y)))"
| "pw_expl pa pb m i xs ys = []"

lemma pointwise_loop_eq: "good m \<Longrightarrow> length xs = length ys \<Longrightarrow>
    pointwise_loop pa pb m i xs ys l =
      (list_all2 (\<lambda>x y. Matches m (x, y)) xs ys, put (pw_expl pa pb m i xs ys) l)"
proof (induction xs ys arbitrary: i rule: list_induct2')
  case (4 x xs y ys)
  then show ?case
    by (cases l) (simp_all add: IsInterested_def good_Explained PrintIfNotEmpty_put)
qed simp_all

lemma Pointwise_MAE: "good m \<Longrightarrow> MatchAndExplain (PointwiseMatcher pa pb pbs m rhs) xs l =
    (list_all2 (\<lambda>x y. Matches m (x, y)) xs rhs,
     put (if length xs \<noteq> length rhs then ''which contains '' @ show_nat (length xs) @ '' values''
          else pw_expl pa pb m 0 xs rhs) l)"
  by (auto simp: PointwiseMatcher_def pointwise_loop_eq dest: list_all2_lengthD)

section \<open>Contains and Each\<close>

fun QuantifierMatcher_loop :: "bool \<Rightarrow> 'a matcher \<Rightarrow> nat \<Rightarrow> 'a list \<Rightarrow> listener \<Rightarrow> bool \<times> listener" where
  "QuantifierMatcher_loop all_should_match m i [] l = (all_should_match, l)"
| "QuantifierMatcher_loop all_should_match m i (x # xs) l =
     (let (b, e) = Explained m x
      in if b \<noteq> all_should_match
         then (\<not> all_should_match, PrintIfNotEmpty e (put (''whose element #'' @ show_nat i
                @ (if b then '' matches'' else '' doesn't match'')) l))
         else QuantifierMatcher_loop all_should_match m (i + 1) xs l)"

definition ContainsMatcher :: "'a matcher \<Rightarrow> 'a list matcher" where
  "ContainsMatcher m =
     \<lparr>MatchAndExplain = QuantifierMatcher_loop False m 0,
      DescribeTo = ''contains at least one element that '' @ DescribeTo m,
      DescribeNegationTo = ''doesn't contain any element that '' @ DescribeTo m\<rparr>"

definition EachMatcher :: "'a matcher \<Rightarrow> 'a list matcher" where
  "EachMatcher m =
     \<lparr>MatchAndExplain = QuantifierMatcher_loop True m 0,
      DescribeTo = ''only contains elements that '' @ DescribeTo m,
      DescribeNegationTo = ''contains some element that '' @ DescribeNegationTo m\<rparr>"

fun quant_expl :: "bool \<Rightarrow> 'a matcher \<Rightarrow> nat \<Rightarrow> 'a list \<Rightarrow> string" where
  "quant_expl a m i [] = []"
| "quant_expl a m i (x # xs) =
     (if Matches m x \<noteq> a
      then ''whose element #'' @ show_nat i @ (if Matches m x then '' matches'' else '' doesn't match'')
        @ comma_expl (expl m x)
      else quant_expl a m (i + 1) xs)"

lemma QuantifierMatcher_eq: "good m \<Longrightarrow> QuantifierMatcher_loop a m i xs l =
    (if a then \<forall>x \<in> set xs. Matches m x else \<exists>x \<in> set xs. Matches m x, put (quant_expl a m i xs) l)"
  by (induction xs arbitrary: i) (auto simp: good_Explained PrintIfNotEmpty_put)

lemma sequence_good [good_intros]:
  "good m \<Longrightarrow> good (WhenSortedByMatcher prs srt m)"
  "good m' \<Longrightarrow> good (PointwiseMatcher pa pb pbs m' rhs)"
  "good m'' \<Longrightarrow> good (ContainsMatcher m'')" "good m'' \<Longrightarrow> good (EachMatcher m'')"
  by (rule goodI(1), erule WhenSortedBy_MAE, rule goodI(1), erule Pointwise_MAE,
      rule goodI(1), simp add: ContainsMatcher_def QuantifierMatcher_eq,
      rule goodI(1), simp add: EachMatcher_def QuantifierMatcher_eq)

section \<open>ElementsAre\<close>

definition Elements :: "nat \<Rightarrow> string" where
  "Elements count = show_nat count @ (if count = 1 then '' element'' else '' elements'')"

text \<open>
  The loop over elements and matchers in pairs: the position where it stops, whether it stopped at a
  mismatch, the explanations collected, and the elements not consumed.
\<close>

fun elements_are_scan ::
  "bool \<Rightarrow> 'a matcher list \<Rightarrow> 'a list \<Rightarrow> nat \<Rightarrow> string list \<Rightarrow> nat \<times> bool \<times> string list \<times> 'a list" where
  "elements_are_scan interested (m # ms) (x # xs) pos explanations =
     (let (match, s) = (if interested then Explained m x else (Matches m x, []));
          explanations' = (if interested then explanations[pos := s] else explanations)
      in if \<not> match then (pos, True, explanations', x # xs)
         else elements_are_scan interested ms xs (pos + 1) explanations')"
| "elements_are_scan interested ms xs pos explanations = (pos, False, explanations, xs)"

fun elements_are_reasons :: "nat \<Rightarrow> string list \<Rightarrow> bool \<Rightarrow> listener \<Rightarrow> listener" where
  "elements_are_reasons i [] reason_printed l = l"
| "elements_are_reasons i (s # ss) reason_printed l =
     (if s \<noteq> []
      then elements_are_reasons (i + 1) ss True
             (put (''whose element #'' @ show_nat i @ '' matches, '' @ s)
               (if reason_printed then put ('','' @ [CHR 0x0A] @ ''and '') l else l))
      else elements_are_reasons (i + 1) ss reason_printed l)"

definition ElementsAre_MatchAndExplain :: "'a matcher list \<Rightarrow> 'a list \<Rightarrow> listener \<Rightarrow> bool \<times> listener" where
  "ElementsAre_MatchAndExplain ms container l =
     (let interested = IsInterested l;
          (exam_pos, mismatch_found, explanations, rest) =
            elements_are_scan interested ms container 0 (replicate (length ms) []);
          actual_count = exam_pos + length rest
      in if actual_count \<noteq> length ms
         then (False, if interested \<and> actual_count \<noteq> 0 then put (''which has '' @ Elements actual_count) l else l)
         else if mismatch_found
         then (False, if interested
                      then PrintIfNotEmpty (explanations ! exam_pos)
                             (put (''whose element #'' @ show_nat exam_pos @ '' doesn't match'') l)
                      else l)
         else (True, if interested then elements_are_reasons 0 explanations False l else l))"

fun describe_elements :: "string \<Rightarrow> nat \<Rightarrow> string list \<Rightarrow> string" where
  "describe_elements sep i [] = []"
| "describe_elements sep i (d # ds) =
     ''element #'' @ show_nat i @ '' '' @ d @ (if ds \<noteq> [] then sep else []) @ describe_elements sep (i + 1) ds"

definition ElementsAreMatcher :: "'a matcher list \<Rightarrow> 'a list matcher" where
  "ElementsAreMatcher ms =
     \<lparr>MatchAndExplain = ElementsAre_MatchAndExplain ms,
      DescribeTo =
        (if length ms = 0 then ''is empty''
         else if length ms = 1 then ''has 1 element that '' @ DescribeTo (ms ! 0)
         else ''has '' @ Elements (length ms) @ '' where'' @ [CHR 0x0A]
           @ describe_elements ('','' @ [CHR 0x0A]) 0 (map DescribeTo ms)),
      DescribeNegationTo =
        (if length ms = 0 then ''isn't empty''
         else ''doesn't have '' @ Elements (length ms) @ '', or'' @ [CHR 0x0A]
           @ describe_elements ('', or'' @ [CHR 0x0A]) 0 (map DescribeNegationTo ms))\<rparr>"

text \<open>The outcome of the scan, apart from the explanations, does not depend on the listener.\<close>

lemma scan_verdict:
  assumes "\<forall>m \<in> set ms. good m"
  shows "\<exists>pos' ex' rest mis. elements_are_scan b ms xs pos ex = (pos', mis, ex', rest)
     \<and> (mis \<longleftrightarrow> rest \<noteq> [] \<and> pos' < pos + length ms)
     \<and> pos' + length rest = pos + length xs
     \<and> (\<not> mis \<and> length xs = length ms \<longleftrightarrow> list_all2 Matches ms xs)"
  using assms
proof (induction b ms xs pos ex rule: elements_are_scan.induct)
  case (1 b m ms x xs pos ex)
  have m: "Explained m x = (Matches m x, expl m x)" using 1 by (simp add: good_Explained)
  show ?case
  proof (cases "Matches m x")
    case False
    then show ?thesis using m by (simp add: Let_def)
  next
    case True
    let ?ex = "if b then ex[pos := expl m x] else ex"
    have "elements_are_scan b (m # ms) (x # xs) pos ex = elements_are_scan b ms xs (pos + 1) ?ex"
      using m True by (simp add: Let_def)
    moreover have "\<exists>pos' ex' rest mis. elements_are_scan b ms xs (pos + 1) ?ex = (pos', mis, ex', rest)
       \<and> (mis \<longleftrightarrow> rest \<noteq> [] \<and> pos' < pos + 1 + length ms)
       \<and> pos' + length rest = pos + 1 + length xs
       \<and> (\<not> mis \<and> length xs = length ms \<longleftrightarrow> list_all2 Matches ms xs)"
      using 1 m True by (cases b) auto
    ultimately show ?thesis using True by auto
  qed
qed auto

lemma reasons_put: "elements_are_reasons i ss p l = put (listener_str (elements_are_reasons i ss p (Some []))) l"
proof (induction ss arbitrary: i p l)
  case (Cons s ss)
  define t where "t = (if p then '','' @ [CHR 0x0A] @ ''and '' else []) @ ''whose element #'' @ show_nat i @ '' matches, '' @ s"
  have step: "elements_are_reasons i (s # ss) p l =
      (if s \<noteq> [] then elements_are_reasons (i + 1) ss True (put t l) else elements_are_reasons (i + 1) ss p l)" for l
    by (simp add: t_def)
  show ?case
  proof (cases "s = []")
    case False
    then show ?thesis
      using Cons.IH [of "i + 1" True "put t l"] Cons.IH [of "i + 1" True "Some t"]
      unfolding step by (simp add: listener_str_def)
  qed (use Cons.IH [of "i + 1" p l] in \<open>simp add: step\<close>)
qed (simp add: listener_str_def)

lemma ElementsAre_verdict:
  assumes "\<forall>m \<in> set ms. good m"
  shows "fst (ElementsAre_MatchAndExplain ms xs l) \<longleftrightarrow> list_all2 Matches ms xs"
proof -
  obtain p ex r mis where s: "elements_are_scan (IsInterested l) ms xs 0 (replicate (length ms) []) = (p, mis, ex, r)"
      "p + length r = length xs" "\<not> mis \<and> length xs = length ms \<longleftrightarrow> list_all2 Matches ms xs"
    using scan_verdict [OF assms, of "IsInterested l" xs 0 "replicate (length ms) []"] by auto
  then show ?thesis by (auto simp: ElementsAre_MatchAndExplain_def Let_def)
qed

lemma ElementsAreMatcher_good [good_intros]:
  assumes "\<forall>m \<in> set ms. good m"
  shows "good (ElementsAreMatcher ms)"
proof
  fix xs s
  show "snd (MatchAndExplain (ElementsAreMatcher ms) xs None) = None"
    by (simp add: ElementsAreMatcher_def ElementsAre_MatchAndExplain_def IsInterested_def Let_def case_prod_beta)
  show "fst (MatchAndExplain (ElementsAreMatcher ms) xs (Some s)) = fst (MatchAndExplain (ElementsAreMatcher ms) xs None)"
    by (simp add: ElementsAreMatcher_def ElementsAre_verdict [OF assms])
  show "snd (MatchAndExplain (ElementsAreMatcher ms) xs (Some s)) =
      put (listener_str (snd (MatchAndExplain (ElementsAreMatcher ms) xs (Some [])))) (Some s)"
    using reasons_put [of 0 _ False "Some s"]
    by (simp add: ElementsAreMatcher_def ElementsAre_MatchAndExplain_def IsInterested_def Let_def case_prod_beta
        PrintIfNotEmpty_put listener_str_def)
qed

text \<open>\<open>ElementsAre(m_1, ..., m_n)\<close> matches a container exactly when it has n elements and each element
  matches the matcher at its position, for an interested and for an uninterested listener, although the
  loop stops at the first mismatch and at the end of the shorter of the two.\<close>

theorem ElementsAre_matches_elementwise:
  assumes "\<forall>m \<in> set ms. good m"
  shows "fst (MatchAndExplain (ElementsAreMatcher ms) xs l) = list_all2 Matches ms xs"
  using ElementsAre_verdict [OF assms] by (simp add: ElementsAreMatcher_def)

theorem ElementsAre_matches_elementwise_witness:
  "fst (MatchAndExplain (ElementsAreMatcher [GtMatcher show_int 2, EqMatcher show_int 5]) [3, 5] (Some [])) = True
   \<and> fst (MatchAndExplain (ElementsAreMatcher [GtMatcher show_int 2, EqMatcher show_int 5]) [3, 5, 6] None) = False"
proof -
  have g: "\<forall>m \<in> set [GtMatcher show_int 2, EqMatcher show_int 5]. good m" by (simp add: good_intros)
  show ?thesis
    using ElementsAre_matches_elementwise [OF g, of "[3, 5]" "Some []"]
      ElementsAre_matches_elementwise [OF g, of "[3, 5, 6]" None] by (simp add: matches_simps)
qed

text \<open>\<open>Contains\<close>, \<open>Each\<close>, \<open>Pointwise\<close>, \<open>SizeIs\<close> and \<open>WhenSortedBy\<close> decide the quantified property their
  descriptions state, for every listener: the short cuts taken when nobody listens do not change a verdict.\<close>

theorem container_matchers_decide:
  assumes "good m" "good pm" "good sm" "good cm"
  shows "fst (MatchAndExplain (ContainsMatcher m) xs l) = (\<exists>x \<in> set xs. Matches m x)
    \<and> fst (MatchAndExplain (EachMatcher m) xs l) = (\<forall>x \<in> set xs. Matches m x)
    \<and> fst (MatchAndExplain (PointwiseMatcher pa pb pbs pm rhs) xs l) = list_all2 (\<lambda>x y. Matches pm (x, y)) xs rhs
    \<and> fst (MatchAndExplain (SizeIsMatcher sm) xs l) = Matches sm (length xs)
    \<and> fst (MatchAndExplain (WhenSortedByMatcher prs srt cm) xs l) = Matches cm (srt xs)"
  using assms
  by (simp add: ContainsMatcher_def EachMatcher_def QuantifierMatcher_eq Pointwise_MAE WhenSortedBy_MAE
      SizeIsMatcher_def measure_eq)

theorem container_matchers_decide_witness:
  "fst (MatchAndExplain (ContainsMatcher (GtMatcher show_int 2)) [1, 3] None) = True
   \<and> fst (MatchAndExplain (EachMatcher (GtMatcher show_int 2)) [1, 3] None) = False
   \<and> fst (MatchAndExplain (PointwiseMatcher show_int show_int (\<lambda>_. []) Lt2Matcher [2, 4]) [1, 3] None) = True
   \<and> fst (MatchAndExplain (SizeIsMatcher (EqMatcher show_nat 2)) [1 :: int, 3] None) = True
   \<and> fst (MatchAndExplain (WhenSortedByMatcher (\<lambda>_. []) sort (ContainerEqMatcher show_int (\<lambda>_. []) [1, 3])) [1, 3] None) = True"
  using container_matchers_decide [of "GtMatcher show_int 2" Lt2Matcher "EqMatcher show_nat 2"
      "ContainerEqMatcher show_int (\<lambda>_. []) [1, 3]" "[1, 3]" None show_int show_int "\<lambda>_. []" "[2, 4]" "\<lambda>_. []" sort]
  by (simp add: good_intros matches_simps Lt2Matcher_def)

section \<open>The match matrix\<close>

record match_matrix =
  num_elements :: nat
  num_matchers :: nat
  matched :: "bool list"

definition MatchMatrix :: "nat \<Rightarrow> nat \<Rightarrow> match_matrix" where
  "MatchMatrix ne nm = \<lparr>num_elements = ne, num_matchers = nm, matched = replicate (ne * nm) False\<rparr>"

definition SpaceIndex :: "match_matrix \<Rightarrow> nat \<Rightarrow> nat \<Rightarrow> nat" where
  "SpaceIndex mm ilhs irhs = ilhs * num_matchers mm + irhs"

definition HasEdge :: "match_matrix \<Rightarrow> nat \<Rightarrow> nat \<Rightarrow> bool res" where
  "HasEdge mm ilhs irhs = (if SpaceIndex mm ilhs irhs < length (matched mm)
     then Inr (matched mm ! SpaceIndex mm ilhs irhs) else Inl OutOfBounds)"

definition SetEdge :: "nat \<Rightarrow> nat \<Rightarrow> bool \<Rightarrow> match_matrix \<Rightarrow> match_matrix res" where
  "SetEdge ilhs irhs b mm = (if SpaceIndex mm ilhs irhs < length (matched mm)
     then Inr (mm\<lparr>matched := (matched mm)[SpaceIndex mm ilhs irhs := b]\<rparr>) else Inl OutOfBounds)"

text \<open>
  \<open>AnalyzeElements\<close>: the verdicts of all matchers on all elements in one vector, element by
  element, and then the two nested loops that copy them into the matrix. \<open>did_match\<close> in the loops is
  what the iterator has not consumed yet; reading past its end leaves defined behaviour.
\<close>

definition did_match_vector :: "'a matcher list \<Rightarrow> 'a list \<Rightarrow> bool list" where
  "did_match_vector ms xs = concat (map (\<lambda>x. map (\<lambda>m. MatcherAsPredicate id m x) ms) xs)"

function set_row :: "nat \<Rightarrow> nat \<Rightarrow> nat \<Rightarrow> bool list \<Rightarrow> match_matrix \<Rightarrow> (bool list \<times> match_matrix) res" where
  "set_row ilhs irhs n bits mm =
     (if irhs < n
      then case bits of
          [] \<Rightarrow> Inl OutOfBounds
        | b # bs \<Rightarrow> bindr (SetEdge ilhs irhs b mm) (\<lambda>mm'. set_row ilhs (irhs + 1) n bs mm')
      else Inr (bits, mm))"
  by pat_completeness auto
termination
  by (relation "measure (\<lambda>(ilhs, irhs, n, bits, mm). n - irhs)") auto

function set_rows :: "nat \<Rightarrow> nat \<Rightarrow> nat \<Rightarrow> bool list \<Rightarrow> match_matrix \<Rightarrow> match_matrix res" where
  "set_rows ilhs ne n bits mm =
     (if ilhs < ne
      then bindr (set_row ilhs 0 n bits mm) (\<lambda>(bits', mm'). set_rows (ilhs + 1) ne n bits' mm')
      else Inr mm)"
  by pat_completeness auto
termination
  by (relation "measure (\<lambda>(ilhs, ne, n, bits, mm). ne - ilhs)") auto

declare set_row.simps [simp del] set_rows.simps [simp del]

definition AnalyzeElements :: "('a \<Rightarrow> string) \<Rightarrow> 'a matcher list \<Rightarrow> 'a list \<Rightarrow> listener \<Rightarrow> (match_matrix \<times> string list) res" where
  "AnalyzeElements pr ms xs l =
     bindr (set_rows 0 (length xs) (length ms) (did_match_vector ms xs) (MatchMatrix (length xs) (length ms)))
       (\<lambda>mm. Inr (mm, if IsInterested l then map pr xs else []))"

text \<open>
  \<open>verify\<close> and \<open>pairing\<close> are \<open>VerifyAllElementsAndMatchersAreMatched\<close> and \<open>FindPairing\<close> of the
  compiled library, \<open>d\<close> and \<open>nd\<close> its descriptions.
\<close>

definition Unordered_Elements :: "nat \<Rightarrow> string" where
  "Unordered_Elements n = show_nat n @ '' element'' @ (if n = 1 then [] else ''s'')"

definition UnorderedElementsAre_MatchAndExplain ::
  "('a \<Rightarrow> string) \<Rightarrow> (string list \<Rightarrow> match_matrix \<Rightarrow> listener \<Rightarrow> bool \<times> listener) \<Rightarrow>
   (match_matrix \<Rightarrow> listener \<Rightarrow> bool \<times> listener) \<Rightarrow> 'a matcher list \<Rightarrow> 'a list \<Rightarrow> listener \<Rightarrow> (bool \<times> listener) res" where
  "UnorderedElementsAre_MatchAndExplain pr verify pairing ms xs l =
     bindr (AnalyzeElements pr ms xs l) (\<lambda>(matrix, element_printouts).
       let actual_count = num_elements matrix
       in if actual_count = 0 \<and> ms = [] then Inr (True, l)
          else if actual_count \<noteq> length ms
          then Inr (False, if actual_count \<noteq> 0 \<and> IsInterested l
                           then put (''which has '' @ Unordered_Elements actual_count) l else l)
          else let (v, l1) = verify element_printouts matrix l
               in if \<not> v then Inr (False, l1) else Inr (pairing matrix l1))"

text \<open>\<open>UnorderedPointwise\<close>: one matcher for each value on the right, which matches a value that makes a matching pair with it.\<close>

definition BoundSecondMatcher :: "('b \<Rightarrow> string) \<Rightarrow> ('a \<times> 'b) matcher \<Rightarrow> 'b \<Rightarrow> 'a matcher" where
  "BoundSecondMatcher pb tm second =
     \<lparr>MatchAndExplain = (\<lambda>x l. MatchAndExplain tm (x, second) l),
      DescribeTo = ''and '' @ pb second @ '' '' @ DescribeTo tm,
      DescribeNegationTo = default_DescribeNegationTo (''and '' @ pb second @ '' '' @ DescribeTo tm)\<rparr>"

definition UnorderedPointwise ::
  "('a \<Rightarrow> string) \<Rightarrow> ('b \<Rightarrow> string) \<Rightarrow> (string list \<Rightarrow> match_matrix \<Rightarrow> listener \<Rightarrow> bool \<times> listener) \<Rightarrow>
   (match_matrix \<Rightarrow> listener \<Rightarrow> bool \<times> listener) \<Rightarrow> ('a \<times> 'b) matcher \<Rightarrow> 'b list \<Rightarrow> 'a list \<Rightarrow> listener \<Rightarrow> (bool \<times> listener) res" where
  "UnorderedPointwise pa pb verify pairing tm rhs lhs l =
     UnorderedElementsAre_MatchAndExplain pa verify pairing (map (BoundSecondMatcher pb tm) rhs) lhs l"

lemma BoundSecondMatcher_good [good_intros]:
  assumes "good tm"
  shows "good (BoundSecondMatcher pb tm second)"
  by (rule goodI(1)) (simp add: BoundSecondMatcher_def good_MAE [OF assms])

lemma BoundSecondMatcher_matches [matches_simps]: "Matches (BoundSecondMatcher pb tm second) x = Matches tm (x, second)"
  by (simp add: Matches_def BoundSecondMatcher_def)

lemma set_row_fill:
  assumes "n = num_matchers mm" "length (matched mm) = ne * n" "ilhs < ne" "irhs \<le> n"
    "bits = row @ rest" "length row = n - irhs"
  shows "set_row ilhs irhs n bits mm = Inr (rest, mm\<lparr>matched :=
    take (ilhs * n + irhs) (matched mm) @ row @ drop (ilhs * n + n) (matched mm)\<rparr>)"
  using assms
proof (induction "n - irhs" arbitrary: irhs row bits mm)
  case 0
  then show ?case by (subst set_row.simps) simp
next
  case (Suc k)
  then obtain b row' where row: "row = b # row'" by (cases row) auto
  let ?i = "ilhs * n + irhs"
  have "ilhs * n + n \<le> ne * n" using Suc.prems(3) by (metis Suc_leI mult_Suc add.commute mult_le_mono1)
  then have lt: "?i < length (matched mm)" using Suc.prems Suc.hyps(2) by simp
  let ?mm = "mm\<lparr>matched := (matched mm)[?i := b]\<rparr>"
  have se: "SetEdge ilhs irhs b mm = Inr ?mm"
    using lt Suc.prems(1) by (simp add: SetEdge_def SpaceIndex_def)
  have rec: "set_row ilhs (irhs + 1) n (row' @ rest) ?mm = Inr (rest, ?mm\<lparr>matched :=
      take (ilhs * n + (irhs + 1)) (matched ?mm) @ row' @ drop (ilhs * n + n) (matched ?mm)\<rparr>)"
    using Suc.hyps(2) Suc.prems row by (intro Suc.hyps(1)) auto
  have "take (Suc ?i) ((matched mm)[?i := b]) = take ?i (matched mm) @ [b]"
    using lt by (simp add: take_Suc_conv_app_nth)
  moreover have "drop (ilhs * n + n) ((matched mm)[?i := b]) = drop (ilhs * n + n) (matched mm)"
    using Suc.hyps(2) by (intro drop_update_cancel) simp
  ultimately show ?case
    using rec se row Suc.prems Suc.hyps(2) by (subst set_row.simps) simp
qed

lemma set_rows_fill:
  assumes "n = num_matchers mm" "length (matched mm) = ne * n" "ilhs \<le> ne" "length bits = (ne - ilhs) * n"
  shows "set_rows ilhs ne n bits mm = Inr (mm\<lparr>matched := take (ilhs * n) (matched mm) @ bits\<rparr>)"
  using assms
proof (induction "ne - ilhs" arbitrary: ilhs bits mm)
  case 0
  then show ?case by (subst set_rows.simps) simp
next
  case (Suc k)
  have "n \<le> length bits" using Suc by (metis le_add1 mult_Suc)
  then obtain row rest where br: "bits = row @ rest" "length row = n"
    by (metis append_take_drop_id length_take min.absorb2)
  have k: "ne - ilhs = Suc (ne - Suc ilhs)" using Suc.hyps(2) by simp
  let ?mm = "mm\<lparr>matched := take (ilhs * n) (matched mm) @ row @ drop (ilhs * n + n) (matched mm)\<rparr>"
  have row: "set_row ilhs 0 n bits mm = Inr (rest, ?mm)"
    using set_row_fill [of n mm ne ilhs 0 bits row rest] Suc.prems Suc.hyps(2) br by simp
  have le: "ilhs * n + n \<le> ne * n" using Suc.hyps(2) by (metis Suc_leI mult_Suc add.commute mult_le_mono1 zero_less_Suc zero_less_diff)
  have "set_rows (ilhs + 1) ne n rest ?mm = Inr (?mm\<lparr>matched := take ((ilhs + 1) * n) (matched ?mm) @ rest\<rparr>)"
    using Suc.hyps(2) Suc.prems br k le by (intro Suc.hyps(1)) auto
  moreover have "take ((ilhs + 1) * n) (matched ?mm) = take (ilhs * n) (matched mm) @ row"
    using br le Suc.prems by simp
  ultimately show ?case using row br Suc.hyps(2) by (subst set_rows.simps) simp
qed

lemma concat_uniform:
  assumes "\<forall>r \<in> set rows. length r = n"
  shows "length (concat rows) = length rows * n"
    and "i < length rows \<Longrightarrow> j < n \<Longrightarrow> concat rows ! (i * n + j) = rows ! i ! j"
proof -
  show "length (concat rows) = length rows * n"
    using assms by (induction rows) auto
  show "i < length rows \<Longrightarrow> j < n \<Longrightarrow> concat rows ! (i * n + j) = rows ! i ! j"
    using assms
  proof (induction rows arbitrary: i)
    case (Cons r rows)
    then show ?case by (cases i) (auto simp: nth_append)
  qed simp
qed

lemma did_match_length: "length (did_match_vector ms xs) = length xs * length ms"
  unfolding did_match_vector_def by (subst concat_uniform(1)) auto

definition analyzed :: "'a matcher list \<Rightarrow> 'a list \<Rightarrow> match_matrix" where
  "analyzed ms xs = \<lparr>num_elements = length xs, num_matchers = length ms, matched = did_match_vector ms xs\<rparr>"

lemma AnalyzeElements_eq:
  "AnalyzeElements pr ms xs l = Inr (analyzed ms xs, if IsInterested l then map pr xs else [])"
  using set_rows_fill [of "length ms" "MatchMatrix (length xs) (length ms)" "length xs" 0 "did_match_vector ms xs"]
  by (simp add: AnalyzeElements_def MatchMatrix_def did_match_length analyzed_def)

lemma HasEdge_analyzed:
  assumes "i < length xs" "j < length ms"
  shows "HasEdge (analyzed ms xs) i j = Inr (Matches (ms ! j) (xs ! i))"
proof -
  have "i * length ms + j < length xs * length ms"
    using assms by (metis add_less_cancel_left add.commute less_le_trans mult_Suc Suc_leI mult_le_mono1)
  moreover have "did_match_vector ms xs ! (i * length ms + j) = Matches (ms ! j) (xs ! i)"
    unfolding did_match_vector_def using assms
    by (subst concat_uniform(2)) (auto simp: MatcherAsPredicate_def MatcherCast_matches)
  ultimately show ?thesis
    by (simp add: HasEdge_def analyzed_def SpaceIndex_def did_match_length)
qed

text \<open>
  A pairing of elements with matchers along the edges of the matrix, and what the library says of
  its two functions: the search finds a pairing whenever there is one, and the check that runs before
  it only refuses matrices that have none.
\<close>

definition perfect_pairing :: "match_matrix \<Rightarrow> bool" where
  "perfect_pairing mm \<longleftrightarrow> (\<exists>f. bij_betw f {..<num_elements mm} {..<num_matchers mm}
     \<and> (\<forall>i < num_elements mm. HasEdge mm i (f i) = Inr True))"

definition pairing_contract ::
  "(string list \<Rightarrow> match_matrix \<Rightarrow> listener \<Rightarrow> bool \<times> listener) \<Rightarrow> (match_matrix \<Rightarrow> listener \<Rightarrow> bool \<times> listener) \<Rightarrow> bool" where
  "pairing_contract verify pairing \<longleftrightarrow>
     (\<forall>ps mm l. perfect_pairing mm \<longrightarrow> fst (verify ps mm l)) \<and> (\<forall>mm l. fst (pairing mm l) = perfect_pairing mm)"

definition unordered_match :: "'a matcher list \<Rightarrow> 'a list \<Rightarrow> bool" where
  "unordered_match ms xs \<longleftrightarrow> (\<exists>f. bij_betw f {..<length xs} {..<length ms}
     \<and> (\<forall>i < length xs. Matches (ms ! f i) (xs ! i)))"

lemma perfect_pairing_analyzed: "perfect_pairing (analyzed ms xs) \<longleftrightarrow> unordered_match ms xs"
proof -
  have "(\<forall>i < length xs. HasEdge (analyzed ms xs) i (f i) = Inr True) \<longleftrightarrow>
      (\<forall>i < length xs. Matches (ms ! f i) (xs ! i))" if "bij_betw f {..<length xs} {..<length ms}" for f
  proof -
    have "f i < length ms" if "i < length xs" for i
      using \<open>bij_betw f _ _\<close> that by (auto dest: bij_betwE)
    then show ?thesis by (simp add: HasEdge_analyzed)
  qed
  then show ?thesis by (auto simp: perfect_pairing_def unordered_match_def analyzed_def)
qed

lemma UnorderedElementsAre_verdict:
  assumes "pairing_contract verify pairing"
  shows "\<exists>b l'. UnorderedElementsAre_MatchAndExplain pr verify pairing ms xs l = Inr (b, l')
    \<and> b = unordered_match ms xs"
proof -
  let ?mm = "analyzed ms xs"
  have ne: "num_elements ?mm = length xs" by (simp add: analyzed_def)
  have count: "unordered_match ms xs \<Longrightarrow> length xs = length ms"
    by (auto simp: unordered_match_def dest!: bij_betw_same_card)
  have empty: "unordered_match [] []" by (auto simp: unordered_match_def bij_betw_def)
  obtain v l1 where v: "verify (if IsInterested l then map pr xs else []) ?mm l = (v, l1)" by fastforce
  have contract: "fst (pairing ?mm l1) = unordered_match ms xs" "unordered_match ms xs \<Longrightarrow> v"
    using assms v by (auto simp: pairing_contract_def perfect_pairing_analyzed simp flip: perfect_pairing_analyzed dest: spec)
      (metis fst_conv)+
  consider "xs = [] \<and> ms = []" | "length xs \<noteq> length ms" | "length xs = length ms" "xs \<noteq> []" by fastforce
  then show ?thesis
  proof cases
    case 1
    then show ?thesis using empty by (simp add: UnorderedElementsAre_MatchAndExplain_def AnalyzeElements_eq analyzed_def)
  next
    case 2
    then show ?thesis using count
      by (auto simp: UnorderedElementsAre_MatchAndExplain_def AnalyzeElements_eq ne Let_def)
  next
    case 3
    then have "UnorderedElementsAre_MatchAndExplain pr verify pairing ms xs l =
        (if \<not> v then Inr (False, l1) else Inr (pairing ?mm l1))"
      using v unfolding UnorderedElementsAre_MatchAndExplain_def AnalyzeElements_eq
      by (auto simp: ne Let_def split: if_splits)
    then show ?thesis using contract by (cases "pairing ?mm l1") auto
  qed
qed

text \<open>C21: \<open>UnorderedElementsAre\<close> never indexes its matrix out of range and matches a container exactly when
  its elements can be paired one to one with the matchers so that each element matches its matcher, given
  that the library's search finds a perfect pairing of the matrix when there is one.\<close>

theorem UnorderedElementsAre_matches_some_order:
  assumes "pairing_contract verify pairing"
  shows "\<exists>b l'. UnorderedElementsAre_MatchAndExplain pr verify pairing ms xs l = Inr (b, l')
    \<and> b = unordered_match ms xs"
  using assms by (rule UnorderedElementsAre_verdict)

theorem UnorderedElementsAre_matches_some_order_witness:
  "pairing_contract (\<lambda>_ _ l. (True, l)) (\<lambda>mm l. (perfect_pairing mm, l))
   \<and> (\<exists>l'. UnorderedElementsAre_MatchAndExplain show_int (\<lambda>_ _ l. (True, l)) (\<lambda>mm l. (perfect_pairing mm, l))
        [EqMatcher show_int 2, GtMatcher show_int 0] [1, 2] None = Inr (True, l'))"
proof -
  have c: "pairing_contract (\<lambda>_ _ l. (True, l)) (\<lambda>mm l. (perfect_pairing mm, l))"
    by (simp add: pairing_contract_def)
  have "bij_betw (\<lambda>i. 1 - i) {..<2 :: nat} {..<2}"
    by (rule bij_betw_byWitness [where f' = "\<lambda>i. 1 - i"]) auto
  then have "unordered_match [EqMatcher show_int 2, GtMatcher show_int 0] [1, 2]"
    unfolding unordered_match_def
    by (intro exI [of _ "\<lambda>i. 1 - i"]) (auto simp: numeral_2_eq_2 less_Suc_eq matches_simps)
  then show ?thesis
    using c UnorderedElementsAre_matches_some_order [OF c, of show_int
        "[EqMatcher show_int 2, GtMatcher show_int 0]" "[1, 2]" None] by auto
qed

text \<open>\<open>UnorderedPointwise\<close> is \<open>Pointwise\<close> up to the order of the values on the left.\<close>

lemma UnorderedPointwise_pairs_values:
  assumes "pairing_contract verify pairing"
  shows "\<exists>b l'. UnorderedPointwise pa pb verify pairing tm rhs lhs l = Inr (b, l') \<and>
    b = (\<exists>f. bij_betw f {..<length lhs} {..<length rhs} \<and> (\<forall>i < length lhs. Matches tm (lhs ! i, rhs ! f i)))"
proof -
  have "unordered_match (map (BoundSecondMatcher pb tm) rhs) lhs =
      (\<exists>f. bij_betw f {..<length lhs} {..<length rhs} \<and> (\<forall>i < length lhs. Matches tm (lhs ! i, rhs ! f i)))"
    unfolding unordered_match_def
    by (intro ex_cong1 conj_cong) (auto simp: BoundSecondMatcher_matches dest!: bij_betwE)
  then show ?thesis
    using UnorderedElementsAre_verdict [OF assms, of pa "map (BoundSecondMatcher pb tm) rhs" lhs l] by (simp add: UnorderedPointwise_def)
qed

end
