(* ===== verification/Gmock_Generated_Matchers.thy ===== *)
theory Gmock_Generated_Matchers
  imports Gmock_Matchers
begin

text \<open>
  The matchers of gmock-generated-matchers.h: \<open>Args<k1, ..., kn>(m)\<close>, which applies a matcher to
  chosen fields of the argument tuple; \<open>AllOf\<close> and \<open>AnyOf\<close> for compilers without variadic templates,
  which build a balanced tree of binary matchers where the variadic ones of gmock-matchers.h build a
  list; and the matchers the \<open>MATCHER\<close> macros define. The versions for the arities 0 to 10 are one
  definition on lists. Main results: \<open>Args\<close> keeps the matcher interface and decides on the selected
  fields, and the two implementations of \<open>AllOf\<close> and \<open>AnyOf\<close> give the same verdict and the same
  explanation.
\<close>

section \<open>Args\<close>

text \<open>\<open>TupleFields\<close>; that the indices are fields of the tuple is checked at compile time.\<close>

definition GetSelectedFields :: "nat list \<Rightarrow> 'a list \<Rightarrow> 'a list" where
  "GetSelectedFields ks t = map (\<lambda>k. t ! k) ks"

text \<open>The array of ten indices, where the ones not given are \<open>-1\<close>, and the loop over it.\<close>

definition index_array :: "nat list \<Rightarrow> int list" where
  "index_array ks = map int ks @ replicate (10 - length ks) (- 1)"

fun index_loop :: "nat \<Rightarrow> int list \<Rightarrow> string \<Rightarrow> string" where
  "index_loop i [] os = os"
| "index_loop i (k # ks) os =
     (if k < 0 then os
      else index_loop (i + 1) ks ((if i \<ge> 1 then os @ '', '' else os) @ ''#'' @ show_int k))"

definition PrintIndices :: "nat list \<Rightarrow> string \<Rightarrow> string" where
  "PrintIndices ks os = index_loop 0 (index_array ks) (os @ ''whose fields ('') @ '') ''"

text \<open>How a tuple is printed is an argument.\<close>

definition ArgsMatcher :: "('a list \<Rightarrow> string) \<Rightarrow> nat list \<Rightarrow> 'a list matcher \<Rightarrow> 'a list matcher" where
  "ArgsMatcher print_tuple ks inner_matcher =
     \<lparr>MatchAndExplain = (\<lambda>args l.
        let selected_args = GetSelectedFields ks args
        in if \<not> IsInterested l then (Matches inner_matcher selected_args, l)
           else let l = put (PrintIndices ks []) l;
                    l = put (''are '' @ print_tuple selected_args) l;
                    (match, s) = Explained inner_matcher selected_args
                in (match, PrintIfNotEmpty s l)),
      DescribeTo = PrintIndices ks ''are a tuple '' @ DescribeTo inner_matcher,
      DescribeNegationTo = PrintIndices ks ''are a tuple '' @ DescribeNegationTo inner_matcher\<rparr>"

section \<open>AllOf and AnyOf without variadic templates\<close>

text \<open>\<open>AllOfResult\<close> and \<open>AnyOfResult\<close> of \<open>n\<close> matchers combine the first \<open>n div 2\<close> and the others; there is no version for none.\<close>

function balanced :: "('a matcher \<Rightarrow> 'a matcher \<Rightarrow> 'a matcher) \<Rightarrow> 'a matcher list \<Rightarrow> 'a matcher" where
  "balanced comb ms =
     (case ms of [] \<Rightarrow> AnyMatcher
      | [m] \<Rightarrow> m
      | _ \<Rightarrow> comb (balanced comb (take (length ms div 2) ms)) (balanced comb (drop (length ms div 2) ms)))"
  by pat_completeness auto
termination by (relation "measure (\<lambda>(comb, ms). length ms)") auto

declare balanced.simps [simp del]

definition AllOf :: "'a matcher \<Rightarrow> 'a matcher \<Rightarrow> 'a matcher list \<Rightarrow> 'a matcher" where
  "AllOf m1 m2 ms = balanced BothOfMatcher (m1 # m2 # ms)"

definition AnyOf :: "'a matcher \<Rightarrow> 'a matcher \<Rightarrow> 'a matcher list \<Rightarrow> 'a matcher" where
  "AnyOf m1 m2 ms = balanced EitherOfMatcher (m1 # m2 # ms)"

section \<open>Matchers defined by the MATCHER macros\<close>

text \<open>
  \<open>description\<close> is the user's expression, in which \<open>negation\<close> may occur; \<open>strings\<close> are the parameters
  as \<open>UniversalTersePrintTupleFieldsToStrings\<close> prints them; \<open>FormatMatcherDescription\<close> is compiled code.
\<close>

definition FormatDescription ::
  "(bool \<Rightarrow> string \<Rightarrow> string list \<Rightarrow> string) \<Rightarrow> string \<Rightarrow> string list \<Rightarrow> (bool \<Rightarrow> string) \<Rightarrow> bool \<Rightarrow> string" where
  "FormatDescription FormatMatcherDescription name strings description negation =
     (let gmock_description = description negation
      in if gmock_description \<noteq> [] then gmock_description
         else FormatMatcherDescription negation name strings)"

definition MATCHER ::
  "(bool \<Rightarrow> string \<Rightarrow> string list \<Rightarrow> string) \<Rightarrow> string \<Rightarrow> string list \<Rightarrow> (bool \<Rightarrow> string) \<Rightarrow>
    ('a \<Rightarrow> listener \<Rightarrow> bool \<times> listener) \<Rightarrow> 'a matcher" where
  "MATCHER fmt name strings description body =
     \<lparr>MatchAndExplain = body, DescribeTo = FormatDescription fmt name strings description False,
      DescribeNegationTo = FormatDescription fmt name strings description True\<rparr>"

section \<open>What Args matches\<close>

definition index_text :: "nat list \<Rightarrow> string" where
  "index_text ks = concat (map (\<lambda>k. '', #'' @ show_nat k) ks)"

lemma index_loop_text:
  assumes "1 \<le> i"
  shows "index_loop i (map int ks @ replicate n (- 1)) os = os @ index_text ks"
  using assms
proof (induction ks arbitrary: i os)
  case Nil
  then show ?case by (cases n) (simp_all add: index_text_def)
qed (simp add: index_text_def show_int_def)

lemma PrintIndices_text:
  "PrintIndices ks os = os @ ''whose fields ('' @ drop 2 (index_text ks) @ '') ''"
proof (cases ks)
  case Nil
  then show ?thesis by (simp add: PrintIndices_def index_array_def index_text_def numeral_eq_Suc)
next
  case (Cons k ks')
  then show ?thesis
    using index_loop_text [of 1 ks' "10 - length ks"]
    by (simp add: PrintIndices_def index_array_def show_int_def index_text_def)
qed

lemma ArgsMatcher_MAE:
  assumes "good m"
  shows "MatchAndExplain (ArgsMatcher pt ks m) args l =
    (Matches m (GetSelectedFields ks args),
     put (PrintIndices ks [] @ ''are '' @ pt (GetSelectedFields ks args) @
       comma_expl (expl m (GetSelectedFields ks args))) l)"
  using assms by (cases l) (simp_all add: ArgsMatcher_def IsInterested_def good_Explained PrintIfNotEmpty_put Let_def)

lemma ArgsMatcher_good [good_intros]: "good m \<Longrightarrow> good (ArgsMatcher pt ks m)"
  by (rule goodI(1), rule ArgsMatcher_MAE)

lemma ArgsMatcher_matches [matches_simps]:
  "Matches (ArgsMatcher pt ks m) args \<longleftrightarrow> Matches m (GetSelectedFields ks args)"
  by (simp add: Matches_def ArgsMatcher_def IsInterested_def Let_def)

lemma MATCHER_good [good_intros]: "matcher_interface body \<Longrightarrow> good (MATCHER fmt name strings d body)"
  by (simp add: MATCHER_def)

interpretation args: matcher_interface "MatchAndExplain (ArgsMatcher pt ks (EqMatcher pr r))" for pt ks pr r
  by (intro good_intros)

section \<open>Balanced trees and lists of matchers\<close>

text \<open>Explanations join associatively, with the empty explanation as unit.\<close>

lemma both_expl_assoc: "both_expl (both_expl a b) c = both_expl a (both_expl b c)"
  by (simp add: both_expl_def)

lemma both_expl_Nil [simp]: "both_expl a [] = a" "both_expl [] a = a"
  by (simp_all add: both_expl_def)

text \<open>
  A way of combining two matchers: the verdict of the pair, with \<open>stop\<close> the verdict of a part that
  decides it; a part that decides gives its own explanation, otherwise the explanations are joined.
\<close>

fun first_deciding :: "bool \<Rightarrow> 'a matcher list \<Rightarrow> 'a \<Rightarrow> bool \<times> string" where
  "first_deciding stop [] x = (\<not> stop, [])"
| "first_deciding stop (m # ms) x =
     (if Matches m x = stop then (stop, expl m x)
      else case first_deciding stop ms x of
        (b, e) \<Rightarrow> if b = stop then (stop, e) else (\<not> stop, both_expl (expl m x) e))"

definition combines :: "bool \<Rightarrow> ('a matcher \<Rightarrow> 'a matcher \<Rightarrow> 'a matcher) \<Rightarrow> bool" where
  "combines stop comb \<longleftrightarrow> (\<forall>m1 m2. good m1 \<longrightarrow> good m2 \<longrightarrow> good (comb m1 m2) \<and>
     (\<forall>x. (Matches (comb m1 m2) x, expl (comb m1 m2) x) =
        (if Matches m1 x = stop then (stop, expl m1 x)
         else if Matches m2 x = stop then (stop, expl m2 x)
         else (\<not> stop, both_expl (expl m1 x) (expl m2 x)))))"

lemma combinesD:
  assumes "combines stop comb" and "good m1" and "good m2"
  shows "good (comb m1 m2)"
    and "(Matches (comb m1 m2) x, expl (comb m1 m2) x) =
        (if Matches m1 x = stop then (stop, expl m1 x)
         else if Matches m2 x = stop then (stop, expl m2 x)
         else (\<not> stop, both_expl (expl m1 x) (expl m2 x)))"
  using assms by (simp_all add: combines_def)

lemma combines_both: "combines False BothOfMatcher"
proof -
  have "(Matches (BothOfMatcher m1 m2) x, expl (BothOfMatcher m1 m2) x) =
      (if \<not> Matches m1 x then (False, expl m1 x) else if \<not> Matches m2 x then (False, expl m2 x)
       else (True, both_expl (expl m1 x) (expl m2 x)))" if "good m1" "good m2" for m1 m2 and x :: 'a
    using goodI(2,3) [OF BothOfMatcher_MAE [OF that], of x] by auto
  then show ?thesis by (simp add: combines_def good_intros)
qed

lemma combines_either: "combines True EitherOfMatcher"
proof -
  have "(Matches (EitherOfMatcher m1 m2) x, expl (EitherOfMatcher m1 m2) x) =
      (if Matches m1 x then (True, expl m1 x) else if Matches m2 x then (True, expl m2 x)
       else (False, both_expl (expl m1 x) (expl m2 x)))" if "good m1" "good m2" for m1 m2 and x :: 'a
    using goodI(2,3) [OF EitherOfMatcher_MAE [OF that], of x] by auto
  then show ?thesis by (simp add: combines_def good_intros)
qed

lemma first_deciding_single: "first_deciding stop [m] x = (Matches m x, expl m x)"
  by auto

lemma first_deciding_append:
  "first_deciding stop (xs @ ys) x =
    (if fst (first_deciding stop xs x) = stop then first_deciding stop xs x
     else if fst (first_deciding stop ys x) = stop then first_deciding stop ys x
     else (\<not> stop, both_expl (snd (first_deciding stop xs x)) (snd (first_deciding stop ys x))))"
  by (induction xs) (auto simp: both_expl_assoc prod_eq_iff split: prod.splits)

text \<open>A tree that combines two lists combines their concatenation.\<close>

lemma combine_lists:
  assumes "combines stop comb" and "good m1" and "good m2"
    and "\<And>x. (Matches m1 x, expl m1 x) = first_deciding stop xs x"
    and "\<And>x. (Matches m2 x, expl m2 x) = first_deciding stop ys x"
  shows "good (comb m1 m2) \<and>
    (Matches (comb m1 m2) x, expl (comb m1 m2) x) = first_deciding stop (xs @ ys) x"
  using combinesD [OF assms(1-3)]
  by (auto simp: first_deciding_append assms(4,5) [symmetric])

lemma balanced_first_deciding:
  assumes "combines stop comb" and "ms \<noteq> []" and "\<And>m. m \<in> set ms \<Longrightarrow> good m"
  shows "good (balanced comb ms) \<and>
    (Matches (balanced comb ms) x, expl (balanced comb ms) x) = first_deciding stop ms x"
  using assms(2,3)
proof (induction "length ms" arbitrary: ms x rule: less_induct)
  case less
  show ?case
  proof (cases "length ms = 1")
    case True
    then obtain m where "ms = [m]" by (cases ms) auto
    then have "balanced comb ms = m" by (subst balanced.simps) simp
    with \<open>ms = [m]\<close> less.prems show ?thesis by (simp add: first_deciding_single)
  next
    case False
    let ?n = "length ms div 2"
    from False less.prems(1) have "2 \<le> length ms" by (cases "length ms") auto
    then have len: "0 < ?n" "?n < length ms" by linarith+
    then have parts: "take ?n ms \<noteq> []" "drop ?n ms \<noteq> []" by auto
    obtain m1 m2 ms' where ms: "ms = m1 # m2 # ms'" using \<open>2 \<le> length ms\<close>
      by (metis Suc_le_length_iff numeral_2_eq_2)
    have unfold: "balanced comb ms = comb (balanced comb (take ?n ms)) (balanced comb (drop ?n ms))"
      by (subst balanced.simps) (simp add: ms)
    note goods = less.prems(2) [OF in_set_takeD] less.prems(2) [OF in_set_dropD]
    have l: "good (balanced comb (take ?n ms)) \<and>
        (Matches (balanced comb (take ?n ms)) y, expl (balanced comb (take ?n ms)) y)
        = first_deciding stop (take ?n ms) y" for y
      by (rule less.hyps [OF _ parts(1) goods(1)]) (use len in simp_all)
    have r: "good (balanced comb (drop ?n ms)) \<and>
        (Matches (balanced comb (drop ?n ms)) y, expl (balanced comb (drop ?n ms)) y)
        = first_deciding stop (drop ?n ms) y" for y
      by (rule less.hyps [OF _ parts(2) goods(2)]) (use len in simp_all)
    from combine_lists [OF assms(1), of "balanced comb (take ?n ms)" "balanced comb (drop ?n ms)"
        "take ?n ms" "drop ?n ms" x, OF l [THEN conjunct1] r [THEN conjunct1] l [THEN conjunct2] r [THEN conjunct2]]
    show ?thesis by (simp only: unfold append_take_drop_id)
  qed
qed

lemma CreateMatcher_first_deciding:
  assumes "combines stop comb" and "\<And>m. m \<in> set (m1 # m2 # ms) \<Longrightarrow> good m"
  shows "good (CreateMatcher comb m1 m2 ms) \<and>
    (Matches (CreateMatcher comb m1 m2 ms) x, expl (CreateMatcher comb m1 m2 ms) x)
    = first_deciding stop (m1 # m2 # ms) x"
  using assms(2)
proof (induction ms arbitrary: m1 m2 x)
  case Nil
  then show ?case
    using combine_lists [OF assms(1), of m1 m2 "[m1]" "[m2]" x] by (simp add: first_deciding_single)
next
  case (Cons m3 ms)
  then show ?case
    using combine_lists [OF assms(1), of m1 "CreateMatcher comb m2 m3 ms" "[m1]" "m2 # m3 # ms" x]
    by (simp add: first_deciding_single)
qed

section \<open>Properties\<close>

text \<open>The balanced trees that \<open>AllOf\<close> and \<open>AnyOf\<close> build without variadic templates and the nested lists that
  the variadic versions build give the same verdict and write the same explanation to every
  listener, for any number of matchers that keep the interface.\<close>

theorem generated_all_any_of_agree:
  assumes "\<And>m. m \<in> set (m1 # m2 # ms) \<Longrightarrow> good m"
  shows "MatchAndExplain (AllOf m1 m2 ms) x l = MatchAndExplain (AllOfMatcher m1 m2 ms) x l \<and>
    MatchAndExplain (AnyOf m1 m2 ms) x l = MatchAndExplain (AnyOfMatcher m1 m2 ms) x l"
proof -
  have "MatchAndExplain (balanced comb (m1 # m2 # ms)) x l = MatchAndExplain (CreateMatcher comb m1 m2 ms) x l"
    if "combines stop comb" for stop comb
  proof -
    have b: "good (balanced comb (m1 # m2 # ms)) \<and>
        (Matches (balanced comb (m1 # m2 # ms)) x, expl (balanced comb (m1 # m2 # ms)) x)
        = first_deciding stop (m1 # m2 # ms) x"
      by (rule balanced_first_deciding [OF that _ assms]) simp_all
    have c: "good (CreateMatcher comb m1 m2 ms) \<and>
        (Matches (CreateMatcher comb m1 m2 ms) x, expl (CreateMatcher comb m1 m2 ms) x)
        = first_deciding stop (m1 # m2 # ms) x"
      by (rule CreateMatcher_first_deciding [OF that assms])
    from b c have "Matches (balanced comb (m1 # m2 # ms)) x = Matches (CreateMatcher comb m1 m2 ms) x"
        "expl (balanced comb (m1 # m2 # ms)) x = expl (CreateMatcher comb m1 m2 ms) x"
      by (metis prod.inject)+
    with b c show ?thesis by (simp add: good_MAE del: first_deciding.simps)
  qed
  from this [OF combines_both] this [OF combines_either] show ?thesis
    by (simp add: AllOf_def AnyOf_def AllOfMatcher_def AnyOfMatcher_def)
qed

theorem generated_all_any_of_agree_witness:
  "fst (MatchAndExplain (AllOf (GtMatcher show_int 2) (LtMatcher show_int 9) [NeMatcher show_int 5, GeMatcher show_int 7]) 7 (Some [])) = True
   \<and> fst (MatchAndExplain (AnyOf (GtMatcher show_int 2) (LtMatcher show_int 9) [NeMatcher show_int 5, GeMatcher show_int 7]) 1 None) = True"
proof -
  let ?a = "GtMatcher show_int 2" and ?b = "LtMatcher show_int 9"
  let ?ms = "[NeMatcher show_int 5, GeMatcher show_int 7]"
  have good: "good m" if "m \<in> set (?a # ?b # ?ms)" for m
    using that by (auto simp: good_intros)
  then have "\<forall>m \<in> set (?a # ?b # ?ms). good m" by blast
  then show ?thesis
    using generated_all_any_of_agree [of ?a ?b ?ms 7 "Some []", OF good]
      generated_all_any_of_agree [of ?a ?b ?ms 1 None, OF good]
      AllOf_facts [of ?a ?b ?ms 7] AnyOf_facts [of ?a ?b ?ms 1]
    by (simp add: good_MAE good_intros matches_simps)
qed

text \<open>\<open>Args<k1, ..., kn>(m)\<close> matches the argument tuples whose fields k1, ..., kn, in that order, match m, and
  explains with the indices and the values of these fields, whoever listens.\<close>

theorem args_matches_selected_fields:
  assumes "good m"
  shows "MatchAndExplain (ArgsMatcher pt ks m) args l =
    (Matches m (map (\<lambda>k. args ! k) ks),
     put (''whose fields ('' @ drop 2 (index_text ks) @ '') are '' @ pt (map (\<lambda>k. args ! k) ks) @
       comma_expl (expl m (map (\<lambda>k. args ! k) ks))) l)"
  by (simp add: ArgsMatcher_MAE [OF assms] PrintIndices_text GetSelectedFields_def)

end
