(* ===== verification/Gmock_Actions.thy ===== *)
theory Gmock_Actions
  imports Prelude
begin

text \<open>
  The actions of the bundled googlemock: \<open>Action\<close>, default values and the actions of
  \<open>gmock/gmock-actions.h\<close>, those of \<open>gmock/gmock-more-actions.h\<close>, and the combinators of
  \<open>gmock/gmock-generated-actions.h\<close>, where the classes and functions for the arities 0 to 10 are one
  definition on lists of arguments. Performing an action may change a world of any type and may
  fault. The actions that write memory work on a store of cells indexed by address.
\<close>

section \<open>Actions and default values\<close>

text \<open>An action is its implementation, or NULL for \<open>DoDefault()\<close>; performing it may change the world.\<close>

type_synonym ('v, 'r, 'w) action_impl = "'v list \<Rightarrow> 'w \<Rightarrow> ('r \<times> 'w) res"
type_synonym ('v, 'r, 'w) action = "('v, 'r, 'w) action_impl option"

definition IsDoDefault :: "('v, 'r, 'w) action \<Rightarrow> bool" where
  "IsDoDefault a \<longleftrightarrow> a = None"

definition Perform :: "('v, 'r, 'w) action \<Rightarrow> 'v list \<Rightarrow> 'w \<Rightarrow> ('r \<times> 'w) res" where
  "Perform a args w = (case a of None \<Rightarrow> Inl Abort | Some impl \<Rightarrow> impl args w)"

datatype ('r, 'w) value_producer =
    FixedValueProducer 'r
  | FactoryValueProducer "'w \<Rightarrow> 'r \<times> 'w"

fun Produce :: "('r, 'w) value_producer \<Rightarrow> 'w \<Rightarrow> 'r \<times> 'w" where
  "Produce (FixedValueProducer v) w = (v, w)"
| "Produce (FactoryValueProducer f) w = f w"

text \<open>\<open>DefaultValue<T>\<close> with its static \<open>producer_\<close>; \<open>builtin\<close> is the built-in default of the type, if any.\<close>

type_synonym ('r, 'w) default_value = "('r, 'w) value_producer option"

definition DefaultValue_Set :: "'r \<Rightarrow> ('r, 'w) default_value \<Rightarrow> ('r, 'w) default_value" where
  "DefaultValue_Set x producer = Some (FixedValueProducer x)"

definition DefaultValue_SetFactory :: "('w \<Rightarrow> 'r \<times> 'w) \<Rightarrow> ('r, 'w) default_value \<Rightarrow> ('r, 'w) default_value" where
  "DefaultValue_SetFactory f producer = Some (FactoryValueProducer f)"

definition DefaultValue_Clear :: "('r, 'w) default_value \<Rightarrow> ('r, 'w) default_value" where
  "DefaultValue_Clear producer = None"

definition DefaultValue_Exists :: "'r option \<Rightarrow> ('r, 'w) default_value \<Rightarrow> bool" where
  "DefaultValue_Exists builtin producer \<longleftrightarrow> producer \<noteq> None \<or> builtin \<noteq> None"

definition BuiltInDefaultValue_Get :: "'r option \<Rightarrow> 'r res" where
  "BuiltInDefaultValue_Get builtin = (case builtin of None \<Rightarrow> Inl Abort | Some v \<Rightarrow> Inr v)"

definition DefaultValue_Get :: "'r option \<Rightarrow> ('r, 'w) default_value \<Rightarrow> 'w \<Rightarrow> ('r \<times> 'w) res" where
  "DefaultValue_Get builtin producer w =
     (case producer of
        None \<Rightarrow> bindr (BuiltInDefaultValue_Get builtin) (\<lambda>v. Inr (v, w))
      | Some p \<Rightarrow> Inr (Produce p w))"

section \<open>Converting and composing actions\<close>

definition MakeAction :: "('v, 'r, 'w) action_impl \<Rightarrow> ('v, 'r, 'w) action" where
  "MakeAction impl = Some impl"

text \<open>
  \<open>PolymorphicAction\<close>: an implementation \<open>perform\<close> with a type conversion \<open>conv\<close> of its result to the
  result type of the function it is used in.
\<close>

definition PolymorphicAction :: "('s \<Rightarrow> 'r) \<Rightarrow> ('v, 's, 'w) action_impl \<Rightarrow> ('v, 'r, 'w) action" where
  "PolymorphicAction conv perform = Some (\<lambda>args w. bindr (perform args w) (\<lambda>(r, w1). Inr (conv r, w1)))"

text \<open>
  An action of one function type posing as one of another: the shared implementation is called with
  the arguments and its result converted. The implementation may be NULL, which is not checked.
\<close>

definition ActionAdaptor :: "('v \<Rightarrow> 'u) \<Rightarrow> ('s \<Rightarrow> 'r) \<Rightarrow> ('u, 's, 'w) action \<Rightarrow> ('v, 'r, 'w) action" where
  "ActionAdaptor conv_arg conv from = Some (\<lambda>args w.
     case from of None \<Rightarrow> Inl NullDeref
     | Some impl \<Rightarrow> bindr (impl (map conv_arg args) w) (\<lambda>(r, w1). Inr (conv r, w1)))"

text \<open>
  \<open>Return(x)\<close>: the value is converted, by a conversion that may read the world, when the action is
  made for a function type and not when it is performed.
\<close>

definition ReturnAction :: "('s \<Rightarrow> 'w \<Rightarrow> 'r) \<Rightarrow> 's \<Rightarrow> 'w \<Rightarrow> ('v, 'r, 'w) action" where
  "ReturnAction cast x w0 = (let y = cast x w0 in Some (\<lambda>args w. Inr (y, w)))"

definition DoDefaultAction :: "('v, 'r, 'w) action" where
  "DoDefaultAction = None"

definition InvokeWithoutArgsAction :: "('w \<Rightarrow> ('r \<times> 'w) res) \<Rightarrow> ('v, 'r, 'w) action" where
  "InvokeWithoutArgsAction function_impl = Some (\<lambda>args w. function_impl w)"

definition InvokeMethodWithoutArgsAction :: "ptr \<Rightarrow> (ptr \<Rightarrow> 'w \<Rightarrow> ('r \<times> 'w) res) \<Rightarrow> ('v, 'r, 'w) action" where
  "InvokeMethodWithoutArgsAction obj_ptr method =
     Some (\<lambda>args w. if obj_ptr = NULL then Inl NullDeref else method obj_ptr w)"

definition InvokeAction :: "('v list \<Rightarrow> 'w \<Rightarrow> ('r \<times> 'w) res) \<Rightarrow> ('v, 'r, 'w) action" where
  "InvokeAction function_impl = Some (\<lambda>args w. function_impl args w)"

definition InvokeMethodAction :: "ptr \<Rightarrow> (ptr \<Rightarrow> 'v list \<Rightarrow> 'w \<Rightarrow> ('r \<times> 'w) res) \<Rightarrow> ('v, 'r, 'w) action" where
  "InvokeMethodAction obj_ptr method =
     Some (\<lambda>args w. if obj_ptr = NULL then Inl NullDeref else method obj_ptr args w)"

definition IgnoreResultAction :: "('v, 'r, 'w) action \<Rightarrow> ('v, unit, 'w) action" where
  "IgnoreResultAction a = Some (\<lambda>args w. bindr (Perform a args w) (\<lambda>(_, w1). Inr ((), w1)))"

definition DoBothAction :: "('v, unit, 'w) action \<Rightarrow> ('v, 'r, 'w) action \<Rightarrow> ('v, 'r, 'w) action" where
  "DoBothAction action1 action2 =
     Some (\<lambda>args w. bindr (Perform action1 args w) (\<lambda>(_, w1). Perform action2 args w1))"

fun DoAll :: "('v, unit, 'w) action \<Rightarrow> ('v, unit, 'w) action list \<Rightarrow> ('v, 'r, 'w) action \<Rightarrow> ('v, 'r, 'w) action" where
  "DoAll a1 [] a = DoBothAction a1 a"
| "DoAll a1 (a2 # as) a = DoBothAction a1 (DoAll a2 as a)"

text \<open>\<open>SelectArgs\<close> takes the arguments with the given indices; an index out of range does not compile.\<close>

fun SelectArgs :: "nat list \<Rightarrow> 'v list \<Rightarrow> 'v list res" where
  "SelectArgs [] args = Inr []"
| "SelectArgs (k # ks) args = (if k < length args
     then bindr (SelectArgs ks args) (\<lambda>vs. Inr (args ! k # vs)) else Inl OutOfBounds)"

definition WithArgsAction :: "nat list \<Rightarrow> ('v, 'r, 'w) action \<Rightarrow> ('v, 'r, 'w) action" where
  "WithArgsAction ks a = Some (\<lambda>args w. bindr (SelectArgs ks args) (\<lambda>vs. Perform a vs w))"

definition WithoutArgs :: "('v, 'r, 'w) action \<Rightarrow> ('v, 'r, 'w) action" where
  "WithoutArgs a = WithArgsAction [] a"

definition WithArg :: "nat \<Rightarrow> ('v, 'r, 'w) action \<Rightarrow> ('v, 'r, 'w) action" where
  "WithArg k a = WithArgsAction [k] a"

section \<open>Actions on memory\<close>

text \<open>
  A C++ value is a pointer (or the address a reference stands for) or a value of another type. The
  memory holds the cells in use, \<open>errno\<close> and the \<open>ByMove\<close> actions that were performed.
\<close>

datatype 'u cval = Ptr ptr | Val 'u

record 'u memory =
  cells :: "ptr \<rightharpoonup> 'u cval"
  errno :: int
  performed :: "ptr set"

definition get_arg :: "nat \<Rightarrow> 'u cval list \<Rightarrow> 'u cval res" where
  "get_arg k args = (if k < length args then Inr (args ! k) else Inl OutOfBounds)"

definition load :: "'u memory \<Rightarrow> 'u cval \<Rightarrow> 'u cval res" where
  "load m p = (case p of Ptr a \<Rightarrow> deref (cells m) a | Val _ \<Rightarrow> Inl OutOfBounds)"

definition store :: "'u cval \<Rightarrow> 'u cval \<Rightarrow> 'u memory \<Rightarrow> 'u memory res" where
  "store p v m = (case p of
     Ptr a \<Rightarrow> bindr (deref (cells m) a) (\<lambda>_. Inr (m\<lparr>cells := (cells m)(a \<mapsto> v)\<rparr>))
   | Val _ \<Rightarrow> Inl OutOfBounds)"

definition ReturnNullAction :: "('u cval, 'u cval, 'w) action" where
  "ReturnNullAction = Some (\<lambda>args w. Inr (Ptr NULL, w))"

definition ReturnVoidAction :: "('v, unit, 'w) action" where
  "ReturnVoidAction = Some (\<lambda>args w. Inr ((), w))"

definition ReturnRefAction :: "ptr \<Rightarrow> ('u cval, 'u cval, 'w) action" where
  "ReturnRefAction ref = Some (\<lambda>args w. Inr (Ptr ref, w))"

text \<open>\<open>ReturnRefOfCopy\<close>: making the action copies the value into a cell of its own, at \<open>this\<close>.\<close>

definition ReturnRefOfCopyAction ::
  "ptr \<Rightarrow> 'u cval \<Rightarrow> 'u memory \<Rightarrow> ('u cval, 'u cval, 'u memory) action \<times> 'u memory" where
  "ReturnRefOfCopyAction this v m = (Some (\<lambda>args w. Inr (Ptr this, w)), m\<lparr>cells := (cells m)(this \<mapsto> v)\<rparr>)"

text \<open>
  \<open>Return(ByMove(x))\<close>: the action at \<open>this\<close> moves the payload out of the wrapper it shares; \<open>husk\<close> is
  what is left of a value that was moved from.
\<close>

definition ReturnByMoveAction :: "'u cval \<Rightarrow> ptr \<Rightarrow> ptr \<Rightarrow> ('u cval, 'u cval, 'u memory) action" where
  "ReturnByMoveAction husk this wrapper = Some (\<lambda>args m.
     if this \<in> performed m then Inl Abort
     else let m1 = m\<lparr>performed := insert this (performed m)\<rparr> in
          bindr (load m1 (Ptr wrapper)) (\<lambda>payload.
            bindr (store (Ptr wrapper) husk m1) (\<lambda>m2. Inr (payload, m2))))"

definition AssignAction :: "ptr \<Rightarrow> 'u cval \<Rightarrow> ('u cval, unit, 'u memory) action" where
  "AssignAction p v = Some (\<lambda>args m. bindr (store (Ptr p) v m) (\<lambda>m1. Inr ((), m1)))"

definition SetErrnoAndReturnAction :: "int \<Rightarrow> 'u cval \<Rightarrow> ('u cval, 'u cval, 'u memory) action" where
  "SetErrnoAndReturnAction errval result = Some (\<lambda>args m. Inr (result, m\<lparr>errno := errval\<rparr>))"

definition SetArgumentPointeeAction :: "nat \<Rightarrow> 'u cval \<Rightarrow> ('u cval, unit, 'u memory) action" where
  "SetArgumentPointeeAction n v = Some (\<lambda>args m. bindr (get_arg n args) (\<lambda>p.
     bindr (store p v m) (\<lambda>m1. Inr ((), m1))))"

definition ReturnArg :: "nat \<Rightarrow> ('u cval, 'u cval, 'u memory) action" where
  "ReturnArg k = Some (\<lambda>args m. bindr (get_arg k args) (\<lambda>v. Inr (v, m)))"

definition SaveArg :: "nat \<Rightarrow> ptr \<Rightarrow> ('u cval, unit, 'u memory) action" where
  "SaveArg k p = Some (\<lambda>args m. bindr (get_arg k args) (\<lambda>v. bindr (store (Ptr p) v m) (\<lambda>m1. Inr ((), m1))))"

definition SaveArgPointee :: "nat \<Rightarrow> ptr \<Rightarrow> ('u cval, unit, 'u memory) action" where
  "SaveArgPointee k p = Some (\<lambda>args m. bindr (get_arg k args) (\<lambda>q. bindr (load m q) (\<lambda>v.
     bindr (store (Ptr p) v m) (\<lambda>m1. Inr ((), m1)))))"

definition SetArgReferee :: "nat \<Rightarrow> 'u cval \<Rightarrow> ('u cval, unit, 'u memory) action" where
  "SetArgReferee k v = Some (\<lambda>args m. bindr (get_arg k args) (\<lambda>r. bindr (store r v m) (\<lambda>m1. Inr ((), m1))))"

text \<open>
  \<open>CopyElements\<close> (and \<open>std::copy\<close>, which it mimics): element by element, forwards, until the two
  pointers meet; a range that is not one leaves defined behaviour.
\<close>

function CopyElements :: "ptr \<Rightarrow> ptr \<Rightarrow> ptr \<Rightarrow> 'u memory \<Rightarrow> (ptr \<times> 'u memory) res" where
  "CopyElements first fin output m =
     (if first = fin then Inr (output, m)
      else if fin < first then Inl OutOfBounds
      else bindr (load m (Ptr first)) (\<lambda>v. bindr (store (Ptr output) v m) (\<lambda>m1.
             CopyElements (first + 1) fin (output + 1) m1)))"
  by pat_completeness auto
termination
  by (relation "measure (\<lambda>(first, fin, output, m). fin - first)") auto

declare CopyElements.simps [simp del]

definition SetArrayArgument :: "nat \<Rightarrow> ptr \<Rightarrow> ptr \<Rightarrow> ('u cval, unit, 'u memory) action" where
  "SetArrayArgument k first fin = Some (\<lambda>args m. bindr (get_arg k args) (\<lambda>p.
     case p of Ptr output \<Rightarrow> bindr (CopyElements first fin output m) (\<lambda>(_, m1). Inr ((), m1))
     | Val _ \<Rightarrow> Inl OutOfBounds))"

definition DeleteArg :: "nat \<Rightarrow> ('u cval, unit, 'u memory) action" where
  "DeleteArg k = Some (\<lambda>args m. bindr (get_arg k args) (\<lambda>p.
     case p of Ptr a \<Rightarrow> bindr (free_at (cells m) a) (\<lambda>c. Inr ((), m\<lparr>cells := c\<rparr>))
     | Val _ \<Rightarrow> Inl OutOfBounds))"

definition ReturnPointee :: "ptr \<Rightarrow> ('u cval, 'u cval, 'u memory) action" where
  "ReturnPointee p = Some (\<lambda>args m. bindr (load m (Ptr p)) (\<lambda>v. Inr (v, m)))"

definition Throw :: "('v, 'r, 'w) action" where
  "Throw = Some (\<lambda>args w. Inl Uncaught)"

text \<open>\<open>InvokeArgument\<close>: \<open>call\<close> is the function the k-th argument is.\<close>

definition InvokeArgument ::
  "('v \<Rightarrow> 'v list \<Rightarrow> 'w \<Rightarrow> ('r \<times> 'w) res) \<Rightarrow> nat \<Rightarrow> 'v list \<Rightarrow> ('v, 'r, 'w) action" where
  "InvokeArgument call k ps = Some (\<lambda>args w. bindr (SelectArgs [k] args) (\<lambda>fs. call (hd fs) ps w))"

text \<open>\<open>ReturnNew<T>\<close>: the constructed object \<open>mk ps\<close> goes to a new cell, whose address \<open>new\<close> chooses.\<close>

definition ReturnNew :: "('u memory \<Rightarrow> ptr) \<Rightarrow> ('u cval list \<Rightarrow> 'u cval) \<Rightarrow> 'u cval list \<Rightarrow> ('u cval, 'u cval, 'u memory) action" where
  "ReturnNew new_at mk ps = Some (\<lambda>args m. let p = new_at m in
     if p = NULL then Inl Uncaught else Inr (Ptr p, m\<lparr>cells := (cells m)(p \<mapsto> mk ps)\<rparr>))"

section \<open>Sequences of actions\<close>

lemma Perform_Some [simp]: "Perform (Some impl) args w = impl args w"
  by (simp add: Perform_def)

text \<open>Performing actions one after the other on the same arguments, for their effects.\<close>

fun perform_all :: "('v, unit, 'w) action list \<Rightarrow> 'v list \<Rightarrow> 'w \<Rightarrow> 'w res" where
  "perform_all [] args w = Inr w"
| "perform_all (a # as) args w = bindr (Perform a args w) (\<lambda>(_, w1). perform_all as args w1)"

lemma Perform_DoAll:
  "Perform (DoAll a1 as a) args w = bindr (perform_all (a1 # as) args w) (\<lambda>w1. Perform a args w1)"
proof (induction a1 as a arbitrary: w rule: DoAll.induct)
  case (1 a1 a)
  show ?case by (cases "Perform a1 args w") (auto simp: DoBothAction_def)
next
  case (2 a1 a2 as a)
  have "Perform (DoAll a1 (a2 # as) a) args w =
      bindr (Perform a1 args w) (\<lambda>(_, w1). Perform (DoAll a2 as a) args w1)"
    by (simp add: DoBothAction_def)
  then show ?case by (cases "Perform a1 args w") (auto simp: "2.IH")
qed

lemma SelectArgs_Inr: "\<forall>k \<in> set ks. k < length args \<Longrightarrow> SelectArgs ks args = Inr (map ((!) args) ks)"
  by (induction ks) simp_all

section \<open>Copying\<close>

lemma CopyElements_spec:
  assumes "\<And>a. a \<in> {first..<first + n} \<union> {out..<out + n} \<Longrightarrow> a \<noteq> NULL \<and> cells m a \<noteq> None"
    and "out \<le> first \<or> first + n \<le> out"
  shows "\<exists>m'. CopyElements first (first + n) out m = Inr (out + n, m') \<and>
    (\<forall>i < n. cells m' (out + i) = cells m (first + i)) \<and>
    (\<forall>a. a \<notin> {out..<out + n} \<longrightarrow> cells m' a = cells m a) \<and> errno m' = errno m \<and> performed m' = performed m"
  using assms
proof (induction n arbitrary: first out m)
  case 0
  then show ?case by (simp add: CopyElements.simps)
next
  case (Suc n)
  obtain v where v: "cells m first = Some v" "first \<noteq> NULL" using Suc.prems(1) [of first] by auto
  obtain u where u: "cells m out = Some u" "out \<noteq> NULL" using Suc.prems(1) [of out] by auto
  let ?m = "m\<lparr>cells := (cells m)(out \<mapsto> v)\<rparr>"
  have "\<exists>m'. CopyElements (Suc first) (Suc first + n) (Suc out) ?m = Inr (Suc out + n, m') \<and>
    (\<forall>i < n. cells m' (Suc out + i) = cells ?m (Suc first + i)) \<and>
    (\<forall>a. a \<notin> {Suc out..<Suc out + n} \<longrightarrow> cells m' a = cells ?m a) \<and> errno m' = errno ?m \<and> performed m' = performed ?m"
    by (rule Suc.IH) (use Suc.prems in auto)
  then obtain m' where m': "CopyElements (Suc first) (Suc first + n) (Suc out) ?m = Inr (Suc out + n, m')"
      "\<And>i. i < n \<Longrightarrow> cells m' (Suc out + i) = cells ?m (Suc first + i)"
      "\<And>a. a \<notin> {Suc out..<Suc out + n} \<Longrightarrow> cells m' a = cells ?m a" "errno m' = errno m" "performed m' = performed m"
    by auto
  have "CopyElements first (first + Suc n) out m = Inr (out + Suc n, m')"
    using v u m'(1) by (subst CopyElements.simps) (simp add: load_def store_def)
  moreover have "cells m' (out + i) = cells m (first + i)" if "i < Suc n" for i
  proof (cases i)
    case 0
    then show ?thesis using m'(3) [of out] v by simp
  next
    case (Suc j)
    then show ?thesis using m'(2) [of j] that Suc.prems(2) by auto
  qed
  moreover have "cells m' a = cells m a" if "a \<notin> {out..<out + Suc n}" for a
    using m'(3) [of a] that by auto
  ultimately show ?case using m'(4,5) by blast
qed

section \<open>Properties\<close>

text \<open>\<open>DoAll(a1, ..., an, a)\<close> performs the actions in order, each on the arguments of the call and on
  the world its predecessors left, stops at the first fault, and gives the result of the last one.\<close>

theorem DoAll_in_order:
  "Perform (DoAll a1 as a) args w = (case perform_all (a1 # as) args w of
     Inl e \<Rightarrow> Inl e | Inr w1 \<Rightarrow> Perform a args w1)"
  by (simp only: Perform_DoAll bindr_def)

text \<open>\<open>SetArrayArgument<k>(first, first + n)\<close> copies the n elements to the array the k-th argument points
  to and changes no other cell, when both ranges are in use and the destination does not start
  inside the source.\<close>

theorem SetArrayArgument_copies:
  assumes "k < length args" "args ! k = Ptr out"
    and "\<And>a. a \<in> {first..<first + n} \<union> {out..<out + n} \<Longrightarrow> a \<noteq> NULL \<and> cells m a \<noteq> None"
    and "out \<le> first \<or> first + n \<le> out"
  shows "\<exists>m'. Perform (SetArrayArgument k first (first + n)) args m = Inr ((), m') \<and>
    (\<forall>i < n. cells m' (out + i) = cells m (first + i)) \<and> (\<forall>a. a \<notin> {out..<out + n} \<longrightarrow> cells m' a = cells m a)"
proof -
  obtain m' where "CopyElements first (first + n) out m = Inr (out + n, m')"
      "\<forall>i < n. cells m' (out + i) = cells m (first + i)" "\<forall>a. a \<notin> {out..<out + n} \<longrightarrow> cells m' a = cells m a"
    using CopyElements_spec [OF assms(3,4)] by blast
  with assms(1,2) show ?thesis by (auto simp: SetArrayArgument_def get_arg_def)
qed

definition demo_memory :: "int memory" where
  "demo_memory = \<lparr>cells = [1 \<mapsto> Val 5, 2 \<mapsto> Val 6, 3 \<mapsto> Val 0, 4 \<mapsto> Val 0], errno = 0, performed = {}\<rparr>"

theorem SetArrayArgument_copies_witness:
  "\<exists>m'. Perform (SetArrayArgument 0 1 (1 + 2)) [Ptr 3] demo_memory = Inr ((), m') \<and>
     cells m' 3 = Some (Val 5) \<and> cells m' 4 = Some (Val 6) \<and> cells m' 1 = Some (Val 5)"
proof -
  have "{1..<1 + 2} \<union> {3..<3 + 2} = {1, 2, 3, 4 :: nat}" by auto
  then have "a \<noteq> NULL \<and> cells demo_memory a \<noteq> None" if "a \<in> {1..<1 + 2} \<union> {3..<3 + 2}" for a
    using that by (auto simp: demo_memory_def)
  then obtain m' where m': "Perform (SetArrayArgument 0 1 (1 + 2)) [Ptr 3] demo_memory = Inr ((), m')"
      "\<forall>i < 2. cells m' (3 + i) = cells demo_memory (1 + i)" "\<forall>a. a \<notin> {3..<3 + 2} \<longrightarrow> cells m' a = cells demo_memory a"
    using SetArrayArgument_copies [of 0 "[Ptr 3]" 3 1 2 demo_memory] by auto
  have "cells m' 3 = Some (Val 5)" using m'(2) [rule_format, of 0] by (simp add: demo_memory_def)
  moreover have "cells m' 4 = Some (Val 6)" using m'(2) [rule_format, of 1] by (simp add: demo_memory_def)
  moreover have "cells m' 1 = Some (Val 5)" using m'(3) [rule_format, of 1] by (simp add: demo_memory_def)
  ultimately show ?thesis using m'(1) by blast
qed

text \<open>Performing a \<open>Return(ByMove(x))\<close> action gives the value and performing it again aborts; but a second
  action converted from the same \<open>Return\<close> object passes the check, since the flag is its own, and
  gives what is left of the value.\<close>

theorem ReturnByMove_once:
  assumes "wrapper \<noteq> NULL" "cells m wrapper = Some v" "this \<notin> performed m" "other \<notin> performed m" "other \<noteq> this"
  shows "\<exists>m1 m2. Perform (ReturnByMoveAction husk this wrapper) args m = Inr (v, m1) \<and>
    Perform (ReturnByMoveAction husk this wrapper) args' m1 = Inl Abort \<and>
    Perform (ReturnByMoveAction husk other wrapper) args' m1 = Inr (husk, m2)"
  using assms by (simp add: ReturnByMoveAction_def load_def store_def)

theorem ReturnByMove_once_witness:
  "\<exists>m1 m2. Perform (ReturnByMoveAction (Val 0) 10 1) [] demo_memory = Inr (Val 5, m1) \<and>
    Perform (ReturnByMoveAction (Val 0) 10 1) [] m1 = Inl Abort \<and>
    Perform (ReturnByMoveAction (Val 0) 11 1) [] m1 = Inr (Val 0, m2)"
  by (rule ReturnByMove_once) (simp_all add: demo_memory_def)

end
