(* ===== verification/Gmock_Action_Macros.thy ===== *)
theory Gmock_Action_Macros
  imports Gmock_Actions
begin

text \<open>
  The macros that define actions (gmock-generated-actions.h): \<open>ACTION\<close>, \<open>ACTION_P\<close> to \<open>ACTION_P10\<close> and
  \<open>ACTION_TEMPLATE\<close>, one definition for every number of parameters. The body of an action sees the values of the
  parameters, the tuple of arguments and the arguments \<open>arg0\<close> to \<open>arg9\<close>, where those the mock function does not have are of the
  type \<open>ExcessiveArg\<close>. Main result: a body that uses the first m arguments behaves the same in every mock
  function with at least m of them; the actions that the library itself defines by \<open>ACTION_TEMPLATE\<close> are
  the ones of the theory of actions.
\<close>

datatype 'v macro_arg = Arg 'v | ExcessiveArg

text \<open>What the user writes: parameters, \<open>args\<close>, \<open>arg0\<close> to \<open>arg9\<close>.\<close>

type_synonym ('p, 'v, 'r, 'w) action_body =
  "'p list \<Rightarrow> 'v list \<Rightarrow> 'v macro_arg list \<Rightarrow> 'w \<Rightarrow> ('r \<times> 'w) res"

text \<open>The overloads of \<open>ActionHelper::Perform\<close>; there is none for more than ten arguments.\<close>

definition ActionHelper_Perform ::
  "('v list \<Rightarrow> 'v macro_arg list \<Rightarrow> 'w \<Rightarrow> ('r \<times> 'w) res) \<Rightarrow> 'v list \<Rightarrow> 'w \<Rightarrow> ('r \<times> 'w) res" where
  "ActionHelper_Perform gmock_PerformImpl args w =
     (if length args \<le> 10
      then gmock_PerformImpl args (map Arg args @ replicate (10 - length args) ExcessiveArg) w
      else Inl OutOfBounds)"

text \<open>The object \<open>name(p0, ..., pn)\<close> keeps the parameters; converting it to an action copies them into the implementation.\<close>

record 'p action_object =
  action_params :: "'p list"

definition action_name :: "'p list \<Rightarrow> 'p action_object" where
  "action_name ps = \<lparr>action_params = ps\<rparr>"

definition ACTION_P :: "('p, 'v, 'r, 'w) action_body \<Rightarrow> 'p action_object \<Rightarrow> ('v, 'r, 'w) action" where
  "ACTION_P body obj = Some (ActionHelper_Perform (body (action_params obj)))"

definition ACTION :: "('p, 'v, 'r, 'w) action_body \<Rightarrow> ('v, 'r, 'w) action" where
  "ACTION body = ACTION_P body (action_name [])"

text \<open>The explicit template parameters are an argument of the body.\<close>

definition ACTION_TEMPLATE :: "('t \<Rightarrow> ('p, 'v, 'r, 'w) action_body) \<Rightarrow> 't \<Rightarrow> 'p action_object \<Rightarrow> ('v, 'r, 'w) action" where
  "ACTION_TEMPLATE body template_params obj = ACTION_P (body template_params) obj"

section \<open>What a body sees\<close>

lemma Perform_ACTION_P:
  "length args \<le> 10 \<Longrightarrow> Perform (ACTION_P body (action_name ps)) args w =
     body ps args (map Arg args @ replicate (10 - length args) ExcessiveArg) w"
  by (simp add: ACTION_P_def ActionHelper_Perform_def action_name_def)

text \<open>A body that looks at no more than the arguments \<open>arg0\<close> to \<open>arg(m - 1)\<close>.\<close>

definition uses_first :: "nat \<Rightarrow> ('p, 'v, 'r, 'w) action_body \<Rightarrow> bool" where
  "uses_first m body \<longleftrightarrow> (\<forall>ps args args' xs xs' w. take m xs = take m xs' \<longrightarrow> body ps args xs w = body ps args' xs' w)"

text \<open>
An action defined by \<open>ACTION\<close> or \<open>ACTION_P\<close> runs its body with the parameters it was made with, the arguments of the
call as \<open>arg0\<close>, \<open>arg1\<close>, ... and \<open>ExcessiveArg\<close> for the rest of the ten; so a body that uses only the first m
arguments can be used in every mock function with at least m and at most ten arguments, and gives the same result in any two whose first m
arguments are the same.
\<close>

theorem action_uses_first_arguments:
  assumes "uses_first m body" and "m \<le> length args" "length args \<le> 10" and "m \<le> length args'" "length args' \<le> 10"
    and "take m args = take m args'"
  shows "Perform (ACTION_P body (action_name ps)) args w = body ps args (map Arg (take m args)) w \<and>
    Perform (ACTION_P body (action_name ps)) args w = Perform (ACTION_P body (action_name ps)) args' w"
proof -
  have "take m (map Arg xs @ replicate (10 - length xs) ExcessiveArg) = map Arg (take m xs)"
    if "m \<le> length xs" for xs :: "'b list"
    using that by (simp add: take_map)
  with assms have "take m (map Arg args @ replicate (10 - length args) ExcessiveArg) = take m (map Arg (take m args))"
    "take m (map Arg args' @ replicate (10 - length args') ExcessiveArg) = take m (map Arg (take m args))"
    by (simp_all add: take_map)
  with assms(1) show ?thesis
    unfolding Perform_ACTION_P [OF assms(3)] Perform_ACTION_P [OF assms(5)] uses_first_def by metis
qed

text \<open>\<open>ACTION_P(Add, n) { return arg0 + n; }\<close> in functions with one and with three arguments.\<close>

definition Add_body :: "(int, int, int, unit) action_body" where
  "Add_body ps args xs w = (case (ps, xs) of (n # _, Arg a # _) \<Rightarrow> Inr (a + n, w) | _ \<Rightarrow> Inl OutOfBounds)"

theorem action_uses_first_arguments_witness:
  "Perform (ACTION_P Add_body (action_name [5])) [7] () = Inr (12, ()) \<and>
   Perform (ACTION_P Add_body (action_name [5])) [7, 8, 9] () = Inr (12, ())"
proof -
  have "uses_first 1 Add_body"
    unfolding uses_first_def
  proof (intro allI impI)
    fix ps args args' :: "int list" and xs xs' :: "int macro_arg list" and w
    assume "take 1 xs = take 1 xs'"
    then show "Add_body ps args xs w = Add_body ps args' xs' w"
      by (cases xs; cases xs') (simp_all add: Add_body_def split: list.splits macro_arg.splits)
  qed
  from action_uses_first_arguments [OF this, of "[7]" "[7, 8, 9]" "[5]" "()"]
  have "Perform (ACTION_P Add_body (action_name [5])) [7] () = Add_body [5] [7] [Arg 7] ()"
    "Perform (ACTION_P Add_body (action_name [5])) [7, 8, 9] () = Add_body [5] [7] [Arg 7] ()"
    by auto
  then show ?thesis by (simp add: Add_body_def)
qed

section \<open>The actions the library defines by the macros\<close>

lemma SelectArgs_single: "SelectArgs [k] args = (if k < length args then Inr [args ! k] else Inl OutOfBounds)"
  by simp

text \<open>Each body is that of the header, with \<open>get<k>(args)\<close> for the k-th argument.\<close>

lemma library_actions_by_template:
  assumes "length args \<le> 10"
  shows "Perform (ACTION_TEMPLATE (\<lambda>k ps args xs m. bindr (get_arg k args) (\<lambda>v. Inr (v, m))) k (action_name [])) args m =
      Perform (ReturnArg k) args m"
    and "Perform (ACTION_TEMPLATE (\<lambda>k ps args xs m. bindr (get_arg k args) (\<lambda>v. bindr (store (Ptr (hd ps)) v m)
        (\<lambda>m1. Inr ((), m1)))) k (action_name [p])) args m = Perform (SaveArg k p) args m"
    and "Perform (ACTION_TEMPLATE (\<lambda>k ps args xs m. bindr (get_arg k args) (\<lambda>q. bindr (load m q) (\<lambda>v.
        bindr (store (Ptr (hd ps)) v m) (\<lambda>m1. Inr ((), m1))))) k (action_name [p])) args m = Perform (SaveArgPointee k p) args m"
    and "Perform (ACTION_TEMPLATE (\<lambda>k ps args xs m. bindr (get_arg k args) (\<lambda>r. bindr (store r (hd ps) m)
        (\<lambda>m1. Inr ((), m1)))) k (action_name [v])) args m = Perform (SetArgReferee k v) args m"
    and "Perform (ACTION_TEMPLATE (\<lambda>k ps args xs w. bindr (SelectArgs [k] args) (\<lambda>fs. call (hd fs) ps w)) k (action_name qs)) args w =
      Perform (InvokeArgument call k qs) args w"
  using assms
  by (simp_all add: ACTION_TEMPLATE_def Perform_ACTION_P ReturnArg_def SaveArg_def SaveArgPointee_def SetArgReferee_def
      InvokeArgument_def)

end
