(* ===== verification/Gmock_Spec_Builders.thy ===== *)
theory Gmock_Spec_Builders
  imports Gmock_Matchers Gmock_Actions
begin

text \<open>
  Mock functions of the bundled googlemock: cardinalities (\<open>gmock/gmock-cardinalities.h\<close>), and \<open>ON_CALL\<close>
  and \<open>EXPECT_CALL\<close> specifications with the search for the expectation that handles a call
  (\<open>gmock/gmock-spec-builders.h\<close>). Expectations live in a heap, as those of several mock functions
  refer to each other. The functions that the headers only
  declare are the fields of a record argument, with what their comments promise as a predicate.
  Every operation runs under \<open>g_gmock_mutex\<close> and is one step.
\<close>

section \<open>Cardinalities\<close>

record cardinality =
  ConservativeLowerBound :: int
  ConservativeUpperBound :: int
  IsSatisfiedByCallCount :: "int \<Rightarrow> bool"
  IsSaturatedByCallCount :: "int \<Rightarrow> bool"

definition IsOverSaturatedByCallCount :: "cardinality \<Rightarrow> int \<Rightarrow> bool" where
  "IsOverSaturatedByCallCount c n \<longleftrightarrow> IsSaturatedByCallCount c n \<and> \<not> IsSatisfiedByCallCount c n"

section \<open>Clauses\<close>

datatype clause = kNone | kWith | kTimes | kInSequence | kAfter | kWillOnce | kWillRepeatedly | kRetiresOnSaturation

text \<open>The run-time checks rely on the order of the enumeration.\<close>

fun clause_rank :: "clause \<Rightarrow> nat" where
  "clause_rank kNone = 0" | "clause_rank kWith = 1" | "clause_rank kTimes = 2" | "clause_rank kInSequence = 3"
| "clause_rank kAfter = 4" | "clause_rank kWillOnce = 5" | "clause_rank kWillRepeatedly = 6"
| "clause_rank kRetiresOnSaturation = 7"

lemma clause_rank_inject: "clause_rank a = clause_rank b \<longleftrightarrow> a = b"
  by (cases a; cases b) simp_all

instantiation clause :: linorder
begin

definition less_eq_clause :: "clause \<Rightarrow> clause \<Rightarrow> bool" where
  "less_eq_clause a b \<longleftrightarrow> clause_rank a \<le> clause_rank b"

definition less_clause :: "clause \<Rightarrow> clause \<Rightarrow> bool" where
  "less_clause a b \<longleftrightarrow> clause_rank a < clause_rank b"

instance
  by standard (auto simp: less_eq_clause_def less_clause_def clause_rank_inject)

end

datatype on_call_clause = ocNone | ocWith | ocWillByDefault

fun on_call_rank :: "on_call_clause \<Rightarrow> nat" where
  "on_call_rank ocNone = 0" | "on_call_rank ocWith = 1" | "on_call_rank ocWillByDefault = 2"

section \<open>State\<close>

record ('v, 'r, 'w) expectation =
  e_file :: string
  e_line :: int
  source_text :: string
  cardinality_specified :: bool
  e_cardinality :: cardinality
  immediate_prerequisites :: "ptr set"
  call_count :: int
  retired :: bool
  untyped_actions :: "('v, 'r, 'w) action list"
  extra_matcher_specified :: bool
  repeated_action_specified :: bool
  retires_on_saturation :: bool
  last_clause :: clause
  action_count_checked :: bool
  e_matchers :: "'v matcher list"
  extra_matcher :: "'v list matcher"
  repeated_action :: "('v, 'r, 'w) action"

record ('v, 'r, 'w) on_call_spec =
  oc_file :: string
  oc_line :: int
  oc_last_clause :: on_call_clause
  oc_matchers :: "'v matcher list"
  oc_extra_matcher :: "'v list matcher"
  oc_action :: "('v, 'r, 'w) action"

text \<open>
  The expectations of all mock functions, the failures reported by \<open>Expect\<close> (file, line, message) and the
  warnings logged; and one mock function's own lists.
\<close>

record ('v, 'r, 'w) mock_world =
  exps :: "ptr \<rightharpoonup> ('v, 'r, 'w) expectation"
  spec_failures :: "(string \<times> int \<times> string) list"
  mock_log :: "string list"

record ('v, 'r, 'w) function_mocker =
  mocker_name :: string
  on_call_specs :: "('v, 'r, 'w) on_call_spec list"
  expectations :: "ptr list"

text \<open>The functions declared in the headers and defined in the compiled library.\<close>

record ('v, 'r, 'w) gmock_lib =
  Exactly :: "int \<Rightarrow> cardinality"
  AtLeast :: "int \<Rightarrow> cardinality"
  UntypedTimes :: "cardinality \<Rightarrow> ptr \<Rightarrow> ('v, 'r, 'w) mock_world \<Rightarrow> ('v, 'r, 'w) mock_world"
  AddExpectation :: "nat \<Rightarrow> ptr \<Rightarrow> ('v, 'r, 'w) mock_world \<Rightarrow> ('v, 'r, 'w) mock_world"
  AllPrerequisitesAreSatisfied :: "ptr \<Rightarrow> ('v, 'r, 'w) mock_world \<Rightarrow> bool"
  RetireAllPreRequisites :: "ptr \<Rightarrow> ('v, 'r, 'w) mock_world \<Rightarrow> ('v, 'r, 'w) mock_world"
  FindUnsatisfiedPrerequisites :: "ptr \<Rightarrow> ('v, 'r, 'w) mock_world \<Rightarrow> ptr list"
  CheckActionCountIfNotDone :: "ptr \<Rightarrow> ('v, 'r, 'w) mock_world \<Rightarrow> ('v, 'r, 'w) mock_world"
  DescribeCallCountTo :: "ptr \<Rightarrow> ('v, 'r, 'w) mock_world \<Rightarrow> string"
  FormatFileLocation :: "string \<Rightarrow> int \<Rightarrow> string"

definition set_exp :: "ptr \<Rightarrow> ('v, 'r, 'w) expectation \<Rightarrow> ('v, 'r, 'w) mock_world \<Rightarrow> ('v, 'r, 'w) mock_world" where
  "set_exp e x w = w\<lparr>exps := (exps w)(e \<mapsto> x)\<rparr>"

definition ExpectSpecProperty ::
  "string \<Rightarrow> int \<Rightarrow> bool \<Rightarrow> string \<Rightarrow> ('v, 'r, 'w) mock_world \<Rightarrow> ('v, 'r, 'w) mock_world" where
  "ExpectSpecProperty f l property msg w =
     (if property then w else w\<lparr>spec_failures := spec_failures w @ [(f, l, msg)]\<rparr>)"

definition AssertSpecProperty :: "bool \<Rightarrow> unit res" where
  "AssertSpecProperty property = (if property then Inr () else Inl Abort)"

section \<open>ON_CALL\<close>

definition make_OnCallSpec :: "string \<Rightarrow> int \<Rightarrow> 'v matcher list \<Rightarrow> ('v, 'r, 'w) on_call_spec" where
  "make_OnCallSpec f l ms = \<lparr>oc_file = f, oc_line = l, oc_last_clause = ocNone, oc_matchers = ms,
     oc_extra_matcher = AnyMatcher, oc_action = None\<rparr>"

definition OnCallSpec_With ::
  "'v list matcher \<Rightarrow> ('v, 'r, 'w) on_call_spec \<Rightarrow> ('v, 'r, 'w) mock_world \<Rightarrow> ('v, 'r, 'w) on_call_spec \<times> ('v, 'r, 'w) mock_world" where
  "OnCallSpec_With m s w =
     (s\<lparr>oc_last_clause := ocWith, oc_extra_matcher := m\<rparr>,
      ExpectSpecProperty (oc_file s) (oc_line s) (on_call_rank (oc_last_clause s) < on_call_rank ocWith)
        ''.With() cannot appear more than once in an ON_CALL().'' w)"

definition WillByDefault ::
  "('v, 'r, 'w) action \<Rightarrow> ('v, 'r, 'w) on_call_spec \<Rightarrow> ('v, 'r, 'w) mock_world \<Rightarrow> ('v, 'r, 'w) on_call_spec \<times> ('v, 'r, 'w) mock_world" where
  "WillByDefault a s w =
     (let w1 = ExpectSpecProperty (oc_file s) (oc_line s) (on_call_rank (oc_last_clause s) < on_call_rank ocWillByDefault)
                 ''.WillByDefault() must appear exactly once in an ON_CALL().'' w;
          w2 = ExpectSpecProperty (oc_file s) (oc_line s) (\<not> IsDoDefault a)
                 ''DoDefault() cannot be used in ON_CALL().'' w1
      in (s\<lparr>oc_last_clause := ocWillByDefault, oc_action := a\<rparr>, w2))"

definition OnCallSpec_Matches :: "('v, 'r, 'w) on_call_spec \<Rightarrow> 'v list \<Rightarrow> bool" where
  "OnCallSpec_Matches s args \<longleftrightarrow> TupleMatches (oc_matchers s) args \<and> Matches (oc_extra_matcher s) args"

definition GetAction :: "('v, 'r, 'w) on_call_spec \<Rightarrow> ('v, 'r, 'w) action res" where
  "GetAction s = bindr (AssertSpecProperty (oc_last_clause s = ocWillByDefault)) (\<lambda>_. Inr (oc_action s))"

section \<open>EXPECT_CALL: the clauses\<close>

text \<open>The state the two constructors leave; \<open>c\<close> is the cardinality the base class starts with.\<close>

definition make_TypedExpectation ::
  "cardinality \<Rightarrow> string \<Rightarrow> int \<Rightarrow> string \<Rightarrow> 'v matcher list \<Rightarrow> ('v, 'r, 'w) expectation" where
  "make_TypedExpectation c f l src ms =
     \<lparr>e_file = f, e_line = l, source_text = src, cardinality_specified = False, e_cardinality = c,
      immediate_prerequisites = {}, call_count = 0, retired = False, untyped_actions = [],
      extra_matcher_specified = False, repeated_action_specified = False, retires_on_saturation = False,
      last_clause = kNone, action_count_checked = False, e_matchers = ms, extra_matcher = AnyMatcher,
      repeated_action = None\<rparr>"

definition With :: "'v list matcher \<Rightarrow> ptr \<Rightarrow> ('v, 'r, 'w) mock_world \<Rightarrow> ('v, 'r, 'w) mock_world res" where
  "With m e w = bindr (deref (exps w) e) (\<lambda>x.
     let w1 = (if last_clause x = kWith
               then ExpectSpecProperty (e_file x) (e_line x) False ''.With() cannot appear more than once in an EXPECT_CALL().'' w
               else ExpectSpecProperty (e_file x) (e_line x) (last_clause x < kWith)
                      ''.With() must be the first clause in an EXPECT_CALL().'' w)
     in Inr (set_exp e (x\<lparr>last_clause := kWith, extra_matcher := m, extra_matcher_specified := True\<rparr>) w1))"

definition Times :: "('v, 'r, 'w) gmock_lib \<Rightarrow> cardinality \<Rightarrow> ptr \<Rightarrow> ('v, 'r, 'w) mock_world \<Rightarrow> ('v, 'r, 'w) mock_world res" where
  "Times lib c e w = Inr (UntypedTimes lib c e w)"

definition Times_int :: "('v, 'r, 'w) gmock_lib \<Rightarrow> int \<Rightarrow> ptr \<Rightarrow> ('v, 'r, 'w) mock_world \<Rightarrow> ('v, 'r, 'w) mock_world res" where
  "Times_int lib n e w = Times lib (Exactly lib n) e w"

definition InSequence :: "('v, 'r, 'w) gmock_lib \<Rightarrow> nat \<Rightarrow> ptr \<Rightarrow> ('v, 'r, 'w) mock_world \<Rightarrow> ('v, 'r, 'w) mock_world res" where
  "InSequence lib s e w = bindr (deref (exps w) e) (\<lambda>x.
     let w1 = ExpectSpecProperty (e_file x) (e_line x) (last_clause x \<le> kInSequence)
                ''.InSequence() cannot appear after .After(), .WillOnce(), .WillRepeatedly(), or .RetiresOnSaturation().'' w
     in Inr (AddExpectation lib s e (set_exp e (x\<lparr>last_clause := kInSequence\<rparr>) w1)))"

definition After :: "ptr set \<Rightarrow> ptr \<Rightarrow> ('v, 'r, 'w) mock_world \<Rightarrow> ('v, 'r, 'w) mock_world res" where
  "After s e w = bindr (deref (exps w) e) (\<lambda>x.
     let w1 = ExpectSpecProperty (e_file x) (e_line x) (last_clause x \<le> kAfter)
                ''.After() cannot appear after .WillOnce(), .WillRepeatedly(), or .RetiresOnSaturation().'' w
     in Inr (set_exp e (x\<lparr>last_clause := kAfter,
              immediate_prerequisites := immediate_prerequisites x \<union> s\<rparr>) w1))"

text \<open>The overloads with two to five sequences or sets.\<close>

fun each_clause :: "('s \<Rightarrow> 'm \<Rightarrow> 'm res) \<Rightarrow> 's list \<Rightarrow> 'm \<Rightarrow> 'm res" where
  "each_clause f [] w = Inr w"
| "each_clause f (s # ss) w = bindr (f s w) (each_clause f ss)"

definition InSequence_all :: "('v, 'r, 'w) gmock_lib \<Rightarrow> nat list \<Rightarrow> ptr \<Rightarrow> ('v, 'r, 'w) mock_world \<Rightarrow> ('v, 'r, 'w) mock_world res" where
  "InSequence_all lib ss e w = each_clause (\<lambda>s. InSequence lib s e) ss w"

definition After_all :: "ptr set list \<Rightarrow> ptr \<Rightarrow> ('v, 'r, 'w) mock_world \<Rightarrow> ('v, 'r, 'w) mock_world res" where
  "After_all ss e w = each_clause (\<lambda>s. After s e) ss w"

definition WillOnce :: "('v, 'r, 'w) gmock_lib \<Rightarrow> ('v, 'r, 'w) action \<Rightarrow> ptr \<Rightarrow> ('v, 'r, 'w) mock_world \<Rightarrow> ('v, 'r, 'w) mock_world res" where
  "WillOnce lib a e w = bindr (deref (exps w) e) (\<lambda>x.
     let w1 = ExpectSpecProperty (e_file x) (e_line x) (last_clause x \<le> kWillOnce)
                ''.WillOnce() cannot appear after .WillRepeatedly() or .RetiresOnSaturation().'' w;
         x1 = x\<lparr>last_clause := kWillOnce, untyped_actions := untyped_actions x @ [a]\<rparr>;
         x2 = (if \<not> cardinality_specified x1
               then x1\<lparr>e_cardinality := Exactly lib (int (length (untyped_actions x1)))\<rparr> else x1)
     in Inr (set_exp e x2 w1))"

definition WillRepeatedly :: "('v, 'r, 'w) gmock_lib \<Rightarrow> ('v, 'r, 'w) action \<Rightarrow> ptr \<Rightarrow> ('v, 'r, 'w) mock_world \<Rightarrow> ('v, 'r, 'w) mock_world res" where
  "WillRepeatedly lib a e w = bindr (deref (exps w) e) (\<lambda>x.
     let w1 = (if last_clause x = kWillRepeatedly
               then ExpectSpecProperty (e_file x) (e_line x) False
                      ''.WillRepeatedly() cannot appear more than once in an EXPECT_CALL().'' w
               else ExpectSpecProperty (e_file x) (e_line x) (last_clause x < kWillRepeatedly)
                      ''.WillRepeatedly() cannot appear after .RetiresOnSaturation().'' w);
         x1 = x\<lparr>last_clause := kWillRepeatedly, repeated_action_specified := True, repeated_action := a\<rparr>;
         x2 = (if \<not> cardinality_specified x1
               then x1\<lparr>e_cardinality := AtLeast lib (int (length (untyped_actions x1)))\<rparr> else x1)
     in Inr (CheckActionCountIfNotDone lib e (set_exp e x2 w1)))"

definition RetiresOnSaturation :: "('v, 'r, 'w) gmock_lib \<Rightarrow> ptr \<Rightarrow> ('v, 'r, 'w) mock_world \<Rightarrow> ('v, 'r, 'w) mock_world res" where
  "RetiresOnSaturation lib e w = bindr (deref (exps w) e) (\<lambda>x.
     let w1 = ExpectSpecProperty (e_file x) (e_line x) (last_clause x < kRetiresOnSaturation)
                ''.RetiresOnSaturation() cannot appear more than once.'' w
     in Inr (CheckActionCountIfNotDone lib e
          (set_exp e (x\<lparr>last_clause := kRetiresOnSaturation, retires_on_saturation := True\<rparr>) w1)))"

definition MaybeDescribeExtraMatcherTo :: "('v, 'r, 'w) expectation \<Rightarrow> string \<Rightarrow> string" where
  "MaybeDescribeExtraMatcherTo x os =
     (if extra_matcher_specified x
      then os @ ''    Expected args: '' @ DescribeTo (extra_matcher x) @ [CHR 0x0A] else os)"

section \<open>EXPECT_CALL: handling a call\<close>

definition Retire :: "ptr \<Rightarrow> ('v, 'r, 'w) mock_world \<Rightarrow> ('v, 'r, 'w) mock_world res" where
  "Retire e w = bindr (deref (exps w) e) (\<lambda>x. Inr (set_exp e (x\<lparr>retired := True\<rparr>) w))"

definition IncrementCallCount :: "ptr \<Rightarrow> ('v, 'r, 'w) mock_world \<Rightarrow> ('v, 'r, 'w) mock_world res" where
  "IncrementCallCount e w = bindr (deref (exps w) e) (\<lambda>x.
     if call_count x \<ge> INT_MAX then Inl SignedOverflow
     else Inr (set_exp e (x\<lparr>call_count := call_count x + 1\<rparr>) w))"

definition IsSatisfied :: "('v, 'r, 'w) expectation \<Rightarrow> bool" where
  "IsSatisfied x = IsSatisfiedByCallCount (e_cardinality x) (call_count x)"

definition IsSaturated :: "('v, 'r, 'w) expectation \<Rightarrow> bool" where
  "IsSaturated x = IsSaturatedByCallCount (e_cardinality x) (call_count x)"

definition IsOverSaturated :: "('v, 'r, 'w) expectation \<Rightarrow> bool" where
  "IsOverSaturated x = IsOverSaturatedByCallCount (e_cardinality x) (call_count x)"

definition DescribeLocationTo :: "('v, 'r, 'w) gmock_lib \<Rightarrow> ('v, 'r, 'w) expectation \<Rightarrow> string" where
  "DescribeLocationTo lib x = FormatFileLocation lib (e_file x) (e_line x) @ '' ''"

definition Expectation_Matches :: "('v, 'r, 'w) expectation \<Rightarrow> 'v list \<Rightarrow> bool" where
  "Expectation_Matches x args \<longleftrightarrow> TupleMatches (e_matchers x) args \<and> Matches (extra_matcher x) args"

definition ShouldHandleArguments ::
  "('v, 'r, 'w) gmock_lib \<Rightarrow> 'v list \<Rightarrow> ptr \<Rightarrow> ('v, 'r, 'w) mock_world \<Rightarrow> (bool \<times> ('v, 'r, 'w) mock_world) res" where
  "ShouldHandleArguments lib args e w =
     (let w1 = CheckActionCountIfNotDone lib e w
      in bindr (deref (exps w1) e) (\<lambda>x.
           Inr (\<not> retired x \<and> AllPrerequisitesAreSatisfied lib e w1 \<and> Expectation_Matches x args, w1)))"

fun describe_prereqs :: "('v, 'r, 'w) gmock_lib \<Rightarrow> ('v, 'r, 'w) mock_world \<Rightarrow> nat \<Rightarrow> ptr list \<Rightarrow> string \<Rightarrow> string res" where
  "describe_prereqs lib w i [] os = Inr os"
| "describe_prereqs lib w i (p # ps) os = bindr (deref (exps w) p) (\<lambda>y.
     describe_prereqs lib w (i + 1) ps (os @ DescribeLocationTo lib y @ ''pre-requisite #'' @ show_nat i @ [CHR 0x0A]))"

definition Expectation_ExplainMatchResultTo ::
  "('v, 'r, 'w) gmock_lib \<Rightarrow> 'v printer \<Rightarrow> ('v, 'r, 'w) mock_world \<Rightarrow> ptr \<Rightarrow> 'v list \<Rightarrow> string \<Rightarrow> string res" where
  "Expectation_ExplainMatchResultTo lib pr w e args os = bindr (deref (exps w) e) (\<lambda>x.
     if retired x then Inr (os @ ''         Expected: the expectation is active'' @ [CHR 0x0A]
         @ ''           Actual: it is retired'' @ [CHR 0x0A])
     else if \<not> Expectation_Matches x args then
       (let os1 = (if \<not> TupleMatches (e_matchers x) args
                   then ExplainMatchFailureTupleTo pr (e_matchers x) args os else os);
            (b, s) = Explained (extra_matcher x) args
        in Inr (if \<not> b then os1 @ ''    Expected args: '' @ DescribeTo (extra_matcher x) @ [CHR 0x0A]
                  @ ''           Actual: don't match'' @ comma_expl s @ [CHR 0x0A] else os1))
     else if \<not> AllPrerequisitesAreSatisfied lib e w then
       bindr (describe_prereqs lib w 0 (FindUnsatisfiedPrerequisites lib e w)
           (os @ ''         Expected: all pre-requisites are satisfied'' @ [CHR 0x0A]
             @ ''           Actual: the following immediate pre-requisites are not satisfied:'' @ [CHR 0x0A]))
         (\<lambda>os1. Inr (os1 @ ''                   (end of pre-requisites)'' @ [CHR 0x0A]))
     else Inr (os @ ''The call matches the expectation.'' @ [CHR 0x0A]))"

text \<open>The \<open>ON_CALL\<close> spec that applies: the last one that matches.\<close>

definition FindOnCallSpec :: "('v, 'r, 'w) function_mocker \<Rightarrow> 'v list \<Rightarrow> ('v, 'r, 'w) on_call_spec option" where
  "FindOnCallSpec fm args = find (\<lambda>s. OnCallSpec_Matches s args) (rev (on_call_specs fm))"

definition DescribeDefaultActionTo ::
  "('v, 'r, 'w) gmock_lib \<Rightarrow> bool \<Rightarrow> ('v, 'r, 'w) function_mocker \<Rightarrow> 'v list \<Rightarrow> string" where
  "DescribeDefaultActionTo lib result_is_void fm args =
     (case FindOnCallSpec fm args of
        None \<Rightarrow> (if result_is_void then ''returning directly.'' else ''returning default value.'') @ [CHR 0x0A]
      | Some s \<Rightarrow> ''taking default action specified at:'' @ [CHR 0x0A]
          @ FormatFileLocation lib (oc_file s) (oc_line s) @ [CHR 0x0A])"

definition GetCurrentAction ::
  "('v, 'r, 'w) gmock_lib \<Rightarrow> bool \<Rightarrow> ('v, 'r, 'w) function_mocker \<Rightarrow> 'v list \<Rightarrow> ptr \<Rightarrow> ('v, 'r, 'w) mock_world \<Rightarrow>
   (('v, 'r, 'w) action \<times> ('v, 'r, 'w) mock_world) res" where
  "GetCurrentAction lib is_void fm args e w = bindr (deref (exps w) e) (\<lambda>x.
     let count = call_count x; action_count = int (length (untyped_actions x))
     in if \<not> count \<ge> 1 then Inl Abort
        else let w1 = (if action_count > 0 \<and> \<not> repeated_action_specified x \<and> count > action_count
                then w\<lparr>mock_log := mock_log w @ [DescribeLocationTo lib x @ ''Actions ran out in '' @ source_text x
                       @ ''...'' @ [CHR 0x0A] @ ''Called '' @ show_int count @ '' times, but only ''
                       @ show_int action_count @ '' WillOnce()'' @ (if action_count = 1 then '' is'' else ''s are'')
                       @ '' specified - '' @ DescribeDefaultActionTo lib is_void fm args]\<rparr>
                else w)
             in Inr (if count \<le> action_count then untyped_actions x ! nat (count - 1) else repeated_action x, w1))"

text \<open>
  The action for a call, \<open>None\<close> (NULL) for an excessive one, and what is written to \<open>what\<close> and \<open>why\<close>.
\<close>

definition GetActionForArguments ::
  "('v, 'r, 'w) gmock_lib \<Rightarrow> bool \<Rightarrow> ('v, 'r, 'w) function_mocker \<Rightarrow> 'v list \<Rightarrow> ptr \<Rightarrow> ('v, 'r, 'w) mock_world \<Rightarrow>
   (('v, 'r, 'w) action option \<times> string \<times> string \<times> ('v, 'r, 'w) mock_world) res" where
  "GetActionForArguments lib is_void fm args e w = bindr (deref (exps w) e) (\<lambda>x.
     if IsSaturated x then
       bindr (IncrementCallCount e w) (\<lambda>w1.
         Inr (None, ''Mock function called more times than expected - '' @ DescribeDefaultActionTo lib is_void fm args,
              DescribeCallCountTo lib e w1, w1))
     else
       bindr (IncrementCallCount e w) (\<lambda>w1.
         let w2 = RetireAllPreRequisites lib e w1
         in bindr (deref (exps w2) e) (\<lambda>x2.
              bindr (if retires_on_saturation x2 \<and> IsSaturated x2 then Retire e w2 else Inr w2) (\<lambda>w3.
                bindr (GetCurrentAction lib is_void fm args e w3) (\<lambda>(a, w4).
                  Inr (Some a, ''Mock function call matches '' @ source_text x2 @ ''...'' @ [CHR 0x0A], [], w4))))))"

section \<open>The function mocker\<close>

definition PerformDefaultAction ::
  "'r option \<Rightarrow> ('r, 'w) default_value \<Rightarrow> ('v, 'r, 'w) function_mocker \<Rightarrow> 'v list \<Rightarrow> 'w \<Rightarrow> ('r \<times> 'w) res" where
  "PerformDefaultAction builtin producer fm args u =
     (case FindOnCallSpec fm args of
        Some s \<Rightarrow> bindr (GetAction s) (\<lambda>a. Perform a args u)
      | None \<Rightarrow>
          if \<not> DefaultValue_Exists builtin producer then Inl Uncaught
          else DefaultValue_Get builtin producer u)"

definition UntypedPerformAction :: "('v, 'r, 'w) action \<Rightarrow> 'v list \<Rightarrow> 'w \<Rightarrow> ('r \<times> 'w) res" where
  "UntypedPerformAction a args u = Perform a args u"

definition ClearDefaultActionsLocked :: "('v, 'r, 'w) function_mocker \<Rightarrow> ('v, 'r, 'w) function_mocker" where
  "ClearDefaultActionsLocked fm = fm\<lparr>on_call_specs := []\<rparr>"

definition AddNewOnCallSpec :: "string \<Rightarrow> int \<Rightarrow> 'v matcher list \<Rightarrow> ('v, 'r, 'w) function_mocker \<Rightarrow> ('v, 'r, 'w) function_mocker" where
  "AddNewOnCallSpec f l ms fm = fm\<lparr>on_call_specs := on_call_specs fm @ [make_OnCallSpec f l ms]\<rparr>"

text \<open>
  \<open>p\<close> is the address of the new expectation, \<open>seq\<close> the implicit sequence of the thread, if any. The
  registration of the mock object for leak reports is not part of the state.
\<close>

definition AddNewExpectation ::
  "('v, 'r, 'w) gmock_lib \<Rightarrow> nat option \<Rightarrow> cardinality \<Rightarrow> ptr \<Rightarrow> string \<Rightarrow> int \<Rightarrow> string \<Rightarrow> 'v matcher list \<Rightarrow>
   ('v, 'r, 'w) function_mocker \<Rightarrow> ('v, 'r, 'w) mock_world \<Rightarrow> ('v, 'r, 'w) function_mocker \<times> ('v, 'r, 'w) mock_world" where
  "AddNewExpectation lib seq c p f l src ms fm w =
     (let fm1 = fm\<lparr>expectations := expectations fm @ [p]\<rparr>;
          w1 = set_exp p (make_TypedExpectation c f l src ms) w
      in (fm1, case seq of None \<Rightarrow> w1 | Some s \<Rightarrow> AddExpectation lib s p w1))"

definition InternalExpectedAt ::
  "('v, 'r, 'w) gmock_lib \<Rightarrow> nat option \<Rightarrow> cardinality \<Rightarrow> ptr \<Rightarrow> string \<Rightarrow> int \<Rightarrow> string \<Rightarrow> string \<Rightarrow> 'v matcher list \<Rightarrow>
   ('v, 'r, 'w) function_mocker \<Rightarrow> ('v, 'r, 'w) mock_world \<Rightarrow> ('v, 'r, 'w) function_mocker \<times> ('v, 'r, 'w) mock_world" where
  "InternalExpectedAt lib seq c p f l obj call ms fm w =
     (let src = ''EXPECT_CALL('' @ obj @ '', '' @ call @ '')'';
          w1 = w\<lparr>mock_log := mock_log w @ [src @ '' invoked'']\<rparr>
      in AddNewExpectation lib seq c p f l src ms fm w1)"

definition InternalDefaultActionSetAt ::
  "string \<Rightarrow> int \<Rightarrow> string \<Rightarrow> string \<Rightarrow> 'v matcher list \<Rightarrow>
   ('v, 'r, 'w) function_mocker \<Rightarrow> ('v, 'r, 'w) mock_world \<Rightarrow> ('v, 'r, 'w) function_mocker \<times> ('v, 'r, 'w) mock_world" where
  "InternalDefaultActionSetAt f l obj call ms fm w =
     (AddNewOnCallSpec f l ms fm,
      w\<lparr>mock_log := mock_log w @ [''ON_CALL('' @ obj @ '', '' @ call @ '') invoked'']\<rparr>)"

fun find_matching ::
  "('v, 'r, 'w) gmock_lib \<Rightarrow> 'v list \<Rightarrow> ptr list \<Rightarrow> ('v, 'r, 'w) mock_world \<Rightarrow> (ptr option \<times> ('v, 'r, 'w) mock_world) res" where
  "find_matching lib args [] w = Inr (None, w)"
| "find_matching lib args (e # es) w = bindr (ShouldHandleArguments lib args e w) (\<lambda>(b, w1).
     if b then Inr (Some e, w1) else find_matching lib args es w1)"

definition FindMatchingExpectationLocked ::
  "('v, 'r, 'w) gmock_lib \<Rightarrow> ('v, 'r, 'w) function_mocker \<Rightarrow> 'v list \<Rightarrow> ('v, 'r, 'w) mock_world \<Rightarrow>
   (ptr option \<times> ('v, 'r, 'w) mock_world) res" where
  "FindMatchingExpectationLocked lib fm args w = find_matching lib args (rev (expectations fm)) w"

fun print_tried ::
  "('v, 'r, 'w) gmock_lib \<Rightarrow> 'v printer \<Rightarrow> ('v, 'r, 'w) mock_world \<Rightarrow> 'v list \<Rightarrow> nat \<Rightarrow> nat \<Rightarrow> ptr list \<Rightarrow> string \<Rightarrow> string res" where
  "print_tried lib pr w args count i [] why = Inr why"
| "print_tried lib pr w args count i (e # es) why = bindr (deref (exps w) e) (\<lambda>x.
     let why1 = why @ [CHR 0x0A] @ DescribeLocationTo lib x
           @ (if count > 1 then ''tried expectation #'' @ show_nat i @ '': '' else [])
           @ source_text x @ ''...'' @ [CHR 0x0A]
     in bindr (Expectation_ExplainMatchResultTo lib pr w e args why1) (\<lambda>why2.
          print_tried lib pr w args count (i + 1) es (why2 @ DescribeCallCountTo lib e w)))"

definition PrintTriedExpectationsLocked ::
  "('v, 'r, 'w) gmock_lib \<Rightarrow> 'v printer \<Rightarrow> ('v, 'r, 'w) function_mocker \<Rightarrow> 'v list \<Rightarrow> ('v, 'r, 'w) mock_world \<Rightarrow> string \<Rightarrow> string res" where
  "PrintTriedExpectationsLocked lib pr fm args w why =
     (let count = length (expectations fm)
      in print_tried lib pr w args count 0 (expectations fm)
           (why @ ''Google Mock tried the following '' @ show_nat count @ '' ''
             @ (if count = 1 then ''expectation, but it didn't match'' else ''expectations, but none matched'')
             @ '':'' @ [CHR 0x0A]))"

definition FormatUnexpectedCallMessageLocked ::
  "('v, 'r, 'w) gmock_lib \<Rightarrow> 'v printer \<Rightarrow> bool \<Rightarrow> ('v, 'r, 'w) function_mocker \<Rightarrow> 'v list \<Rightarrow> ('v, 'r, 'w) mock_world \<Rightarrow> (string \<times> string) res" where
  "FormatUnexpectedCallMessageLocked lib pr is_void fm args w =
     bindr (PrintTriedExpectationsLocked lib pr fm args w []) (\<lambda>why.
       Inr ([CHR 0x0A] @ ''Unexpected mock function call - '' @ DescribeDefaultActionTo lib is_void fm args, why))"

definition UntypedDescribeUninterestingCall ::
  "('v, 'r, 'w) gmock_lib \<Rightarrow> ('v list \<Rightarrow> string) \<Rightarrow> bool \<Rightarrow> ('v, 'r, 'w) function_mocker \<Rightarrow> 'v list \<Rightarrow> string" where
  "UntypedDescribeUninterestingCall lib pargs is_void fm args =
     ''Uninteresting mock function call - '' @ DescribeDefaultActionTo lib is_void fm args
     @ ''    Function call: '' @ mocker_name fm @ pargs args"

text \<open>
  What \<open>UntypedFindMatchingExpectation\<close> reports: the expectation (NULL if none matches), the action
  (NULL for the default one), whether the call is excessive, and the two messages. When no expectation
  matches, the action and the flag keep the values the caller passed in, NULL and false.
\<close>

record ('v, 'r, 'w) found =
  found_exp :: "ptr option"
  found_action :: "('v, 'r, 'w) action"
  is_excessive :: bool
  what_msg :: string
  why_msg :: string

definition UntypedFindMatchingExpectation ::
  "('v, 'r, 'w) gmock_lib \<Rightarrow> 'v printer \<Rightarrow> bool \<Rightarrow> ('v, 'r, 'w) function_mocker \<Rightarrow> 'v list \<Rightarrow> ('v, 'r, 'w) mock_world \<Rightarrow>
   (('v, 'r, 'w) found \<times> ('v, 'r, 'w) mock_world) res" where
  "UntypedFindMatchingExpectation lib pr is_void fm args w =
     bindr (FindMatchingExpectationLocked lib fm args w) (\<lambda>(exp, w1).
       case exp of
         None \<Rightarrow> bindr (FormatUnexpectedCallMessageLocked lib pr is_void fm args w1) (\<lambda>(what, why).
           Inr (\<lparr>found_exp = None, found_action = None, is_excessive = False, what_msg = what, why_msg = why\<rparr>, w1))
       | Some e \<Rightarrow> bindr (deref (exps w1) e) (\<lambda>x.
           let excessive = IsSaturated x
           in bindr (GetActionForArguments lib is_void fm args e w1) (\<lambda>(a, what, why, w2).
                let act = (case a of None \<Rightarrow> None | Some a' \<Rightarrow> if IsDoDefault a' then None else a')
                in Inr (\<lparr>found_exp = Some e, found_action = act, is_excessive = excessive,
                         what_msg = what, why_msg = why\<rparr>, w2))))"

section \<open>What the library functions promise\<close>

definition prereq_rel :: "('v, 'r, 'w) mock_world \<Rightarrow> (ptr \<times> ptr) set" where
  "prereq_rel w = {(p, e). \<exists>x. exps w e = Some x \<and> p \<in> immediate_prerequisites x}"

definition all_satisfied :: "ptr \<Rightarrow> ('v, 'r, 'w) mock_world \<Rightarrow> bool" where
  "all_satisfied e w \<longleftrightarrow> (\<forall>p x. (p, e) \<in> (prereq_rel w)\<^sup>+ \<longrightarrow> exps w p = Some x \<longrightarrow> IsSatisfied x)"

definition retire_prereqs :: "ptr \<Rightarrow> ('v, 'r, 'w) mock_world \<Rightarrow> ('v, 'r, 'w) mock_world" where
  "retire_prereqs e w = w\<lparr>exps := (\<lambda>p. if (p, e) \<in> (prereq_rel w)\<^sup>+
     then map_option (\<lambda>x. x\<lparr>retired := True\<rparr>) (exps w p) else exps w p)\<rparr>"

text \<open>
  \<open>Exactly(n)\<close> allows exactly n calls, \<open>AtLeast(n)\<close> at least n; checking the action count only logs
  and remembers that it was done; the functions on prerequisites do what their comments say.
\<close>

definition cardinalities_ok :: "('v, 'r, 'w) gmock_lib \<Rightarrow> bool" where
  "cardinalities_ok lib \<longleftrightarrow>
     (\<forall>n c. IsSatisfiedByCallCount (Exactly lib n) c = (c = n) \<and> IsSaturatedByCallCount (Exactly lib n) c = (n \<le> c))
     \<and> (\<forall>n c. IsSatisfiedByCallCount (AtLeast lib n) c = (n \<le> c))
     \<and> (\<forall>n c. c < INT_MAX \<longrightarrow> \<not> IsSaturatedByCallCount (AtLeast lib n) c)"

definition checks_ok :: "('v, 'r, 'w) gmock_lib \<Rightarrow> bool" where
  "checks_ok lib \<longleftrightarrow> (\<forall>e w x. exps w e = Some x \<longrightarrow>
     (\<exists>lg. CheckActionCountIfNotDone lib e w =
        w\<lparr>exps := (exps w)(e \<mapsto> x\<lparr>action_count_checked := True\<rparr>), mock_log := lg\<rparr>))"

definition prerequisites_ok :: "('v, 'r, 'w) gmock_lib \<Rightarrow> bool" where
  "prerequisites_ok lib \<longleftrightarrow>
     (\<forall>e w. AllPrerequisitesAreSatisfied lib e w = all_satisfied e w)
     \<and> (\<forall>e w. RetireAllPreRequisites lib e w = retire_prereqs e w)
     \<and> (\<forall>e w. set (FindUnsatisfiedPrerequisites lib e w) \<subseteq> dom (exps w) - {NULL})"

definition lib_ok :: "('v, 'r, 'w) gmock_lib \<Rightarrow> bool" where
  "lib_ok lib \<longleftrightarrow> cardinalities_ok lib \<and> checks_ok lib \<and> prerequisites_ok lib"

text \<open>An implementation that keeps all of it, so the theorems below are not about nothing.\<close>

definition reference_lib :: "('v, 'r, 'w) gmock_lib" where
  "reference_lib =
     \<lparr>Exactly = (\<lambda>n. \<lparr>ConservativeLowerBound = n, ConservativeUpperBound = n,
        IsSatisfiedByCallCount = (\<lambda>c. c = n), IsSaturatedByCallCount = (\<lambda>c. n \<le> c)\<rparr>),
      AtLeast = (\<lambda>n. \<lparr>ConservativeLowerBound = n, ConservativeUpperBound = INT_MAX,
        IsSatisfiedByCallCount = (\<lambda>c. n \<le> c), IsSaturatedByCallCount = (\<lambda>c. INT_MAX \<le> c)\<rparr>),
      UntypedTimes = (\<lambda>c e w. w), AddExpectation = (\<lambda>s e w. w),
      AllPrerequisitesAreSatisfied = all_satisfied, RetireAllPreRequisites = retire_prereqs,
      FindUnsatisfiedPrerequisites = (\<lambda>e w. []),
      CheckActionCountIfNotDone = (\<lambda>e w. case exps w e of None \<Rightarrow> w
        | Some x \<Rightarrow> set_exp e (x\<lparr>action_count_checked := True\<rparr>) w),
      DescribeCallCountTo = (\<lambda>e w. []), FormatFileLocation = (\<lambda>f l. f)\<rparr>"

lemma reference_lib_ok: "lib_ok (reference_lib :: ('v, 'r, 'w) gmock_lib)"
proof -
  let ?lib = "reference_lib :: ('v, 'r, 'w) gmock_lib"
  have "checks_ok ?lib"
    unfolding checks_ok_def
  proof (intro allI impI)
    fix e x and w :: "('v, 'r, 'w) mock_world"
    assume "exps w e = Some x"
    then show "\<exists>lg. CheckActionCountIfNotDone reference_lib e w =
        w\<lparr>exps := (exps w)(e \<mapsto> x\<lparr>action_count_checked := True\<rparr>), mock_log := lg\<rparr>"
      by (intro exI [of _ "mock_log w"]) (simp add: reference_lib_def set_exp_def)
  qed
  moreover have "cardinalities_ok ?lib" by (simp add: cardinalities_ok_def reference_lib_def)
  moreover have "prerequisites_ok ?lib" by (simp add: prerequisites_ok_def reference_lib_def)
  ultimately show ?thesis by (simp add: lib_ok_def)
qed

section \<open>One call\<close>

lemma set_exp_exps [simp]: "exps (set_exp e x w) = (exps w)(e \<mapsto> x)"
  by (simp add: set_exp_def)

lemma exps_retire_prereqs: "exps w e = Some x \<Longrightarrow>
    \<exists>b. exps (retire_prereqs e' w) e = Some (x\<lparr>retired := retired x \<or> b\<rparr>)"
  by (auto simp: retire_prereqs_def intro: exI [of _ False] exI [of _ True])

definition next_action :: "('v, 'r, 'w) expectation \<Rightarrow> ('v, 'r, 'w) action" where
  "next_action x = (if call_count x < int (length (untyped_actions x))
     then untyped_actions x ! nat (call_count x) else repeated_action x)"

text \<open>
  What one call does to its expectation: it is counted, it may be retired, and nothing else
  of it changes; the other expectations may only be retired.
\<close>

definition counted :: "ptr \<Rightarrow> ('v, 'r, 'w) mock_world \<Rightarrow> ('v, 'r, 'w) mock_world \<Rightarrow> bool" where
  "counted e w w' \<longleftrightarrow> (\<forall>p x. exps w p = Some x \<longrightarrow>
     (\<exists>b. exps w' p = Some (x\<lparr>call_count := call_count x + (if p = e then 1 else 0), retired := retired x \<or> b\<rparr>)))"

lemma GetCurrentAction_eq:
  assumes "exps w e = Some x" "e \<noteq> NULL" "1 \<le> call_count x"
  shows "\<exists>w'. GetCurrentAction lib v fm args e w =
    Inr (if call_count x \<le> int (length (untyped_actions x)) then untyped_actions x ! nat (call_count x - 1)
         else repeated_action x, w') \<and> exps w' = exps w"
  using assms by (auto simp: GetCurrentAction_def Let_def)

lemma GetActionForArguments_saturated:
  assumes "exps w e = Some x" "e \<noteq> NULL" "call_count x < INT_MAX" "IsSaturated x"
  shows "\<exists>what why w'. GetActionForArguments lib v fm args e w = Inr (None, what, why, w')
    \<and> exps w' = (exps w)(e \<mapsto> x\<lparr>call_count := call_count x + 1\<rparr>)"
  using assms by (simp add: GetActionForArguments_def IncrementCallCount_def)

lemma GetActionForArguments_next:
  assumes ok: "prerequisites_ok lib" and e: "exps w e = Some x" "e \<noteq> NULL"
    and c: "0 \<le> call_count x" "call_count x < INT_MAX" and ns: "\<not> IsSaturated x"
  shows "\<exists>what why w'. GetActionForArguments lib v fm args e w = Inr (Some (next_action x), what, why, w')
    \<and> counted e w w'
    \<and> (\<forall>p y. (p, e) \<in> (prereq_rel w)\<^sup>+ \<longrightarrow> exps w' p = Some y \<longrightarrow> retired y)"
proof -
  let ?x1 = "x\<lparr>call_count := call_count x + 1\<rparr>"
  let ?w1 = "set_exp e ?x1 w"
  let ?w2 = "retire_prereqs e ?w1"
  have rel: "prereq_rel ?w1 = prereq_rel w" using e by (auto simp: prereq_rel_def)
  obtain b where x2: "exps ?w2 e = Some (?x1\<lparr>retired := retired x \<or> b\<rparr>)"
    using exps_retire_prereqs [of ?w1 e ?x1 e] by auto
  let ?x2 = "?x1\<lparr>retired := retired x \<or> b\<rparr>"
  define ret where "ret \<longleftrightarrow> retires_on_saturation ?x2 \<and> IsSaturated ?x2"
  define w3 where "w3 = (if ret then set_exp e (?x2\<lparr>retired := True\<rparr>) ?w2 else ?w2)"
  define x3 where "x3 = (if ret then ?x2\<lparr>retired := True\<rparr> else ?x2)"
  have x3: "exps w3 e = Some x3" using x2 by (simp add: w3_def x3_def)
  have cx3: "call_count x3 = call_count x + 1" "untyped_actions x3 = untyped_actions x"
      "repeated_action x3 = repeated_action x"
    by (simp_all add: x3_def)
  obtain w4 where w4: "GetCurrentAction lib v fm args e w3 = Inr (next_action x, w4)" "exps w4 = exps w3"
    using GetCurrentAction_eq [OF x3 e(2), of lib v fm args] c cx3
    by (auto simp: next_action_def nat_add_distrib)
  have retire: "(if retires_on_saturation ?x2 \<and> IsSaturated ?x2 then Retire e ?w2 else Inr ?w2) = Inr w3"
    using x2 e(2) by (simp add: w3_def ret_def Retire_def)
  have run: "GetActionForArguments lib v fm args e w =
      Inr (Some (next_action x), ''Mock function call matches '' @ source_text ?x2 @ ''...'' @ [CHR 0x0A], [], w4)"
    using e c ns x2 retire w4(1) ok
    by (simp add: GetActionForArguments_def IncrementCallCount_def prerequisites_ok_def)
  have cnt: "counted e w w4"
    unfolding counted_def
  proof (intro allI impI)
    fix p y assume y: "exps w p = Some y"
    show "\<exists>b. exps w4 p = Some (y\<lparr>call_count := call_count y + (if p = e then 1 else 0), retired := retired y \<or> b\<rparr>)"
    proof (cases "p = e")
      case True
      then have "y = x" using e y by simp
      then show ?thesis using True x3 w4(2) by (cases ret) (auto simp: x3_def intro: exI [of _ True] exI [of _ b])
    next
      case False
      then show ?thesis using y w4(2) exps_retire_prereqs [of ?w1 p y e] by (auto simp: w3_def)
    qed
  qed
  have "retired y" if "(p, e) \<in> (prereq_rel w)\<^sup>+" "exps w4 p = Some y" for p y
    using that w4(2) rel by (auto simp: w3_def retire_prereqs_def split: if_splits)
  then show ?thesis using run cnt by blast
qed

section \<open>The actions of an expectation, in order\<close>

text \<open>The actions returned for a number of calls that one expectation handles.\<close>

fun call_times ::
  "('v, 'r, 'w) gmock_lib \<Rightarrow> bool \<Rightarrow> ('v, 'r, 'w) function_mocker \<Rightarrow> 'v list \<Rightarrow> ptr \<Rightarrow> nat \<Rightarrow> ('v, 'r, 'w) mock_world \<Rightarrow>
   (('v, 'r, 'w) action option list \<times> ('v, 'r, 'w) mock_world) res" where
  "call_times lib v fm args e 0 w = Inr ([], w)"
| "call_times lib v fm args e (Suc n) w =
     bindr (GetActionForArguments lib v fm args e w) (\<lambda>(a, what, why, w1).
       bindr (call_times lib v fm args e n w1) (\<lambda>(as, w2). Inr (a # as, w2)))"

definition will_clauses ::
  "('v, 'r, 'w) gmock_lib \<Rightarrow> ('v, 'r, 'w) action list \<Rightarrow> ('v, 'r, 'w) action option \<Rightarrow> ptr \<Rightarrow> ('v, 'r, 'w) mock_world \<Rightarrow>
   ('v, 'r, 'w) mock_world res" where
  "will_clauses lib acts rep e w = bindr (each_clause (\<lambda>a. WillOnce lib a e) acts w) (\<lambda>w1.
     case rep of None \<Rightarrow> Inr w1 | Some r \<Rightarrow> WillRepeatedly lib r e w1)"

lemma call_step:
  assumes ok: "prerequisites_ok lib" and e: "exps w e = Some x" "e \<noteq> NULL"
    and c: "0 \<le> call_count x" "call_count x < INT_MAX"
  shows "\<exists>what why w' b. GetActionForArguments lib v fm args e w =
      Inr (if IsSaturated x then None else Some (next_action x), what, why, w')
    \<and> exps w' e = Some (x\<lparr>call_count := call_count x + 1, retired := retired x \<or> b\<rparr>)"
proof (cases "IsSaturated x")
  case True
  then obtain what why w' where "GetActionForArguments lib v fm args e w = Inr (None, what, why, w')"
      "exps w' e = Some (x\<lparr>call_count := call_count x + 1\<rparr>)"
    using GetActionForArguments_saturated [OF e c(2) True, of lib v fm args] by auto
  then show ?thesis using True by (intro exI [of _ what] exI [of _ why] exI [of _ w'] exI [of _ False]) simp
next
  case False
  then obtain what why w' where run: "GetActionForArguments lib v fm args e w = Inr (Some (next_action x), what, why, w')"
      "counted e w w'"
    using GetActionForArguments_next [OF ok e c] by blast
  have "\<exists>b. exps w' e = Some (x\<lparr>call_count := call_count x + (if e = e then 1 else 0), retired := retired x \<or> b\<rparr>)"
    using run(2) e(1) unfolding counted_def by blast
  then obtain b where "exps w' e = Some (x\<lparr>call_count := call_count x + 1, retired := retired x \<or> b\<rparr>)" by auto
  then show ?thesis using run(1) False
    by (intro exI [of _ what] exI [of _ why] exI [of _ w'] exI [of _ b]) simp
qed

lemma call_times_eq:
  assumes ok: "prerequisites_ok lib" and e: "e \<noteq> NULL"
  shows "exps w e = Some x \<Longrightarrow> untyped_actions x = acts \<Longrightarrow> call_count x = int i \<Longrightarrow>
    (\<forall>c. c < INT_MAX \<longrightarrow> IsSaturatedByCallCount (e_cardinality x) c = (rep = None \<and> int (length acts) \<le> c)) \<Longrightarrow>
    (\<forall>r. rep = Some r \<longrightarrow> repeated_action x = r) \<Longrightarrow> int i + int n \<le> INT_MAX \<Longrightarrow>
    \<exists>w'. call_times lib v fm args e n w =
      Inr (map (\<lambda>k. if k < length acts then Some (acts ! k) else rep) [i..<i + n], w')"
proof (induction n arbitrary: w x i)
  case (Suc n)
  have c: "0 \<le> call_count x" "call_count x < INT_MAX" using Suc.prems by simp_all
  obtain what why w1 b where s: "GetActionForArguments lib v fm args e w =
        Inr (if IsSaturated x then None else Some (next_action x), what, why, w1)"
      "exps w1 e = Some (x\<lparr>call_count := call_count x + 1, retired := retired x \<or> b\<rparr>)"
    using call_step [OF ok Suc.prems(1) e c] by blast
  have sat: "IsSaturated x \<longleftrightarrow> rep = None \<and> length acts \<le> i"
    using Suc.prems(3,4) c(2) by (simp add: IsSaturated_def)
  have "(if IsSaturated x then None else Some (next_action x)) = (if i < length acts then Some (acts ! i) else rep)"
    using sat Suc.prems(2,3,5) by (auto simp: next_action_def)
  moreover obtain w2 where "call_times lib v fm args e n w1 =
      Inr (map (\<lambda>k. if k < length acts then Some (acts ! k) else rep) [Suc i..<Suc i + n], w2)"
    using Suc.IH [OF s(2), of "Suc i"] Suc.prems by auto
  moreover have "[i..<i + Suc n] = i # [Suc i..<Suc i + n]" by (simp add: upt_conv_Cons)
  ultimately show ?case using s(1) by (simp del: upt_Suc)
qed simp

lemma WillOnce_all:
  "e \<noteq> NULL \<Longrightarrow> exps w e = Some x \<Longrightarrow> \<not> cardinality_specified x \<Longrightarrow>
   \<exists>w' x'. each_clause (\<lambda>a. WillOnce lib a e) acts w = Inr w' \<and> exps w' e = Some x'
     \<and> untyped_actions x' = untyped_actions x @ acts \<and> \<not> cardinality_specified x'
     \<and> call_count x' = call_count x
     \<and> e_cardinality x' = (if acts = [] then e_cardinality x else Exactly lib (int (length (untyped_actions x'))))"
proof (induction acts arbitrary: w x)
  case (Cons a acts)
  let ?x = "x\<lparr>last_clause := kWillOnce, untyped_actions := untyped_actions x @ [a],
     e_cardinality := Exactly lib (int (length (untyped_actions x @ [a])))\<rparr>"
  obtain w1 where w1: "WillOnce lib a e w = Inr w1" "exps w1 e = Some ?x"
    using Cons.prems by (simp add: WillOnce_def ExpectSpecProperty_def)
  show ?case using Cons.IH [OF Cons.prems(1) w1(2)] Cons.prems(3) w1(1) by auto
qed simp

text \<open>C19: An expectation declared without a \<open>Times\<close> clause, with the actions
  \<open>WillOnce(a_1) ... WillOnce(a_k)\<close> and possibly \<open>WillRepeatedly(r)\<close> (at least one of them), answers its n-th call with \<open>a_n\<close> up to the k-th, and
  with \<open>r\<close> from then on; without \<open>WillRepeatedly\<close> every further call is excessive (no action).\<close>

theorem expectation_actions_in_order:
  assumes "lib_ok lib" and "e \<noteq> NULL" and "exps w e = Some (make_TypedExpectation c f l src ms)"
    and "acts \<noteq> [] \<or> rep \<noteq> None" and "int n \<le> INT_MAX"
  shows "\<exists>w1 w2. will_clauses lib acts rep e w = Inr w1
    \<and> call_times lib is_void fm args e n w1 =
        Inr (map (\<lambda>k. if k < length acts then Some (acts ! k) else rep) [0..<n], w2)"
proof -
  have card: "cardinalities_ok lib" and chk: "checks_ok lib" and pre: "prerequisites_ok lib"
    using assms(1) by (simp_all add: lib_ok_def)
  obtain w' x where w': "each_clause (\<lambda>a. WillOnce lib a e) acts w = Inr w'" "exps w' e = Some x"
      "untyped_actions x = acts" "\<not> cardinality_specified x" "call_count x = 0"
      "acts \<noteq> [] \<Longrightarrow> e_cardinality x = Exactly lib (int (length acts))"
    using WillOnce_all [OF assms(2,3), of lib acts] by (auto simp: make_TypedExpectation_def)
  have "\<exists>w1 x1. will_clauses lib acts rep e w = Inr w1 \<and> exps w1 e = Some x1 \<and> untyped_actions x1 = acts
    \<and> call_count x1 = 0 \<and> (\<forall>r. rep = Some r \<longrightarrow> repeated_action x1 = r)
    \<and> e_cardinality x1 = (if rep = None then Exactly lib (int (length acts)) else AtLeast lib (int (length acts)))"
  proof (cases rep)
    case None
    then show ?thesis using w' assms(4) by (auto simp: will_clauses_def)
  next
    case (Some r)
    let ?x2 = "x\<lparr>last_clause := kWillRepeatedly, repeated_action_specified := True, repeated_action := r,
        e_cardinality := AtLeast lib (int (length acts))\<rparr>"
    obtain w2 where w2: "WillRepeatedly lib r e w' = Inr (CheckActionCountIfNotDone lib e w2)" "exps w2 e = Some ?x2"
      using w'(2,3,4) assms(2) by (simp add: WillRepeatedly_def ExpectSpecProperty_def)
    obtain lg where "CheckActionCountIfNotDone lib e w2 =
        w2\<lparr>exps := (exps w2)(e \<mapsto> ?x2\<lparr>action_count_checked := True\<rparr>), mock_log := lg\<rparr>"
      using chk w2(2) unfolding checks_ok_def by blast
    then show ?thesis using w'(1,3,5) w2(1) Some by (simp add: will_clauses_def)
  qed
  then obtain w1 x1 where x1: "will_clauses lib acts rep e w = Inr w1" "exps w1 e = Some x1" "untyped_actions x1 = acts"
      "call_count x1 = 0" "\<forall>r. rep = Some r \<longrightarrow> repeated_action x1 = r"
      "e_cardinality x1 = (if rep = None then Exactly lib (int (length acts)) else AtLeast lib (int (length acts)))"
    by blast
  have "\<forall>d. d < INT_MAX \<longrightarrow> IsSaturatedByCallCount (e_cardinality x1) d = (rep = None \<and> int (length acts) \<le> d)"
    using card x1(6) by (simp add: cardinalities_ok_def)
  then show ?thesis
    using call_times_eq [OF pre assms(2) x1(2,3), of 0 rep n is_void fm args] x1 assms(5) by simp
qed

definition demo_world :: "(int, int, unit) mock_world" where
  "demo_world = \<lparr>exps = [8 \<mapsto> make_TypedExpectation
       \<lparr>ConservativeLowerBound = 1, ConservativeUpperBound = 1, IsSatisfiedByCallCount = (\<lambda>c. c = 1),
        IsSaturatedByCallCount = (\<lambda>c. 1 \<le> c)\<rparr> ''t.cc'' 5 ''EXPECT_CALL(m, f())'' []],
     spec_failures = [], mock_log = []\<rparr>"

definition demo_mocker :: "(int, int, unit) function_mocker" where
  "demo_mocker = \<lparr>mocker_name = ''f'', on_call_specs = [], expectations = [8]\<rparr>"

theorem expectation_actions_in_order_witness:
  "\<exists>w1 w2. will_clauses reference_lib [Some (\<lambda>args u. Inr (1, u)), Some (\<lambda>args u. Inr (2, u))] None 8 demo_world = Inr w1
    \<and> call_times reference_lib False demo_mocker [] 8 3 w1 =
      Inr ([Some (Some (\<lambda>args u. Inr (1, u))), Some (Some (\<lambda>args u. Inr (2, u))), None], w2)"
proof -
  let ?acts = "[Some (\<lambda>args u. Inr (1, u)), Some (\<lambda>args u. Inr (2, u))] :: (int, int, unit) action list"
  have "[0..<3] = [0, 1, 2 :: nat]" by (simp add: upt_rec)
  then have m: "map (\<lambda>k. if k < length ?acts then Some (?acts ! k) else None) [0..<3] =
      [Some (?acts ! 0), Some (?acts ! 1), None]" by simp
  have "exps demo_world 8 = Some (the (exps demo_world 8))" by (simp add: demo_world_def)
  then show ?thesis
    using expectation_actions_in_order [OF reference_lib_ok, where e = 8 and w = demo_world and acts = ?acts
        and rep = None and n = 3 and is_void = False and fm = demo_mocker and args = "[]"]
    unfolding m by (auto simp: INT_MAX_def demo_world_def simp del: call_times.simps)
qed

section \<open>Which expectation handles a call\<close>

definition handles :: "('v, 'r, 'w) mock_world \<Rightarrow> 'v list \<Rightarrow> ptr \<Rightarrow> bool" where
  "handles w args e \<longleftrightarrow> (\<exists>x. exps w e = Some x \<and> \<not> retired x \<and> all_satisfied e w \<and> Expectation_Matches x args)"

definition live_exps :: "('v, 'r, 'w) mock_world \<Rightarrow> ptr list \<Rightarrow> bool" where
  "live_exps w es \<longleftrightarrow> (\<forall>e \<in> set es. e \<noteq> NULL \<and> exps w e \<noteq> None)"

definition counts_ok :: "('v, 'r, 'w) mock_world \<Rightarrow> bool" where
  "counts_ok w \<longleftrightarrow> (\<forall>p x. exps w p = Some x \<longrightarrow> 0 \<le> call_count x \<and> call_count x < INT_MAX)"

text \<open>Two worlds whose expectations differ only in whether their action count was checked.\<close>

definition core :: "('v, 'r, 'w) expectation \<Rightarrow> ('v, 'r, 'w) expectation" where
  "core x = x\<lparr>action_count_checked := True\<rparr>"

definition same_core :: "('v, 'r, 'w) mock_world \<Rightarrow> ('v, 'r, 'w) mock_world \<Rightarrow> bool" where
  "same_core w w' \<longleftrightarrow> (\<forall>p. map_option core (exps w p) = map_option core (exps w' p))"

lemma core_fields:
  assumes "core x = core y"
  shows "retired x = retired y" "immediate_prerequisites x = immediate_prerequisites y" "call_count x = call_count y"
    "IsSatisfied x = IsSatisfied y" "IsSaturated x = IsSaturated y" "Expectation_Matches x args = Expectation_Matches y args"
    "next_action x = next_action y"
  using assms by (cases x; cases y; simp add: core_def IsSatisfied_def IsSaturated_def Expectation_Matches_def next_action_def)+

lemma same_core_sym: "same_core w w' \<Longrightarrow> same_core w' w"
  and same_core_trans: "same_core w w' \<Longrightarrow> same_core w' w'' \<Longrightarrow> same_core w w''"
  and same_core_refl: "same_core w w"
  by (simp_all add: same_core_def)

lemma same_core_get: "same_core w w' \<Longrightarrow> exps w p = Some x \<Longrightarrow> \<exists>y. exps w' p = Some y \<and> core x = core y"
  unfolding same_core_def by (metis map_option_eq_Some)

lemma same_core_prereq_rel: "same_core w w' \<Longrightarrow> prereq_rel w = prereq_rel w'"
proof -
  have "prereq_rel a \<subseteq> prereq_rel b" if "same_core a b" for a b :: "('v, 'r, 'w) mock_world"
    using same_core_get [OF that] core_fields(2) by (fastforce simp: prereq_rel_def)
  then show "same_core w w' \<Longrightarrow> prereq_rel w = prereq_rel w'" by (metis same_core_sym subset_antisym)
qed

lemma same_core_handles:
  fixes w w' :: "('v, 'r, 'w) mock_world"
  shows "same_core w w' \<Longrightarrow> handles w args e \<longleftrightarrow> handles w' args e"
proof -
  have sat: "all_satisfied e a \<Longrightarrow> all_satisfied e b" if s: "same_core a b" for a b :: "('v, 'r, 'w) mock_world"
    using same_core_get [OF same_core_sym [OF s]] same_core_prereq_rel [OF s] core_fields(4)
    unfolding all_satisfied_def by metis
  have "handles a args e \<Longrightarrow> handles b args e" if s: "same_core a b" for a b :: "('v, 'r, 'w) mock_world"
    using same_core_get [OF s] sat [OF s] core_fields(1,6) unfolding handles_def by metis
  then show "same_core w w' \<Longrightarrow> handles w args e \<longleftrightarrow> handles w' args e" by (metis same_core_sym)
qed

lemma ShouldHandleArguments_eq:
  assumes ok: "checks_ok lib" "prerequisites_ok lib" and e: "e \<noteq> NULL" "exps w e \<noteq> None"
  shows "\<exists>w'. ShouldHandleArguments lib args e w = Inr (handles w args e, w') \<and> same_core w w'"
proof -
  obtain x where x: "exps w e = Some x" using e by blast
  obtain lg where w1: "CheckActionCountIfNotDone lib e w =
      w\<lparr>exps := (exps w)(e \<mapsto> x\<lparr>action_count_checked := True\<rparr>), mock_log := lg\<rparr>" (is "_ = ?w1")
    using ok(1) x unfolding checks_ok_def by blast
  have s: "same_core w ?w1" using x by (simp add: same_core_def core_def)
  have "ShouldHandleArguments lib args e w = Inr (handles ?w1 args e, ?w1)"
    using e(1) ok(2) by (simp add: ShouldHandleArguments_def w1 handles_def prerequisites_ok_def Let_def)
  then show ?thesis using s same_core_handles [OF s, of args e] by auto
qed

lemma find_matching_eq:
  assumes ok: "checks_ok lib" "prerequisites_ok lib"
  shows "live_exps w es \<Longrightarrow> \<exists>w'. find_matching lib args es w = Inr (find (handles w args) es, w') \<and> same_core w w'"
proof (induction es arbitrary: w)
  case (Cons e es)
  have e: "e \<noteq> NULL" "exps w e \<noteq> None" using Cons.prems by (auto simp: live_exps_def)
  obtain w1 where w1: "ShouldHandleArguments lib args e w = Inr (handles w args e, w1)" "same_core w w1"
    using ShouldHandleArguments_eq [OF ok e] by blast
  have "live_exps w1 es" using Cons.prems same_core_get [OF w1(2)] by (fastforce simp: live_exps_def)
  then obtain w2 where w2: "find_matching lib args es w1 = Inr (find (handles w1 args) es, w2)" "same_core w1 w2"
    using Cons.IH by blast
  have "handles w1 args = handles w args" using same_core_handles [OF w1(2)] by blast
  then show ?case using w1 w2 same_core_trans [OF w1(2) w2(2)] by auto
qed (simp add: same_core_refl)

text \<open>The messages for an unexpected call can always be written.\<close>

lemma bindr_total: "\<exists>s. m = Inr s \<Longrightarrow> (\<And>x. \<exists>s. f x = Inr s) \<Longrightarrow> \<exists>s. bindr m f = Inr s"
  by auto

lemma describe_prereqs_total:
  "live_exps w ps \<Longrightarrow> \<exists>s. describe_prereqs lib w i ps os = Inr s"
  by (induction ps arbitrary: i os) (auto simp: live_exps_def)

lemma ExplainMatchResultTo_total:
  assumes "prerequisites_ok lib" "e \<noteq> NULL" "exps w e \<noteq> None"
  shows "\<exists>s. Expectation_ExplainMatchResultTo lib pr w e args os = Inr s"
proof -
  have "set (FindUnsatisfiedPrerequisites lib e w) \<subseteq> dom (exps w) - {NULL}"
    using assms(1) unfolding prerequisites_ok_def by blast
  then have live: "live_exps w (FindUnsatisfiedPrerequisites lib e w)"
    by (fastforce simp: live_exps_def)
  obtain x where x: "exps w e = Some x" using assms(3) by blast
  consider "retired x" | "\<not> retired x" "\<not> Expectation_Matches x args"
    | "\<not> retired x" "Expectation_Matches x args" "\<not> AllPrerequisitesAreSatisfied lib e w"
    | "\<not> retired x" "Expectation_Matches x args" "AllPrerequisitesAreSatisfied lib e w" by blast
  then show ?thesis
  proof cases
    case 3
    obtain s where "describe_prereqs lib w 0 (FindUnsatisfiedPrerequisites lib e w)
           (os @ ''         Expected: all pre-requisites are satisfied'' @ [CHR 0x0A]
             @ ''           Actual: the following immediate pre-requisites are not satisfied:'' @ [CHR 0x0A]) = Inr s"
      using describe_prereqs_total [OF live] by blast
    then show ?thesis using assms(2) x 3 by (simp add: Expectation_ExplainMatchResultTo_def)
  qed (use assms(2) x in \<open>simp_all add: Expectation_ExplainMatchResultTo_def Let_def case_prod_beta\<close>)
qed

lemma print_tried_total:
  "prerequisites_ok lib \<Longrightarrow> live_exps w es \<Longrightarrow> \<exists>s. print_tried lib pr w args c i es why = Inr s"
proof (induction es arbitrary: i why)
  case (Cons e es)
  then have e: "e \<noteq> NULL" "exps w e \<noteq> None" and es: "live_exps w es" by (auto simp: live_exps_def)
  then obtain x where x: "exps w e = Some x" by blast
  have "\<exists>s. bindr (Expectation_ExplainMatchResultTo lib pr w e args why1) (\<lambda>why2.
      print_tried lib pr w args c (i + 1) es (why2 @ DescribeCallCountTo lib e w)) = Inr s" for why1
    by (rule bindr_total [OF ExplainMatchResultTo_total [OF Cons.prems(1) e] Cons.IH [OF Cons.prems(1) es]])
  then show ?case using x e(1) by (simp add: Let_def)
qed simp

lemma unexpected_message_total:
  assumes "prerequisites_ok lib" "live_exps w (expectations fm)"
  shows "\<exists>what why. FormatUnexpectedCallMessageLocked lib pr v fm args w = Inr (what, why)"
proof -
  obtain why where "PrintTriedExpectationsLocked lib pr fm args w [] = Inr why"
    using print_tried_total [OF assms] unfolding PrintTriedExpectationsLocked_def Let_def by blast
  then show ?thesis by (simp add: FormatUnexpectedCallMessageLocked_def)
qed

text \<open>The effect of handling a call on all expectations.\<close>

lemma call_effect:
  assumes ok: "prerequisites_ok lib" and e: "exps w e = Some x" "e \<noteq> NULL"
    and c: "0 \<le> call_count x" "call_count x < INT_MAX"
  shows "\<exists>what why w'. GetActionForArguments lib v fm args e w =
      Inr (if IsSaturated x then None else Some (next_action x), what, why, w')
    \<and> (\<forall>p y. exps w p = Some y \<longrightarrow> (\<exists>z. exps w' p = Some z \<and> call_count z = call_count y + (if p = e then 1 else 0)))
    \<and> (\<not> IsSaturated x \<longrightarrow> (\<forall>p y. (p, e) \<in> (prereq_rel w)\<^sup>+ \<longrightarrow> exps w' p = Some y \<longrightarrow> retired y))"
proof (cases "IsSaturated x")
  case True
  obtain what why w' where w': "GetActionForArguments lib v fm args e w = Inr (None, what, why, w')"
      "exps w' = (exps w)(e \<mapsto> x\<lparr>call_count := call_count x + 1\<rparr>)"
    using GetActionForArguments_saturated [OF e c(2) True] by blast
  then show ?thesis using e(1) True
    by (intro exI [of _ what] exI [of _ why] exI [of _ w']) simp
next
  case False
  obtain what why w' where w': "GetActionForArguments lib v fm args e w = Inr (Some (next_action x), what, why, w')"
      "counted e w w'" "\<forall>p y. (p, e) \<in> (prereq_rel w)\<^sup>+ \<longrightarrow> exps w' p = Some y \<longrightarrow> retired y"
    using GetActionForArguments_next [OF ok e c False] by blast
  have "\<exists>z. exps w' p = Some z \<and> call_count z = call_count y + (if p = e then 1 else 0)" if y: "exps w p = Some y" for p y
  proof -
    obtain b where "exps w' p = Some (y\<lparr>call_count := call_count y + (if p = e then 1 else 0), retired := retired y \<or> b\<rparr>)"
      using w'(2) y unfolding counted_def by blast
    then show ?thesis by simp
  qed
  then show ?thesis using w' False by auto
qed

text \<open>The action of a call: none unless an expectation handles it within its limits, and then its next one.\<close>

definition chosen_action :: "('v, 'r, 'w) mock_world \<Rightarrow> ptr option \<Rightarrow> ('v, 'r, 'w) action" where
  "chosen_action w found = (case Option.bind found (exps w) of
     None \<Rightarrow> None | Some x \<Rightarrow> if IsSaturated x then None else next_action x)"

definition call_report ::
  "('v, 'r, 'w) mock_world \<Rightarrow> ptr option \<Rightarrow> bool \<Rightarrow> ('v, 'r, 'w) mock_world \<Rightarrow> bool" where
  "call_report w found excessive w' \<longleftrightarrow>
     excessive = (\<exists>e x. found = Some e \<and> exps w e = Some x \<and> IsSaturated x)
     \<and> (\<forall>p x. exps w p = Some x \<longrightarrow> (\<exists>y. exps w' p = Some y
           \<and> call_count y = call_count x + (if found = Some p then 1 else 0)))
     \<and> (\<forall>e p y. found = Some e \<longrightarrow> \<not> excessive \<longrightarrow> (p, e) \<in> (prereq_rel w)\<^sup>+ \<longrightarrow> exps w' p = Some y \<longrightarrow> retired y)"

lemma call_report_core:
  assumes "same_core w w1" "call_report w1 f b w'"
  shows "call_report w f b w'"
proof -
  note get = same_core_get [OF assms(1)] and teg = same_core_get [OF same_core_sym [OF assms(1)]]
  have sat: "(\<exists>e x. f = Some e \<and> exps w1 e = Some x \<and> IsSaturated x) = (\<exists>e x. f = Some e \<and> exps w e = Some x \<and> IsSaturated x)"
    using get teg core_fields(5) by metis
  have "\<exists>y. exps w' p = Some y \<and> call_count y = call_count x + (if f = Some p then 1 else 0)" if "exps w p = Some x" for p x
    using get [OF that] assms(2) core_fields(3) unfolding call_report_def by metis
  then show ?thesis
    using assms(2) sat same_core_prereq_rel [OF assms(1)] unfolding call_report_def by simp
qed

lemma found_expectation:
  assumes ok: "lib_ok lib" and live: "live_exps w (expectations fm)" and cnt: "counts_ok w"
  shows "\<exists>r w'. UntypedFindMatchingExpectation lib pr is_void fm args w = Inr (r, w')
    \<and> found_exp r = find (handles w args) (rev (expectations fm))
    \<and> call_report w (found_exp r) (is_excessive r) w'
    \<and> found_action r = chosen_action w (found_exp r)"
proof -
  have chk: "checks_ok lib" and pre: "prerequisites_ok lib" using ok by (simp_all add: lib_ok_def)
  have live': "live_exps w (rev (expectations fm))" using live by (simp add: live_exps_def)
  let ?f = "find (handles w args) (rev (expectations fm))"
  obtain w1 where w1: "FindMatchingExpectationLocked lib fm args w = Inr (?f, w1)" "same_core w w1"
    using find_matching_eq [OF chk pre live'] unfolding FindMatchingExpectationLocked_def by blast
  note get = same_core_get [OF w1(2)]
  show ?thesis
  proof (cases ?f)
    case None
    have "live_exps w1 (expectations fm)" using live get unfolding live_exps_def by (metis option.distinct(1) option.exhaust)
    then obtain what why where "FormatUnexpectedCallMessageLocked lib pr is_void fm args w1 = Inr (what, why)"
      using unexpected_message_total [OF pre] by blast
    then have "UntypedFindMatchingExpectation lib pr is_void fm args w = Inr
        (\<lparr>found_exp = None, found_action = None, is_excessive = False, what_msg = what, why_msg = why\<rparr>, w1)"
      using w1(1) None by (simp add: UntypedFindMatchingExpectation_def)
    moreover have "call_report w None False w1"
      by (rule call_report_core [OF w1(2)]) (simp add: call_report_def)
    ultimately show ?thesis using None
      by (intro exI [of _ "\<lparr>found_exp = None, found_action = None, is_excessive = False, what_msg = what, why_msg = why\<rparr>"]
          exI [of _ w1]) (simp add: chosen_action_def)
  next
    case (Some e)
    then have "e \<in> set (expectations fm)" by (metis find_Some_iff length_rev nth_mem set_rev)
    then have eN: "e \<noteq> NULL" and "exps w e \<noteq> None" using live by (auto simp: live_exps_def)
    then obtain x where x: "exps w e = Some x" by blast
    obtain x1 where x1: "exps w1 e = Some x1" "core x = core x1" using get [OF x] by blast
    have c1: "0 \<le> call_count x1" "call_count x1 < INT_MAX"
      using cnt x core_fields(3) [OF x1(2)] unfolding counts_ok_def by metis+
    obtain what why w2 where w2: "GetActionForArguments lib is_void fm args e w1 =
        Inr (if IsSaturated x1 then None else Some (next_action x1), what, why, w2)"
        "\<forall>p y. exps w1 p = Some y \<longrightarrow> (\<exists>z. exps w2 p = Some z \<and> call_count z = call_count y + (if p = e then 1 else 0))"
        "\<not> IsSaturated x1 \<longrightarrow> (\<forall>p y. (p, e) \<in> (prereq_rel w1)\<^sup>+ \<longrightarrow> exps w2 p = Some y \<longrightarrow> retired y)"
      using call_effect [OF pre x1(1) eN c1] by blast
    have "call_report w1 (Some e) (IsSaturated x1) w2"
      unfolding call_report_def using w2(2,3) x1(1) by (auto simp: eq_commute [of e])
    then have "call_report w (Some e) (IsSaturated x1) w2" by (rule call_report_core [OF w1(2)])
    moreover obtain r where "UntypedFindMatchingExpectation lib pr is_void fm args w = Inr (r, w2)"
        "found_exp r = Some e" "is_excessive r = IsSaturated x1"
        "found_action r = (if IsSaturated x1 then None else next_action x1)"
      using w1(1) Some x1(1) eN w2(1) by (auto simp: UntypedFindMatchingExpectation_def Let_def IsDoDefault_def)
    moreover have "chosen_action w (Some e) = (if IsSaturated x1 then None else next_action x1)"
      using x core_fields(5,7) [OF x1(2)] by (simp add: chosen_action_def)
    ultimately show ?thesis using Some by (intro exI [of _ r] exI [of _ w2]) simp
  qed
qed

text \<open>A call to a mock function always returns a verdict; it is handled by the most recently declared
  expectation that is not retired, has its prerequisites satisfied and matches the arguments, if there
  is one; the call is reported as excessive exactly when that expectation was saturated; and exactly
  that expectation's call count grows, by one.\<close>

theorem newest_active_expectation_handles:
  assumes "lib_ok lib" and "live_exps w (expectations fm)" and "counts_ok w"
  shows "\<exists>r w'. UntypedFindMatchingExpectation lib pr is_void fm args w = Inr (r, w')
    \<and> found_exp r = find (handles w args) (rev (expectations fm))
    \<and> is_excessive r = (\<exists>e x. found_exp r = Some e \<and> exps w e = Some x \<and> IsSaturated x)
    \<and> (\<forall>p x. exps w p = Some x \<longrightarrow> (\<exists>y. exps w' p = Some y
          \<and> call_count y = call_count x + (if found_exp r = Some p then 1 else 0)))"
  using found_expectation [OF assms, of pr is_void args] unfolding call_report_def by blast

theorem newest_active_expectation_handles_witness:
  "\<exists>r w' y. UntypedFindMatchingExpectation reference_lib \<lparr>UniversalPrint = show_int, GetTypeName = ''int''\<rparr> False
      demo_mocker [] demo_world = Inr (r, w')
    \<and> found_exp r = Some 8 \<and> \<not> is_excessive r \<and> exps w' 8 = Some y \<and> call_count y = 1"
proof -
  let ?pr = "\<lparr>UniversalPrint = show_int, GetTypeName = ''int''\<rparr>"
  obtain x where x: "exps demo_world 8 = Some x" "call_count x = 0" "\<not> IsSaturated x" "\<not> retired x"
      "Expectation_Matches x []" "immediate_prerequisites x = {}"
    by (simp add: demo_world_def make_TypedExpectation_def IsSaturated_def Expectation_Matches_def
        TupleMatches_def AnyMatcher_matches)
  have "(p, 8) \<notin> (prereq_rel demo_world)\<^sup>+" for p
    using x(1,6) by (auto simp: prereq_rel_def elim: tranclE)
  then have h: "handles demo_world [] 8" using x by (auto simp: handles_def all_satisfied_def)
  have live: "live_exps demo_world (expectations demo_mocker)" using x(1) by (simp add: live_exps_def demo_mocker_def)
  have cnt: "counts_ok demo_world"
    by (simp add: counts_ok_def demo_world_def make_TypedExpectation_def INT_MAX_def)
  obtain r w' where r: "UntypedFindMatchingExpectation reference_lib ?pr False demo_mocker [] demo_world = Inr (r, w')"
      "found_exp r = find (handles demo_world []) (rev (expectations demo_mocker))"
      "is_excessive r = (\<exists>e x. found_exp r = Some e \<and> exps demo_world e = Some x \<and> IsSaturated x)"
      "\<forall>p x. exps demo_world p = Some x \<longrightarrow> (\<exists>y. exps w' p = Some y
          \<and> call_count y = call_count x + (if found_exp r = Some p then 1 else 0))"
    using newest_active_expectation_handles [OF reference_lib_ok live cnt, of ?pr False "[]"] by blast
  have f: "found_exp r = Some 8" using r(2) h by (simp add: demo_mocker_def)
  have "\<exists>y. exps w' 8 = Some y \<and> call_count y = 1" using r(4) [rule_format, OF x(1)] f x(2) by simp
  then show ?thesis using r(1,3) f x(1,3) by auto
qed

text \<open>On live expectations whose call counts an int holds, once a call has been handled by an expectation and
  is not excessive, every expectation that had to be satisfied before it (its prerequisites, direct or not) is
  retired: in the resulting state it handles no call, whatever its arguments, so ordered expectations cannot be
  matched out of order.\<close>

theorem prerequisites_retire:
  assumes "lib_ok lib" and "live_exps w (expectations fm)" and "counts_ok w"
    and "UntypedFindMatchingExpectation lib pr is_void fm args w = Inr (r, w')"
    and "found_exp r = Some e" and "\<not> is_excessive r" and "(p, e) \<in> (prereq_rel w)\<^sup>+"
  shows "\<not> handles w' args' p"
  using found_expectation [OF assms(1,2,3), of pr is_void args] assms(4-7)
  unfolding call_report_def handles_def by auto

text \<open>Expectation 8 must come after expectation 7, which was called once as it should.\<close>

definition once :: cardinality where
  "once = \<lparr>ConservativeLowerBound = 1, ConservativeUpperBound = 1, IsSatisfiedByCallCount = (\<lambda>c. c = 1),
     IsSaturatedByCallCount = (\<lambda>c. 1 \<le> c)\<rparr>"

definition ordered_world :: "(int, int, unit) mock_world" where
  "ordered_world = \<lparr>exps =
       [7 \<mapsto> (make_TypedExpectation once ''t.cc'' 5 ''EXPECT_CALL(m, f())'' [])\<lparr>call_count := 1\<rparr>,
        8 \<mapsto> (make_TypedExpectation once ''t.cc'' 6 ''EXPECT_CALL(m, f())'' [])\<lparr>immediate_prerequisites := {7}\<rparr>],
     spec_failures = [], mock_log = []\<rparr>"

theorem prerequisites_retire_witness:
  "\<exists>r w'. UntypedFindMatchingExpectation reference_lib \<lparr>UniversalPrint = show_int, GetTypeName = ''int''\<rparr> False
      (demo_mocker\<lparr>expectations := [7, 8]\<rparr>) [] ordered_world = Inr (r, w')
    \<and> found_exp r = Some 8 \<and> handles ordered_world [] 7 \<and> \<not> handles w' [] 7"
proof -
  let ?pr = "\<lparr>UniversalPrint = show_int, GetTypeName = ''int''\<rparr>" and ?fm = "demo_mocker\<lparr>expectations := [7, 8]\<rparr>"
  note defs = ordered_world_def make_TypedExpectation_def once_def
  have rel: "prereq_rel ordered_world = {(7, 8)}"
    by (auto simp: prereq_rel_def defs split: if_splits)
  moreover have "trans {(7, 8) :: nat \<times> nat}" by (simp add: trans_def)
  ultimately have tr: "(p, e) \<in> (prereq_rel ordered_world)\<^sup>+ \<longleftrightarrow> p = 7 \<and> e = 8" for p e
    by (simp add: trancl_id)
  have h: "handles ordered_world [] 8" "handles ordered_world [] 7"
    by (simp_all add: handles_def all_satisfied_def tr, simp_all add: defs IsSatisfied_def Expectation_Matches_def
        TupleMatches_def AnyMatcher_matches)
  have live: "live_exps ordered_world (expectations ?fm)" by (simp add: live_exps_def defs)
  have cnt: "counts_ok ordered_world" by (simp add: counts_ok_def defs INT_MAX_def)
  have rep: "\<exists>r w'. UntypedFindMatchingExpectation reference_lib ?pr False ?fm [] ordered_world = Inr (r, w')
    \<and> found_exp r = find (handles ordered_world []) (rev (expectations ?fm))
    \<and> call_report ordered_world (found_exp r) (is_excessive r) w'"
    using found_expectation [OF reference_lib_ok live cnt] by blast
  then obtain r w' where r: "UntypedFindMatchingExpectation reference_lib ?pr False ?fm [] ordered_world = Inr (r, w')"
      "found_exp r = find (handles ordered_world []) (rev (expectations ?fm))"
      "call_report ordered_world (found_exp r) (is_excessive r) w'" by blast
  have f: "found_exp r = Some 8" using r(2) h by simp
  have "\<not> IsSaturated (the (exps ordered_world 8))" by (simp add: defs IsSaturated_def)
  then have "\<not> is_excessive r" using r(3) f unfolding call_report_def by auto
  then have "\<not> handles w' [] 7"
    using prerequisites_retire [OF reference_lib_ok live cnt r(1) f _ , of 7 "[]"] tr by simp
  then show ?thesis using r(1) f h(2) by blast
qed

end
