(* ===== verification/Gmock_Function_Mockers.thy ===== *)
theory Gmock_Function_Mockers
  imports Gmock_Spec_Builders
begin

text \<open>
  Mock methods: the holders of action results and \<open>InvokeWith\<close> (gmock-spec-builders.h), the class \<open>FunctionMocker\<close> and the
  macros \<open>MOCK_METHOD\<close> (gmock-generated-function-mockers.h), \<open>EXPECT_CALL\<close> and \<open>ON_CALL\<close>. The classes and macros for the arities 0 to
  10 are one definition on lists. A call goes through \<open>UntypedInvokeWith\<close> of the compiled library, which leaves the result of
  the action in a holder on the heap; what the comments and messages of the headers say of it is \<open>invoke_contract\<close>. Main result: a call of a mock
  method performs the next action of the newest expectation that handles it, or the default action, returns its result and frees the holder.
\<close>

section \<open>Holders of action results\<close>

text \<open>A value, or for a reference the variable referred to. Unwrapping moves the value out and leaves \<open>husk\<close>.\<close>

datatype 'r wrapper = ValueWrapper 'r | ReferenceWrapper 'r

fun wrapper_Unwrap :: "'r \<Rightarrow> 'r wrapper \<Rightarrow> 'r \<times> 'r wrapper" where
  "wrapper_Unwrap husk (ValueWrapper v) = (v, ValueWrapper husk)"
| "wrapper_Unwrap husk (ReferenceWrapper v) = (v, ReferenceWrapper v)"

fun wrapper_Peek :: "'r wrapper \<Rightarrow> 'r" where
  "wrapper_Peek (ValueWrapper v) = v"
| "wrapper_Peek (ReferenceWrapper v) = v"

datatype result_kind = VoidResult | ValueResult | ReferenceResult

datatype 'r ActionResultHolder = ActionResultHolder "'r wrapper" | VoidHolder

fun make_holder :: "result_kind \<Rightarrow> 'r \<Rightarrow> 'r ActionResultHolder" where
  "make_holder VoidResult r = VoidHolder"
| "make_holder ValueResult r = ActionResultHolder (ValueWrapper r)"
| "make_holder ReferenceResult r = ActionResultHolder (ReferenceWrapper r)"

text \<open>A holder of \<open>void\<close> returns nothing, the argument \<open>nothing\<close>.\<close>

fun holder_Unwrap :: "'r \<Rightarrow> 'r \<Rightarrow> 'r ActionResultHolder \<Rightarrow> 'r \<times> 'r ActionResultHolder" where
  "holder_Unwrap husk nothing (ActionResultHolder w) =
     (case wrapper_Unwrap husk w of (v, w) \<Rightarrow> (v, ActionResultHolder w))"
| "holder_Unwrap husk nothing VoidHolder = (nothing, VoidHolder)"

fun PrintAsActionResult :: "('r \<Rightarrow> string) \<Rightarrow> 'r ActionResultHolder \<Rightarrow> string \<Rightarrow> string" where
  "PrintAsActionResult print (ActionResultHolder w) os =
     os @ [CHR 0x0A] @ ''          Returns: '' @ print (wrapper_Peek w)"
| "PrintAsActionResult print VoidHolder os = os"

section \<open>Mock methods\<close>

record ('v, 'r, 'w) mock_state =
  m_world :: "('v, 'r, 'w) mock_world"
  m_holders :: "ptr \<rightharpoonup> 'r ActionResultHolder"
  m_user :: 'w

text \<open>\<open>FunctionMocker\<close>: the lists of its base, the matchers of its \<open>current_spec_\<close> and the mock object it belongs to.\<close>

record ('v, 'r, 'w) mock_method =
  mm_base :: "('v, 'r, 'w) function_mocker"
  mm_matchers :: "'v matcher list"
  mm_owner :: ptr

text \<open>What the mock method's function type and the runtime fix.\<close>

record ('v, 'r, 'w) method_env =
  result_kind :: result_kind
  built_in_default :: "'r option"
  default_producer :: "('r, 'w) default_value"
  new_holder :: "('v, 'r, 'w) mock_state \<Rightarrow> ptr"
  moved_from :: 'r
  no_result :: 'r

text \<open>\<open>new ActionResultHolder(...)\<close> of a result; \<open>new\<close> gives NULL when it throws.\<close>

definition hold_result ::
  "('v, 'r, 'w) method_env \<Rightarrow> ('r \<times> 'w) res \<Rightarrow> ('v, 'r, 'w) mock_state \<Rightarrow> (ptr \<times> ('v, 'r, 'w) mock_state) res" where
  "hold_result E result s = bindr result (\<lambda>(r, u).
     let s = s\<lparr>m_user := u\<rparr>; p = new_holder E s in
     if p = NULL then Inl Uncaught
     else Inr (p, s\<lparr>m_holders := (m_holders s)(p \<mapsto> make_holder (result_kind E) r)\<rparr>))"

definition holder_PerformDefaultAction ::
  "('v, 'r, 'w) method_env \<Rightarrow> ('v, 'r, 'w) mock_method \<Rightarrow> 'v list \<Rightarrow> ('v, 'r, 'w) mock_state \<Rightarrow> (ptr \<times> ('v, 'r, 'w) mock_state) res" where
  "holder_PerformDefaultAction E mm args s =
     hold_result E (PerformDefaultAction (built_in_default E) (default_producer E) (mm_base mm) args (m_user s)) s"

definition holder_PerformAction ::
  "('v, 'r, 'w) method_env \<Rightarrow> ('v, 'r, 'w) action \<Rightarrow> 'v list \<Rightarrow> ('v, 'r, 'w) mock_state \<Rightarrow> (ptr \<times> ('v, 'r, 'w) mock_state) res" where
  "holder_PerformAction E a args s = hold_result E (UntypedPerformAction a args (m_user s)) s"

text \<open>The functions of the compiled library that a mock method calls.\<close>

record ('v, 'r, 'w) mocker_api =
  UntypedInvokeWith :: "('v, 'r, 'w) mock_method \<Rightarrow> 'v list \<Rightarrow> ('v, 'r, 'w) mock_state \<Rightarrow> (ptr \<times> ('v, 'r, 'w) mock_state) res"
  RegisterOwner :: "ptr \<Rightarrow> ('v, 'r, 'w) mock_method \<Rightarrow> ('v, 'r, 'w) mock_method"
  SetOwnerAndName :: "ptr \<Rightarrow> string \<Rightarrow> ('v, 'r, 'w) mock_method \<Rightarrow> ('v, 'r, 'w) mock_method"

text \<open>The \<open>scoped_ptr\<close> deletes the holder after the result was taken out of it.\<close>

definition InvokeWith ::
  "('v, 'r, 'w) mocker_api \<Rightarrow> ('v, 'r, 'w) method_env \<Rightarrow> ('v, 'r, 'w) mock_method \<Rightarrow> 'v list \<Rightarrow> ('v, 'r, 'w) mock_state \<Rightarrow>
    ('r \<times> ('v, 'r, 'w) mock_state) res" where
  "InvokeWith api E mm args s = bindr (UntypedInvokeWith api mm args s) (\<lambda>(holder, s).
     bindr (deref (m_holders s) holder) (\<lambda>h.
       case holder_Unwrap (moved_from E) (no_result E) h of (r, h) \<Rightarrow>
         bindr (free_at ((m_holders s)(holder \<mapsto> h)) holder) (\<lambda>hs. Inr (r, s\<lparr>m_holders := hs\<rparr>))))"

definition FunctionMocker_With :: "'v matcher list \<Rightarrow> ('v, 'r, 'w) mock_method \<Rightarrow> ('v, 'r, 'w) mock_method" where
  "FunctionMocker_With ms mm = (if ms = [] then mm else mm\<lparr>mm_matchers := ms\<rparr>)"

definition FunctionMocker_Invoke where
  "FunctionMocker_Invoke api E mm args s = InvokeWith api E mm args s"

text \<open>
  The two functions that \<open>MOCK_METHOD\<close> defines: the method itself and \<open>gmock_Method\<close>, which \<open>EXPECT_CALL\<close> and \<open>ON_CALL\<close> call. The arity
  is checked by the compiler.
\<close>

definition mock_method_call ::
  "('v, 'r, 'w) mocker_api \<Rightarrow> ('v, 'r, 'w) method_env \<Rightarrow> nat \<Rightarrow> ptr \<Rightarrow> string \<Rightarrow> ('v, 'r, 'w) mock_method \<Rightarrow> 'v list \<Rightarrow>
    ('v, 'r, 'w) mock_state \<Rightarrow> ('r \<times> ('v, 'r, 'w) mock_method \<times> ('v, 'r, 'w) mock_state) res" where
  "mock_method_call api E arity this name mm args s =
     (if length args \<noteq> arity then Inl OutOfBounds
      else let mm = SetOwnerAndName api this name mm in
        bindr (FunctionMocker_Invoke api E mm args s) (\<lambda>(r, s). Inr (r, mm, s)))"

definition gmock_method ::
  "('v, 'r, 'w) mocker_api \<Rightarrow> ptr \<Rightarrow> 'v matcher list \<Rightarrow> ('v, 'r, 'w) mock_method \<Rightarrow> ('v, 'r, 'w) mock_method" where
  "gmock_method api this ms mm = FunctionMocker_With ms (RegisterOwner api this mm)"

definition EXPECT_CALL where
  "EXPECT_CALL api lib seq c p f l obj call this ms mm s =
     (let mm = gmock_method api this ms mm in
      case InternalExpectedAt lib seq c p f l obj call (mm_matchers mm) (mm_base mm) (m_world s) of
        (fm, w) \<Rightarrow> (mm\<lparr>mm_base := fm\<rparr>, s\<lparr>m_world := w\<rparr>))"

definition ON_CALL where
  "ON_CALL api f l obj call this ms mm s =
     (let mm = gmock_method api this ms mm in
      case InternalDefaultActionSetAt f l obj call (mm_matchers mm) (mm_base mm) (m_world s) of
        (fm, w) \<Rightarrow> (mm\<lparr>mm_base := fm\<rparr>, s\<lparr>m_world := w\<rparr>))"

text \<open>\<open>MockFunction\<close> has one mock method, \<open>Call\<close>, also as a function object.\<close>

definition MockFunction_Call where
  "MockFunction_Call api E arity this = mock_method_call api E arity this ''Call''"

definition AsStdFunction where
  "AsStdFunction api E arity this = (\<lambda>mm args s. MockFunction_Call api E arity this mm args s)"

section \<open>What the library promises\<close>

definition owner_contract :: "('v, 'r, 'w) mocker_api \<Rightarrow> bool" where
  "owner_contract api \<longleftrightarrow> (\<forall>this name mm.
     RegisterOwner api this mm = mm\<lparr>mm_owner := this\<rparr> \<and>
     SetOwnerAndName api this name mm = mm\<lparr>mm_owner := this, mm_base := (mm_base mm)\<lparr>mocker_name := name\<rparr>\<rparr>)"

definition new_contract :: "('v, 'r, 'w) method_env \<Rightarrow> bool" where
  "new_contract E \<longleftrightarrow> (\<forall>s. finite (dom (m_holders s)) \<longrightarrow>
     new_holder E s \<noteq> NULL \<and> m_holders s (new_holder E s) = None)"

text \<open>
  A call of a method without expectations is uninteresting and gets the default action; else \<open>UntypedFindMatchingExpectation\<close>
  says which action should be performed, and an unexpected or excessive call gets the default action, as its
  messages announce. What is logged and reported is left open.
\<close>

definition invocation ::
  "('v, 'r, 'w) gmock_lib \<Rightarrow> 'v printer \<Rightarrow> ('v, 'r, 'w) method_env \<Rightarrow> ('v, 'r, 'w) mock_method \<Rightarrow> 'v list \<Rightarrow>
    ('v, 'r, 'w) mock_state \<Rightarrow> (ptr \<times> ('v, 'r, 'w) mock_state) res" where
  "invocation lib pr E mm args s =
     (if expectations (mm_base mm) = [] then holder_PerformDefaultAction E mm args s
      else bindr (UntypedFindMatchingExpectation lib pr (result_kind E = VoidResult) (mm_base mm) args (m_world s)) (\<lambda>(f, w).
        if found_exp f = None \<or> is_excessive f \<or> found_action f = None
        then holder_PerformDefaultAction E mm args (s\<lparr>m_world := w\<rparr>)
        else holder_PerformAction E (found_action f) args (s\<lparr>m_world := w\<rparr>)))"

definition invoke_contract ::
  "('v, 'r, 'w) mocker_api \<Rightarrow> ('v, 'r, 'w) gmock_lib \<Rightarrow> 'v printer \<Rightarrow> ('v, 'r, 'w) method_env \<Rightarrow> bool" where
  "invoke_contract api lib pr E \<longleftrightarrow> (\<forall>mm args s. \<exists>failures lg. UntypedInvokeWith api mm args s =
     bindr (invocation lib pr E mm args s) (\<lambda>(p, s').
       Inr (p, s'\<lparr>m_world := (m_world s')\<lparr>spec_failures := failures, mock_log := lg\<rparr>\<rparr>)))"

section \<open>What a call returns\<close>

lemma holder_round_trip:
  "holder_Unwrap husk nothing (make_holder k r) = (if k = VoidResult then nothing else r,
     case k of VoidResult \<Rightarrow> VoidHolder | ValueResult \<Rightarrow> ActionResultHolder (ValueWrapper husk)
       | ReferenceResult \<Rightarrow> ActionResultHolder (ReferenceWrapper r))"
  by (cases k) simp_all

text \<open>A held result comes out of \<open>InvokeWith\<close> with the holder gone.\<close>

lemma InvokeWith_held:
  assumes "new_contract E" and fin: "finite (dom (m_holders s1))"
    and untyped: "UntypedInvokeWith api mm args s = bindr (hold_result E result s1) (\<lambda>(p, s'). Inr (p, s'\<lparr>m_world := g (m_world s')\<rparr>))"
  shows "InvokeWith api E mm args s = bindr result (\<lambda>(r, u).
    Inr (if result_kind E = VoidResult then no_result E else r, s1\<lparr>m_world := g (m_world s1), m_user := u\<rparr>))"
proof (cases result)
  case (Inr ru)
  obtain r u where ru: "ru = (r, u)" by (cases ru)
  let ?p = "new_holder E (s1\<lparr>m_user := u\<rparr>)"
  have p: "?p \<noteq> NULL" "m_holders s1 ?p = None"
    using assms(1) [unfolded new_contract_def, rule_format, of "s1\<lparr>m_user := u\<rparr>"] fin by simp_all
  have "(m_holders s1)(?p := None) = m_holders s1" using p(2) by (simp add: fun_upd_idem)
  then show ?thesis using p(1)
    by (simp add: InvokeWith_def untyped Inr ru hold_result_def Let_def holder_round_trip free_at_def)
qed (simp add: InvokeWith_def untyped hold_result_def)

text \<open>What the action of a call does, and its result in the caller's hands.\<close>

definition call_result ::
  "('v, 'r, 'w) method_env \<Rightarrow> ('v, 'r, 'w) mock_method \<Rightarrow> ('v, 'r, 'w) action \<Rightarrow> 'v list \<Rightarrow> 'w \<Rightarrow> ('r \<times> 'w) res" where
  "call_result E mm a args u = bindr
     (case a of None \<Rightarrow> PerformDefaultAction (built_in_default E) (default_producer E) (mm_base mm) args u
      | Some impl \<Rightarrow> impl args u)
     (\<lambda>(r, u). Inr (if result_kind E = VoidResult then no_result E else r, u))"

definition handling :: "('v, 'r, 'w) mock_method \<Rightarrow> 'v list \<Rightarrow> ('v, 'r, 'w) mock_world \<Rightarrow> ptr option" where
  "handling mm args w = find (handles w args) (rev (expectations (mm_base mm)))"

definition counted_call :: "ptr option \<Rightarrow> ('v, 'r, 'w) mock_world \<Rightarrow> ('v, 'r, 'w) mock_world \<Rightarrow> bool" where
  "counted_call found w w' \<longleftrightarrow> (\<forall>p x. exps w p = Some x \<longrightarrow>
     (\<exists>y. exps w' p = Some y \<and> call_count y = call_count x + (if found = Some p then 1 else 0)))"

lemma invocation_chosen:
  assumes "lib_ok lib" "live_exps (m_world s) (expectations (mm_base mm))" "counts_ok (m_world s)"
  shows "\<exists>w'. counted_call (handling mm args (m_world s)) (m_world s) w' \<and>
    invocation lib pr E mm args s = hold_result E
      (case chosen_action (m_world s) (handling mm args (m_world s)) of
         None \<Rightarrow> PerformDefaultAction (built_in_default E) (default_producer E) (mm_base mm) args (m_user s)
       | Some impl \<Rightarrow> impl args (m_user s)) (s\<lparr>m_world := w'\<rparr>)"
proof (cases "expectations (mm_base mm) = []")
  case True
  then have "handling mm args (m_world s) = None" by (simp add: handling_def)
  then show ?thesis using True
    by (intro exI [of _ "m_world s"])
      (simp add: invocation_def holder_PerformDefaultAction_def chosen_action_def counted_call_def)
next
  case False
  obtain r w' where r: "UntypedFindMatchingExpectation lib pr (result_kind E = VoidResult) (mm_base mm) args (m_world s) = Inr (r, w')"
      "found_exp r = handling mm args (m_world s)" "call_report (m_world s) (found_exp r) (is_excessive r) w'"
      "found_action r = chosen_action (m_world s) (found_exp r)"
    using found_expectation [OF assms] unfolding handling_def by blast
  have none: "found_action r = None" if "found_exp r = None \<or> is_excessive r"
    using that r(3,4) unfolding call_report_def by (auto simp: chosen_action_def)
  have "counted_call (found_exp r) (m_world s) w'" using r(3) by (simp add: call_report_def counted_call_def)
  moreover have "invocation lib pr E mm args s =
      (if found_action r = None then holder_PerformDefaultAction E mm args (s\<lparr>m_world := w'\<rparr>)
       else holder_PerformAction E (found_action r) args (s\<lparr>m_world := w'\<rparr>))"
    using False r(1) none by (auto simp: invocation_def)
  ultimately show ?thesis using r(2,4)
    by (intro exI [of _ w'])
      (auto simp: holder_PerformDefaultAction_def holder_PerformAction_def UntypedPerformAction_def Perform_def split: option.split)
qed

text \<open>Naming the mock method for the reports changes neither which expectation handles a call nor the default action.\<close>

lemma owner_irrelevant:
  assumes "owner_contract api"
  shows "expectations (mm_base (SetOwnerAndName api this name mm)) = expectations (mm_base mm)"
    and "handling (SetOwnerAndName api this name mm) = handling mm"
    and "call_result E (SetOwnerAndName api this name mm) = call_result E mm"
  using assms by (simp_all add: owner_contract_def handling_def call_result_def fun_eq_iff PerformDefaultAction_def FindOnCallSpec_def
      cong: option.case_cong)

lemma mock_call_eq:
  assumes "lib_ok lib" and "new_contract E" and "owner_contract api" and "invoke_contract api lib pr E"
    and "live_exps (m_world s) (expectations (mm_base mm))" and "counts_ok (m_world s)"
    and "finite (dom (m_holders s))" and "length args = arity"
  shows "\<exists>w'. counted_call (handling mm args (m_world s)) (m_world s) w' \<and>
    mock_method_call api E arity this name mm args s =
      bindr (call_result E mm (chosen_action (m_world s) (handling mm args (m_world s))) args (m_user s))
        (\<lambda>(r, u). Inr (r, SetOwnerAndName api this name mm, s\<lparr>m_world := w', m_user := u\<rparr>))"
proof -
  let ?mm = "SetOwnerAndName api this name mm"
  let ?act = "chosen_action (m_world s) (handling mm args (m_world s))"
  note own = owner_irrelevant [OF assms(3), where this = this and name = name and mm = mm]
  have live: "live_exps (m_world s) (expectations (mm_base ?mm))" using assms(5) own(1) by simp
  obtain w1 where w1: "counted_call (handling ?mm args (m_world s)) (m_world s) w1"
      "invocation lib pr E ?mm args s = hold_result E
        (case chosen_action (m_world s) (handling ?mm args (m_world s)) of
           None \<Rightarrow> PerformDefaultAction (built_in_default E) (default_producer E) (mm_base ?mm) args (m_user s)
         | Some impl \<Rightarrow> impl args (m_user s)) (s\<lparr>m_world := w1\<rparr>)"
    using invocation_chosen [OF assms(1) live assms(6)] by blast
  obtain failures lg where "UntypedInvokeWith api ?mm args s =
      bindr (invocation lib pr E ?mm args s) (\<lambda>(p, s'). Inr (p, s'\<lparr>m_world := (m_world s')\<lparr>spec_failures := failures, mock_log := lg\<rparr>\<rparr>))"
    using assms(4) unfolding invoke_contract_def by blast
  note held = InvokeWith_held [where g = "\<lambda>w. w\<lparr>spec_failures := failures, mock_log := lg\<rparr>", OF assms(2) _ this [unfolded w1(2)]]
  have held_result: "InvokeWith api E ?mm args s = bindr
      (case ?act of None \<Rightarrow> PerformDefaultAction (built_in_default E) (default_producer E) (mm_base ?mm) args (m_user s)
       | Some impl \<Rightarrow> impl args (m_user s))
      (\<lambda>(r, u). Inr (if result_kind E = VoidResult then no_result E else r,
         s\<lparr>m_world := w1\<lparr>spec_failures := failures, mock_log := lg\<rparr>, m_user := u\<rparr>))"
    using held assms(7) own(2) by simp
  let ?w' = "w1\<lparr>spec_failures := failures, mock_log := lg\<rparr>"
  have "InvokeWith api E ?mm args s =
      bindr (call_result E ?mm ?act args (m_user s)) (\<lambda>(r, u). Inr (r, s\<lparr>m_world := ?w', m_user := u\<rparr>))"
    unfolding held_result call_result_def bindr_assoc case_prod_beta using own(2) by simp
  moreover have "counted_call (handling mm args (m_world s)) (m_world s) ?w'"
    using w1(1) own(2) by (simp add: counted_call_def)
  ultimately show ?thesis using assms(8) own(3)
    by (intro exI [of _ ?w']) (auto simp: mock_method_call_def FunctionMocker_Invoke_def Let_def bindr_def split: sum.split)
qed

text \<open>C18: A call of a mock method finds the newest expectation that handles its arguments, counts the call there and
  nowhere else, performs the next action of that expectation (the default action when there is none, when the expectation is saturated or
  when its action says so), returns exactly what the action returned, also for a \<open>void\<close> method or one that returns a
  reference, and leaves no result holder behind; an exception of the action is the outcome of the call.\<close>

theorem mock_call_performs_chosen_action:
  assumes "lib_ok lib" and "new_contract E" and "owner_contract api" and "invoke_contract api lib pr E"
    and "live_exps (m_world s) (expectations (mm_base mm))" and "counts_ok (m_world s)"
    and "finite (dom (m_holders s))" and "length args = arity"
  shows "\<exists>w'. counted_call (handling mm args (m_world s)) (m_world s) w' \<and>
    mock_method_call api E arity this name mm args s =
      bindr (call_result E mm (chosen_action (m_world s) (handling mm args (m_world s))) args (m_user s))
        (\<lambda>(r, u). Inr (r, SetOwnerAndName api this name mm, s\<lparr>m_world := w', m_user := u\<rparr>))"
  by (rule mock_call_eq [OF assms])

text \<open>A lawful instance: the holders are placed above all others.\<close>

definition demo_env :: "(int, int, unit) method_env" where
  "demo_env = \<lparr>result_kind = ValueResult, built_in_default = Some 0, default_producer = None,
     new_holder = (\<lambda>s. Suc (Max (insert 0 (dom (m_holders s))))), moved_from = 0, no_result = 0\<rparr>"

definition demo_api :: "'v printer \<Rightarrow> ('v, 'r, 'w) method_env \<Rightarrow> ('v, 'r, 'w) mocker_api" where
  "demo_api pr E = \<lparr>UntypedInvokeWith = invocation reference_lib pr E,
     RegisterOwner = (\<lambda>this mm. mm\<lparr>mm_owner := this\<rparr>),
     SetOwnerAndName = (\<lambda>this name mm. mm\<lparr>mm_owner := this, mm_base := (mm_base mm)\<lparr>mocker_name := name\<rparr>\<rparr>)\<rparr>"

lemma mocker_contracts:
  "new_contract demo_env" "owner_contract (demo_api pr E)" "invoke_contract (demo_api pr E) reference_lib pr E"
proof -
  have "m_holders s (Suc (Max (insert 0 (dom (m_holders s))))) = None"
    if "finite (dom (m_holders s))" for s :: "(int, int, unit) mock_state"
  proof (rule ccontr)
    assume "m_holders s (Suc (Max (insert 0 (dom (m_holders s))))) \<noteq> None"
    then have "Suc (Max (insert 0 (dom (m_holders s)))) \<le> Max (insert 0 (dom (m_holders s)))" using that by (intro Max_ge) auto
    then show False by simp
  qed
  then show "new_contract demo_env" by (simp add: new_contract_def demo_env_def)
  show "owner_contract (demo_api pr E)" by (simp add: owner_contract_def demo_api_def)
  have "\<exists>failures lg. r = bindr r (\<lambda>(p, s'). Inr (p, s'\<lparr>m_world := (m_world s')\<lparr>spec_failures := failures, mock_log := lg\<rparr>\<rparr>))"
    for r :: "(ptr \<times> ('a, 'b, 'c) mock_state) res"
  proof (cases r)
    case (Inr q)
    then show ?thesis
      by (intro exI [of _ "spec_failures (m_world (snd q))"] exI [of _ "mock_log (m_world (snd q))"]) (simp split: prod.split)
  qed simp
  then show "invoke_contract (demo_api pr E) reference_lib pr E" by (simp add: invoke_contract_def demo_api_def)
qed

definition demo_printer :: "int printer" where
  "demo_printer = \<lparr>UniversalPrint = show_int, GetTypeName = ''int''\<rparr>"

definition demo_method :: "(int, int, unit) mock_method" where
  "demo_method = \<lparr>mm_base = demo_mocker, mm_matchers = [], mm_owner = NULL\<rparr>"

definition demo_state :: "(int, int, unit) mock_state" where
  "demo_state = \<lparr>m_world = demo_world, m_holders = [3 \<mapsto> VoidHolder], m_user = ()\<rparr>"

lemma demo_state_ok:
  "live_exps (m_world demo_state) (expectations (mm_base demo_method))" "counts_ok (m_world demo_state)"
  "finite (dom (m_holders demo_state))"
  by (simp_all add: live_exps_def counts_ok_def demo_state_def demo_method_def demo_world_def demo_mocker_def
      make_TypedExpectation_def INT_MAX_def)

theorem mock_call_performs_chosen_action_witness:
  "\<exists>w'. mock_method_call (demo_api demo_printer demo_env) demo_env 0 5 ''f'' demo_method [] demo_state =
     Inr (0, SetOwnerAndName (demo_api demo_printer demo_env) 5 ''f'' demo_method, demo_state\<lparr>m_world := w'\<rparr>)"
proof -
  have "chosen_action demo_world e = None" for e
    by (auto simp: chosen_action_def demo_world_def make_TypedExpectation_def next_action_def split: option.split bind_split)
  then have "call_result demo_env demo_method (chosen_action demo_world e) [] () = Inr (0, ())" for e
    by (simp add: call_result_def PerformDefaultAction_def FindOnCallSpec_def demo_method_def demo_mocker_def demo_env_def
        DefaultValue_Exists_def DefaultValue_Get_def BuiltInDefaultValue_Get_def)
  moreover have "demo_state\<lparr>m_world := w', m_user := ()\<rparr> = demo_state\<lparr>m_world := w'\<rparr>" for w' by simp
  ultimately show ?thesis
    using mock_call_performs_chosen_action [OF reference_lib_ok mocker_contracts demo_state_ok,
        where args = "[]" and arity = 0 and this = 5 and name = "''f''"]
    by (auto simp: demo_state_def)
qed

section \<open>EXPECT\_CALL, then the call\<close>

text \<open>A declared expectation is the newest one, and handles the calls its matchers accept.\<close>

lemma EXPECT_CALL_eq:
  assumes "owner_contract api" "length ms = arity" "length (mm_matchers mm) = arity"
    and "src = ''EXPECT_CALL('' @ obj @ '', '' @ call @ '')''"
  shows "EXPECT_CALL api lib None c p f l obj call this ms mm s =
    (mm\<lparr>mm_owner := this, mm_matchers := ms, mm_base := (mm_base mm)\<lparr>expectations := expectations (mm_base mm) @ [p]\<rparr>\<rparr>,
     s\<lparr>m_world := set_exp p (make_TypedExpectation c f l src ms) ((m_world s)\<lparr>mock_log := mock_log (m_world s) @ [src @ '' invoked'']\<rparr>)\<rparr>)"
  using assms by (auto simp: EXPECT_CALL_def gmock_method_def FunctionMocker_With_def owner_contract_def InternalExpectedAt_def
      AddNewExpectation_def Let_def)

lemma WillOnce_fresh:
  assumes "lib_ok lib" "p \<noteq> NULL"
  shows "\<exists>x. WillOnce lib (Some impl) p (set_exp p (make_TypedExpectation c f l src ms) w) = Inr (set_exp p x w) \<and>
    e_matchers x = ms \<and> extra_matcher x = AnyMatcher \<and> immediate_prerequisites x = {} \<and> \<not> retired x \<and> call_count x = 0 \<and>
    \<not> IsSaturated x \<and> next_action x = Some impl"
proof -
  have "\<not> IsSaturatedByCallCount (Exactly lib 1) 0" using assms(1) by (simp add: lib_ok_def cardinalities_ok_def)
  then show ?thesis using assms(2)
    by (intro exI [of _ "(make_TypedExpectation c f l src ms)\<lparr>last_clause := kWillOnce, untyped_actions := [Some impl],
        e_cardinality := Exactly lib 1\<rparr>"])
      (simp add: WillOnce_def set_exp_def make_TypedExpectation_def Let_def ExpectSpecProperty_def less_eq_clause_def
        next_action_def IsSaturated_def)
qed

lemma newest_handles:
  assumes "exps w p = Some x" "e_matchers x = ms" "extra_matcher x = AnyMatcher" "immediate_prerequisites x = {}" "\<not> retired x"
    and "TupleMatches ms args" "expectations (mm_base mm) = es @ [p]"
  shows "handling mm args w = Some p"
proof -
  have "(q, p) \<notin> (prereq_rel w)\<^sup>+" for q using assms(1,4) by (auto simp: prereq_rel_def elim: tranclE)
  then show ?thesis using assms by (simp add: handling_def handles_def all_satisfied_def Expectation_Matches_def AnyMatcher_matches)
qed

text \<open>C38: Take a mock whose expectations are live, with call counts that an int holds and finitely many result holders. After
  \<open>EXPECT_CALL(obj, Method(matchers)).WillOnce(action)\<close> outside any sequence, whatever expectations and calls came before, the next
  call of the method with arguments that the matchers accept performs that action and returns its result; the call is counted at
  the new expectation and at no other.\<close>

theorem expected_call_performs_its_action:
  assumes "lib_ok lib" and "new_contract E" and "owner_contract api" and "invoke_contract api lib pr E"
    and "live_exps (m_world s) (expectations (mm_base mm))" and "counts_ok (m_world s)" and "finite (dom (m_holders s))"
    and "length ms = arity" and "length (mm_matchers mm) = arity" and "length args = arity"
    and "p \<noteq> NULL" and "TupleMatches ms args"
    and "EXPECT_CALL api lib None c p f l obj call this ms mm s = (mm1, s1)"
  shows "\<exists>w1 w2. WillOnce lib (Some impl) p (m_world s1) = Inr w1 \<and> counted_call (Some p) w1 w2 \<and>
    mock_method_call api E arity this name mm1 args (s1\<lparr>m_world := w1\<rparr>) = bindr (impl args (m_user s))
      (\<lambda>(r, u). Inr (if result_kind E = VoidResult then no_result E else r, SetOwnerAndName api this name mm1,
         s\<lparr>m_world := w2, m_user := u\<rparr>))"
proof -
  let ?src = "''EXPECT_CALL('' @ obj @ '', '' @ call @ '')''"
  let ?w = "(m_world s)\<lparr>mock_log := mock_log (m_world s) @ [?src @ '' invoked'']\<rparr>"
  have mm1: "expectations (mm_base mm1) = expectations (mm_base mm) @ [p]"
    and s1: "s1 = s\<lparr>m_world := set_exp p (make_TypedExpectation c f l ?src ms) ?w\<rparr>"
    using EXPECT_CALL_eq [OF assms(3,8,9) refl, of lib c p f l obj call this s] assms(13) by auto
  obtain x where x: "WillOnce lib (Some impl) p (m_world s1) = Inr (set_exp p x ?w)"
      "e_matchers x = ms" "extra_matcher x = AnyMatcher" "immediate_prerequisites x = {}" "\<not> retired x"
      "call_count x = 0" "\<not> IsSaturated x" "next_action x = Some impl"
    using WillOnce_fresh [OF assms(1,11), of impl c f l ?src ms ?w] s1 by auto
  define w1 where "w1 = set_exp p x ?w"
  have p: "exps w1 p = Some x" by (simp add: w1_def set_exp_def)
  have h: "handling mm1 args w1 = Some p" by (rule newest_handles [OF p x(2-5) assms(12) mm1])
  have live: "live_exps w1 (expectations (mm_base mm1))"
    using assms(5,11) mm1 by (auto simp: live_exps_def w1_def set_exp_def)
  have cnt: "counts_ok w1" using assms(6) x(6) by (simp add: counts_ok_def w1_def set_exp_def INT_MAX_def)
  have act: "chosen_action w1 (Some p) = Some impl" using p x(7,8) by (simp add: chosen_action_def)
  let ?s = "s1\<lparr>m_world := w1\<rparr>"
  have "\<exists>w'. counted_call (handling mm1 args (m_world ?s)) (m_world ?s) w' \<and>
    mock_method_call api E arity this name mm1 args ?s =
      bindr (call_result E mm1 (chosen_action (m_world ?s) (handling mm1 args (m_world ?s))) args (m_user ?s))
        (\<lambda>(r, u). Inr (r, SetOwnerAndName api this name mm1, ?s\<lparr>m_world := w', m_user := u\<rparr>))"
    by (rule mock_call_eq [OF assms(1-4)]) (use live cnt assms(7,10) s1 in simp_all)
  then obtain w' where w': "counted_call (Some p) w1 w'"
      "mock_method_call api E arity this name mm1 args ?s = bindr (call_result E mm1 (Some impl) args (m_user s))
        (\<lambda>(r, u). Inr (r, SetOwnerAndName api this name mm1, s\<lparr>m_world := w', m_user := u\<rparr>))"
    using h act s1 by auto
  then have "mock_method_call api E arity this name mm1 args ?s = bindr (impl args (m_user s))
      (\<lambda>(r, u). Inr (if result_kind E = VoidResult then no_result E else r, SetOwnerAndName api this name mm1,
         s\<lparr>m_world := w', m_user := u\<rparr>))"
    by (auto simp: call_result_def bindr_def split: sum.split)
  then show ?thesis using x(1) w'(1) unfolding w1_def [symmetric] by blast
qed

theorem expected_call_performs_its_action_witness:
  "\<exists>mm1 s1 w1 w2. EXPECT_CALL (demo_api demo_printer demo_env) reference_lib None once 12 ''t.cc'' 9 ''m'' ''f()'' 5 [] demo_method demo_state = (mm1, s1)
    \<and> WillOnce reference_lib (Some (\<lambda>args u. Inr (42, u))) 12 (m_world s1) = Inr w1
    \<and> mock_method_call (demo_api demo_printer demo_env) demo_env 0 5 ''f'' mm1 [] (s1\<lparr>m_world := w1\<rparr>) =
        Inr (42, SetOwnerAndName (demo_api demo_printer demo_env) 5 ''f'' mm1, demo_state\<lparr>m_world := w2, m_user := ()\<rparr>)"
proof -
  obtain mm1 s1 where e: "EXPECT_CALL (demo_api demo_printer demo_env) reference_lib None once 12 ''t.cc'' 9 ''m'' ''f()'' 5 [] demo_method demo_state = (mm1, s1)"
    by fastforce
  have m: "length (mm_matchers demo_method) = 0" "TupleMatches [] ([] :: int list)" "result_kind demo_env \<noteq> VoidResult"
    by (simp_all add: demo_method_def TupleMatches_def demo_env_def)
  obtain w1 w2 where "WillOnce reference_lib (Some (\<lambda>args u. Inr (42, u))) 12 (m_world s1) = Inr w1"
      "mock_method_call (demo_api demo_printer demo_env) demo_env 0 5 ''f'' mm1 [] (s1\<lparr>m_world := w1\<rparr>) =
        Inr (42, SetOwnerAndName (demo_api demo_printer demo_env) 5 ''f'' mm1, demo_state\<lparr>m_world := w2, m_user := ()\<rparr>)"
    using expected_call_performs_its_action [OF reference_lib_ok mocker_contracts demo_state_ok _ m(1) _ _ m(2) e,
        where impl = "\<lambda>args u. Inr (42, u)" and name = "''f''"] m(3) by auto
  then show ?thesis using e by auto
qed

end
