(* ===== verification/Gmock_Nice_Strict.thy ===== *)
theory Gmock_Nice_Strict
  imports Prelude
begin

text \<open>
  Nice, naggy and strict mocks (gmock-generated-nice-strict.h): subclasses of a mock class whose constructors and
  destructors set and remove the reaction to uninteresting calls in a table of the compiled library. The table is reached
  through the functions of class \<open>Mock\<close> (gmock-spec-builders.h), a record argument; what their comments promise is
  \<open>reaction_contract\<close>. The constructors for 0 to 10 arguments are one definition. Main result: over every history of
  mocks that are created and destroyed, also when addresses are reused and constructors throw, each live mock has the reaction
  of its own class and nothing else has an entry.
\<close>

section \<open>The call reaction table\<close>

datatype CallReaction = kAllow | kWarn | kFail

record 's reaction_api =
  AllowUninterestingCalls :: "ptr \<Rightarrow> 's \<Rightarrow> 's"
  WarnUninterestingCalls :: "ptr \<Rightarrow> 's \<Rightarrow> 's"
  FailUninterestingCalls :: "ptr \<Rightarrow> 's \<Rightarrow> 's"
  UnregisterCallReaction :: "ptr \<Rightarrow> 's \<Rightarrow> 's"
  GetReactionOnUninterestingCalls :: "ptr \<Rightarrow> 's \<Rightarrow> CallReaction"

section \<open>The subclasses\<close>

text \<open>The mock class that is extended: its constructor may throw, its destructor does not.\<close>

record ('a, 's) mock_class =
  base_ctor :: "'a list \<Rightarrow> ptr \<Rightarrow> 's \<Rightarrow> bool \<times> 's"
  base_dtor :: "ptr \<Rightarrow> 's \<Rightarrow> 's"

text \<open>
  A constructor gives whether it threw; when the base class throws, the body is not run. There is none for more than
  ten arguments, which does not compile.
\<close>

definition NiceMock_ctor ::
  "'s reaction_api \<Rightarrow> ('a, 's) mock_class \<Rightarrow> 'a list \<Rightarrow> ptr \<Rightarrow> 's \<Rightarrow> (bool \<times> 's) option" where
  "NiceMock_ctor api cls args this s = (if length args \<le> 10
     then Some (case base_ctor cls args this s of
       (threw, s) \<Rightarrow> (threw, if threw then s else AllowUninterestingCalls api this s)) else None)"

definition NiceMock_dtor :: "'s reaction_api \<Rightarrow> ('a, 's) mock_class \<Rightarrow> ptr \<Rightarrow> 's \<Rightarrow> 's" where
  "NiceMock_dtor api cls this s = base_dtor cls this (UnregisterCallReaction api this s)"

definition NaggyMock_ctor ::
  "'s reaction_api \<Rightarrow> ('a, 's) mock_class \<Rightarrow> 'a list \<Rightarrow> ptr \<Rightarrow> 's \<Rightarrow> (bool \<times> 's) option" where
  "NaggyMock_ctor api cls args this s = (if length args \<le> 10
     then Some (case base_ctor cls args this s of
       (threw, s) \<Rightarrow> (threw, if threw then s else WarnUninterestingCalls api this s)) else None)"

definition NaggyMock_dtor :: "'s reaction_api \<Rightarrow> ('a, 's) mock_class \<Rightarrow> ptr \<Rightarrow> 's \<Rightarrow> 's" where
  "NaggyMock_dtor api cls this s = base_dtor cls this (UnregisterCallReaction api this s)"

definition StrictMock_ctor ::
  "'s reaction_api \<Rightarrow> ('a, 's) mock_class \<Rightarrow> 'a list \<Rightarrow> ptr \<Rightarrow> 's \<Rightarrow> (bool \<times> 's) option" where
  "StrictMock_ctor api cls args this s = (if length args \<le> 10
     then Some (case base_ctor cls args this s of
       (threw, s) \<Rightarrow> (threw, if threw then s else FailUninterestingCalls api this s)) else None)"

definition StrictMock_dtor :: "'s reaction_api \<Rightarrow> ('a, 's) mock_class \<Rightarrow> ptr \<Rightarrow> 's \<Rightarrow> 's" where
  "StrictMock_dtor api cls this s = base_dtor cls this (UnregisterCallReaction api this s)"

text \<open>
  The type of a mock object: a mock class, or one of the three templates on a type. The specialisations for nested
  templates are declared and not defined, so that such an object does not compile.
\<close>

datatype mock_type = MockClass | NiceMock mock_type | NaggyMock mock_type | StrictMock mock_type

fun complete_type :: "mock_type \<Rightarrow> bool" where
  "complete_type MockClass = True"
| "complete_type (NiceMock t) = (t = MockClass)"
| "complete_type (NaggyMock t) = (t = MockClass)"
| "complete_type (StrictMock t) = (t = MockClass)"

fun construct_mock ::
  "'s reaction_api \<Rightarrow> ('a, 's) mock_class \<Rightarrow> mock_type \<Rightarrow> 'a list \<Rightarrow> ptr \<Rightarrow> 's \<Rightarrow> (bool \<times> 's) option" where
  "construct_mock api cls MockClass args this s = Some (base_ctor cls args this s)"
| "construct_mock api cls (NiceMock t) args this s =
     (if complete_type (NiceMock t) then NiceMock_ctor api cls args this s else None)"
| "construct_mock api cls (NaggyMock t) args this s =
     (if complete_type (NaggyMock t) then NaggyMock_ctor api cls args this s else None)"
| "construct_mock api cls (StrictMock t) args this s =
     (if complete_type (StrictMock t) then StrictMock_ctor api cls args this s else None)"

fun destroy_mock :: "'s reaction_api \<Rightarrow> ('a, 's) mock_class \<Rightarrow> mock_type \<Rightarrow> ptr \<Rightarrow> 's \<Rightarrow> 's" where
  "destroy_mock api cls MockClass this s = base_dtor cls this s"
| "destroy_mock api cls (NiceMock t) this s = NiceMock_dtor api cls this s"
| "destroy_mock api cls (NaggyMock t) this s = NaggyMock_dtor api cls this s"
| "destroy_mock api cls (StrictMock t) this s = StrictMock_dtor api cls this s"

section \<open>Histories\<close>

datatype 'a mock_event = Create mock_type "'a list" ptr | Destroy ptr

text \<open>
  A program keeps the live objects with their types: it does not create an object over a live one and destroys only
  live ones; anything else, and what does not compile, is \<open>None\<close>.
\<close>

fun mock_event_step ::
  "'s reaction_api \<Rightarrow> ('a, 's) mock_class \<Rightarrow> 'a mock_event \<Rightarrow> (ptr \<rightharpoonup> mock_type) \<times> 's \<Rightarrow>
    ((ptr \<rightharpoonup> mock_type) \<times> 's) option" where
  "mock_event_step api cls (Create t args this) (live, s) =
     (if live this \<noteq> None then None
      else map_option (\<lambda>(threw, s). (if threw then live else live(this \<mapsto> t), s)) (construct_mock api cls t args this s))"
| "mock_event_step api cls (Destroy this) (live, s) =
     map_option (\<lambda>t. (live(this := None), destroy_mock api cls t this s)) (live this)"

fun mock_history where
  "mock_history api cls [] st = Some st"
| "mock_history api cls (e # es) st = Option.bind (mock_event_step api cls e st) (mock_history api cls es)"

section \<open>What the library promises\<close>

text \<open>
  The functions update the entry of one object; an object without an entry gets a warning, as the comment on the
  default says.
\<close>

definition reaction_contract :: "'s reaction_api \<Rightarrow> bool" where
  "reaction_contract api \<longleftrightarrow> (\<forall>p q s.
     GetReactionOnUninterestingCalls api q (AllowUninterestingCalls api p s) =
       (if q = p then kAllow else GetReactionOnUninterestingCalls api q s) \<and>
     GetReactionOnUninterestingCalls api q (WarnUninterestingCalls api p s) =
       (if q = p then kWarn else GetReactionOnUninterestingCalls api q s) \<and>
     GetReactionOnUninterestingCalls api q (FailUninterestingCalls api p s) =
       (if q = p then kFail else GetReactionOnUninterestingCalls api q s) \<and>
     GetReactionOnUninterestingCalls api q (UnregisterCallReaction api p s) =
       (if q = p then kWarn else GetReactionOnUninterestingCalls api q s))"

text \<open>The constructor and the destructor of the mock class leave the table alone: its functions are private, and the class has no mocks as members.\<close>

definition class_contract :: "'s reaction_api \<Rightarrow> ('a, 's) mock_class \<Rightarrow> bool" where
  "class_contract api cls \<longleftrightarrow> (\<forall>args p q s.
     GetReactionOnUninterestingCalls api q (snd (base_ctor cls args p s)) = GetReactionOnUninterestingCalls api q s \<and>
     GetReactionOnUninterestingCalls api q (base_dtor cls p s) = GetReactionOnUninterestingCalls api q s)"

lemmas contracts = reaction_contract_def class_contract_def

section \<open>Each live mock has the reaction of its class\<close>

fun type_reaction :: "mock_type \<Rightarrow> CallReaction" where
  "type_reaction MockClass = kWarn"
| "type_reaction (NiceMock t) = kAllow"
| "type_reaction (NaggyMock t) = kWarn"
| "type_reaction (StrictMock t) = kFail"

definition reaction_of :: "(ptr \<rightharpoonup> mock_type) \<Rightarrow> ptr \<Rightarrow> CallReaction" where
  "reaction_of live p = (case live p of None \<Rightarrow> kWarn | Some t \<Rightarrow> type_reaction t)"

definition table_ok :: "'s reaction_api \<Rightarrow> (ptr \<rightharpoonup> mock_type) \<times> 's \<Rightarrow> bool" where
  "table_ok api st \<longleftrightarrow> (\<forall>p. GetReactionOnUninterestingCalls api p (snd st) = reaction_of (fst st) p) \<and>
     (\<forall>p t. fst st p = Some t \<longrightarrow> complete_type t)"

lemma reactionD:
  assumes "reaction_contract api"
  shows "GetReactionOnUninterestingCalls api q (AllowUninterestingCalls api p s) =
      (if q = p then kAllow else GetReactionOnUninterestingCalls api q s)"
    and "GetReactionOnUninterestingCalls api q (WarnUninterestingCalls api p s) =
      (if q = p then kWarn else GetReactionOnUninterestingCalls api q s)"
    and "GetReactionOnUninterestingCalls api q (FailUninterestingCalls api p s) =
      (if q = p then kFail else GetReactionOnUninterestingCalls api q s)"
    and "GetReactionOnUninterestingCalls api q (UnregisterCallReaction api p s) =
      (if q = p then kWarn else GetReactionOnUninterestingCalls api q s)"
  using assms unfolding reaction_contract_def by blast+

lemma construct_reactions:
  assumes "reaction_contract api" "class_contract api cls" "construct_mock api cls t args this s = Some (threw, s')"
    and "GetReactionOnUninterestingCalls api this s = kWarn"
  shows "GetReactionOnUninterestingCalls api q s' =
      (if q = this \<and> \<not> threw then type_reaction t else GetReactionOnUninterestingCalls api q s)"
    and "complete_type t"
proof -
  obtain thr s1 where b: "base_ctor cls args this s = (thr, s1)" by (cases "base_ctor cls args this s")
  then have keep: "GetReactionOnUninterestingCalls api q s1 = GetReactionOnUninterestingCalls api q s" for q
    using assms(2) by (metis class_contract_def snd_conv)
  show "GetReactionOnUninterestingCalls api q s' =
      (if q = this \<and> \<not> threw then type_reaction t else GetReactionOnUninterestingCalls api q s)"
    using assms(3,4) b keep
    by (cases t) (auto simp: NiceMock_ctor_def NaggyMock_ctor_def StrictMock_ctor_def reactionD [OF assms(1)] split: if_splits)
  show "complete_type t" using assms(3) by (cases t) (auto split: if_splits)
qed

lemma destroy_reactions:
  assumes "reaction_contract api" "class_contract api cls"
  shows "GetReactionOnUninterestingCalls api q (destroy_mock api cls t this s) =
    (if q = this \<and> t \<noteq> MockClass then kWarn else GetReactionOnUninterestingCalls api q s)"
  using assms by (cases t) (auto simp: NiceMock_dtor_def NaggyMock_dtor_def StrictMock_dtor_def contracts)

lemma table_ok_step:
  assumes "reaction_contract api" "class_contract api cls" "mock_event_step api cls e st = Some st'" "table_ok api st"
  shows "table_ok api st'"
proof (cases e)
  case (Create t args this)
  obtain live s where st: "st = (live, s)" by (cases st)
  from assms(3) Create st obtain threw s' where c: "construct_mock api cls t args this s = Some (threw, s')"
      "live this = None" "st' = (if threw then live else live(this \<mapsto> t), s')" by (auto split: if_splits)
  have "GetReactionOnUninterestingCalls api this s = kWarn" using assms(4) st c(2) by (simp add: table_ok_def reaction_of_def)
  note facts = construct_reactions [OF assms(1,2) c(1) this]
  show ?thesis using assms(4) st c facts by (auto simp: table_ok_def reaction_of_def split: option.splits)
next
  case (Destroy this)
  obtain live s where st: "st = (live, s)" by (cases st)
  from assms(3) Destroy st obtain t where "live this = Some t" "st' = (live(this := None), destroy_mock api cls t this s)" by auto
  then show ?thesis using assms(4) st destroy_reactions [OF assms(1,2), of _ t this s]
    by (auto simp: table_ok_def reaction_of_def split: option.splits)
qed

text \<open>
C26: whatever mocks a program creates and destroys, and in whatever order, a live object has the reaction of its own class to
uninteresting calls: it allows them if it is nice, fails them if it is strict, and warns otherwise; an address where no
object lives has no entry, so that a mock created there later does not inherit one, nor does one whose constructor threw leave
one behind. Only the three templates on plain mock classes occur: nested ones do not compile.
\<close>

theorem live_mocks_have_their_reaction:
  assumes "reaction_contract api" and "class_contract api cls"
    and "\<And>p. GetReactionOnUninterestingCalls api p s = kWarn"
    and "mock_history api cls es (Map.empty, s) = Some (live, s')"
  shows "GetReactionOnUninterestingCalls api p s' = (case live p of
      Some (NiceMock MockClass) \<Rightarrow> kAllow | Some (StrictMock MockClass) \<Rightarrow> kFail | _ \<Rightarrow> kWarn) \<and>
    (\<forall>t. live p = Some t \<longrightarrow> complete_type t)"
proof -
  have "table_ok api st'" if "mock_history api cls es st = Some st'" "table_ok api st" for st st'
    using that
  proof (induction es arbitrary: st)
    case (Cons e es)
    then obtain st1 where "mock_event_step api cls e st = Some st1" "mock_history api cls es st1 = Some st'"
      by (auto split: bind_splits)
    with Cons table_ok_step [OF assms(1,2)] show ?case by blast
  qed simp
  from this [OF assms(4)] assms(3) have "table_ok api (live, s')" by (simp add: table_ok_def reaction_of_def)
  then have g: "GetReactionOnUninterestingCalls api p s' = reaction_of live p" and c: "\<forall>t. live p = Some t \<longrightarrow> complete_type t"
    by (simp_all add: table_ok_def)
  show ?thesis
  proof (cases "live p")
    case (Some t)
    then show ?thesis using g c by (cases t) (auto simp: reaction_of_def)
  qed (use g in \<open>simp add: reaction_of_def\<close>)
qed

text \<open>A table, and a plain mock where a strict one was destroyed.\<close>

definition demo_reactions :: "(ptr \<rightharpoonup> CallReaction) reaction_api" where
  "demo_reactions = \<lparr>AllowUninterestingCalls = (\<lambda>p s. s(p \<mapsto> kAllow)), WarnUninterestingCalls = (\<lambda>p s. s(p \<mapsto> kWarn)),
     FailUninterestingCalls = (\<lambda>p s. s(p \<mapsto> kFail)), UnregisterCallReaction = (\<lambda>p s. s(p := None)),
     GetReactionOnUninterestingCalls = (\<lambda>p s. case s p of None \<Rightarrow> kWarn | Some r \<Rightarrow> r)\<rparr>"

definition demo_class :: "(int, ptr \<rightharpoonup> CallReaction) mock_class" where
  "demo_class = \<lparr>base_ctor = (\<lambda>args p s. (args = [0], s)), base_dtor = (\<lambda>p s. s)\<rparr>"

theorem live_mocks_have_their_reaction_witness:
  "\<exists>live s'. mock_history demo_reactions demo_class [Create (StrictMock MockClass) [] 8, Create (NiceMock MockClass) [5] 9,
      Destroy 8, Create MockClass [] 8, Create (NiceMock MockClass) [0] 7] (Map.empty, Map.empty) = Some (live, s') \<and>
    GetReactionOnUninterestingCalls demo_reactions 8 s' = kWarn \<and>
    GetReactionOnUninterestingCalls demo_reactions 9 s' = kAllow \<and>
    GetReactionOnUninterestingCalls demo_reactions 7 s' = kWarn"
proof -
  let ?es = "[Create (StrictMock MockClass) [] 8, Create (NiceMock MockClass) [5] 9,
      Destroy 8, Create MockClass [] 8, Create (NiceMock MockClass) [0] 7] :: int mock_event list"
  have c: "reaction_contract demo_reactions" "class_contract demo_reactions demo_class"
    by (simp_all add: contracts demo_reactions_def demo_class_def)
  have "\<exists>s'. mock_history demo_reactions demo_class ?es (Map.empty, Map.empty) =
      Some (Map.empty(8 := Some MockClass, 9 := Some (NiceMock MockClass)), s')"
    by (simp add: demo_class_def NiceMock_ctor_def StrictMock_ctor_def StrictMock_dtor_def fun_upd_twist)
  then obtain s' where h: "mock_history demo_reactions demo_class ?es (Map.empty, Map.empty) =
      Some (Map.empty(8 := Some MockClass, 9 := Some (NiceMock MockClass)), s')" by blast
  have "GetReactionOnUninterestingCalls demo_reactions p Map.empty = kWarn" for p by (simp add: demo_reactions_def)
  note facts = live_mocks_have_their_reaction [OF c this h]
  show ?thesis using h facts [of 8] facts [of 9] facts [of 7] by auto
qed

end
