(* ===== verification/Spec2Isabelle.thy ===== *)
theory Spec2Isabelle
  imports Tftp_Properties List_Test Binary_Tree Ftp_Server Echo_Session
    Gtest_Linked_Ptr Gtest_Port Gtest_Threads Gtest_Combine Gtest_With_Param Gtest_Typed_Tests
    Gtest_Native_Array Gtest_Tuple Gtest_Death_Tests Gtest_Spi
    Gmock_Internal_Utils Gmock_Containers Gmock_Generated_Matchers Gmock_Action_Macros Gmock_Function_Mockers Gmock_Nice_Strict
begin

text \<open>
  Verification of the practice repository: small network servers and data structures in C and
  C++, and the parts with logic of their own of the googletest and googlemock headers that the
  repository carries under \<open>src/gtest/include\<close> and compiles into its unit test.

  \<^bold>\<open>The program and its parts\<close>

  The repository is a set of programs that do not call each other; within a program the parts do.

  \<^item> \<open>tftp/\<close>: a TFTP server over UDP and epoll (\<open>tftp_server.c\<close>), a list of sessions (\<open>list.c\<close>,
    \<open>list.h\<close>, \<open>session.h\<close>) and the unit test of the list (\<open>list_test.cc\<close>, run by googletest).
  \<^item> \<open>echo/epoll\<close>, \<open>echo/libevent2\<close>, \<open>echo/boost-asio\<close>: three echo servers and a load client. They
    implement the same service on three event interfaces, stated once in \<open>Echo_Contract\<close>; the client
    sends what it gets back to it, so that client and server keep one message going round.
  \<^item> \<open>ftp/main.c\<close>: a server that sends lines typed on its standard input to one client.
  \<^item> \<open>algorithm/binary-tree/normal\<close>: a binary search tree on raw pointers.
  \<^item> \<open>gtest/include\<close>: googletest and googlemock. Objects are owned by \<open>scoped_ptr\<close> or shared
    through \<open>linked_ptr\<close>; mutexes, notifications and thread-local values come from
    \<open>gtest-port.h\<close>; parameterized tests are registered by \<open>gtest-param-util.h\<close> over generators
    that \<open>Combine\<close> multiplies, typed tests over lists of types; assertions compare, print their operands through
    \<open>gtest-printers.h\<close> and return from the test when they are fatal; death tests run a statement in a
    child process, and \<open>gtest-spi.h\<close> tests assertions by catching what they report; matchers decide arguments and
    \<open>EXPECT_THAT\<close> assertions; mock functions hold expectations built from matchers, actions and
    cardinalities and look for the one that handles a call, whose action a mock method performs; nice, naggy and
    strict mocks say what becomes of calls that nobody expected.

  \<^bold>\<open>Theories and the code they model\<close>

  \<^descr> \<open>Prelude\<close>: the machine types, the result type \<open>'a res\<close> (a fault, or a value), \<open>bindr\<close>, typed
    heaps (\<open>deref\<close>, \<open>free_at\<close>), bounded buffers (\<open>memcpy_at\<close>) and network byte order. Its
    collections \<open>res_simps\<close> and \<open>buf_simps\<close> carry the component proofs.
  \<^descr> \<open>Session_List\<close>: \<open>list.c\<close>. The heap has nodes, sessions and address blocks; every function of
    \<open>list.c\<close> is a definition of the same name; \<open>remove_loop\<close> and \<open>length_loop\<close> are its two loops. The
    locale \<open>session_container\<close> is the promise of a container of sessions, interpreted on the linked
    list; \<open>list_history_refines\<close> extends it to all histories. \<open>operate_list_test\<close> gives the outcomes of the unit test.
  \<^descr> \<open>Tftp_Server\<close>: \<open>tftp_server.c\<close>, every function: \<open>make_data\<close>, \<open>create_new_session\<close>,
    \<open>handle_RRQ\<close>, \<open>handle_ACK\<close>, \<open>handle_req\<close>, set-up and the loop of \<open>main\<close>. The state holds the
    global \<open>file\<close>, the open streams with their positions, the sessions, the printed lines and the world.
  \<^descr> \<open>Tftp_Properties\<close>: what the server does: a transfer driven by acknowledgements delivers
    the file, packets round-trip, the handlers stay inside their buffers, the first answer overflows
    its buffer for larger files, and \<open>main\<close> stops once it has answered a request.
  \<^descr> \<open>Binary_Tree\<close>: \<open>binary-tree.cpp\<close>. A \<open>Node *&\<close> is a slot. Insertion on the heap refines
    insertion into HOL-Library's trees, and the traversal prints the values in ascending order.
  \<^descr> \<open>Echo_Contract\<close>: the locale \<open>echo_service\<close>: received is sent followed by pending, in all
    reachable states; interpreted as \<open>ep\<close>, \<open>lev\<close> and \<open>asio\<close> by the three servers.
  \<^descr> \<open>Epoll_Echo\<close>, \<open>Libevent_Echo\<close>, \<open>Asio_Echo\<close>: \<open>echo_server.cpp\<close> of the three directories and
    \<open>echo_client.cpp\<close>. Each is a step relation over the code's handlers: an event handled by the epoll
    loop, a callback or buffer activity of libevent, a completion of Asio. The Asio server as
    compiled serves nothing, since \<open>shared_from_this\<close> throws on the first connection; what its
    handlers would do otherwise is stated for the other value of the parameter \<open>sft\<close>.
  \<^descr> \<open>Echo_Session\<close>: one connection of the load client to a server, with the two byte streams between them.
    In the context of \<open>echo_service\<close>, so for each of the three servers, the client gets back its own
    message periodically; with the libevent server every reachable session can go on with the next round.
  \<^descr> \<open>Ftp_Server\<close>: \<open>ftp/main.c\<close>, with what becomes of a line by its length and by what the C library
    makes of a \<open>sprintf\<close> whose source is its destination.
  \<^descr> \<open>Gtest_Linked_Ptr\<close>: \<open>gtest-linked_ptr.h\<close>. The circles refine reference counting.
  \<^descr> \<open>Gtest_Param_Util\<close>: \<open>gtest-param-util.h\<close>. The locale \<open>param_generators\<close> is the contract of
    generators and iterators, interpreted on both generators of the header; \<open>RegisterTests\<close> registers
    exactly the planned tests, each with a factory of its own test class.
  \<^descr> \<open>Gtest_With_Param\<close>: \<open>WithParamInterface\<close> of \<open>gtest.h\<close>: the static pointer to the parameter of the last
    factory that created a test, and what \<open>GetParam\<close> gives.
  \<^descr> \<open>Gtest_Combine\<close>: \<open>gtest-param-util-generated.h\<close> and the functions of \<open>gtest-param-test.h\<close>. The
    classes generated for each arity are one definition on lists of generators. The locale
    \<open>cloneable_generators\<close> extends \<open>param_generators\<close> with copies of iterators; the product of its
    instances is again an instance, and a loop over it visits the Cartesian product in order.
  \<^descr> \<open>Gtest_Typed_Tests\<close>: \<open>gtest-type-util.h\<close>, \<open>gtest-typed-test.h\<close> and the registration classes of
    \<open>gtest-internal.h\<close>. The recursion over type lists cuts the test names out of the text of a
    macro argument; every test is registered with every type under its own name.
  \<^descr> \<open>Gtest_Port\<close>: \<open>scoped_ptr\<close> on a heap, the character tests and \<open>StripTrailingSpaces\<close> of
    \<open>gtest-port.h\<close>. Programs over \<open>scoped_ptr\<close> variables own every live object exactly once.
  \<^descr> \<open>Gtest_Threads\<close>: the pthread versions of \<open>MutexBase\<close>, \<open>Notification\<close>, \<open>ThreadWithParam\<close> and
    \<open>ThreadLocal\<close> of \<open>gtest-port.h\<close>. Each thread has a program counter, one step is one access to
    shared memory or one pthread call, and the steps of the threads interleave in any order;
    invariants are proved by rule induction over the steps. The window in
    \<open>Lock\<close> and \<open>Unlock\<close> between the pthread call and the plain fields is part of the model, and
    \<open>AssertHeld\<close> of a thread that does not hold the mutex may read any value those fields ever had.
  \<^descr> \<open>Gtest_Floating_Point\<close>: \<open>FloatingPoint\<close> of \<open>gtest-internal.h\<close> on words: the distance it computes
    counts the floating point numbers between two.
  \<^descr> \<open>Gtest_Native_Array\<close>: \<open>ArrayEq\<close>, \<open>CopyArray\<close> and \<open>NativeArray\<close> of \<open>gtest-internal.h\<close> with the views of
    \<open>gmock-internal-utils.h\<close>, on blocks of cells. Views by reference and by copy refine values.
  \<^descr> \<open>Gtest_Tuple\<close>: \<open>gtest-tuple.h\<close> on a store of cells: tuples of values and of references, their
    construction, comparison and assignment field after field.
  \<^descr> \<open>Gtest_Printers\<close>: \<open>gtest-printers.h\<close>. A printer takes the static type, as the overload
    resolution does, and the value; a value of the type is always printed, as its reference text.
  \<^descr> \<open>Gtest_Assertions\<close>: \<open>Message\<close>, \<open>AssertionResult\<close>, the comparison and predicate helpers and the
    statement macros of \<open>gtest.h\<close>, \<open>gtest-message.h\<close>, \<open>gtest_pred_impl.h\<close> and
    \<open>gtest-internal.h\<close>, on top of the printers and the floating point comparison.
  \<^descr> \<open>Gtest_Tests\<close>: the state and the inline functions of \<open>TestResult\<close>, \<open>TestInfo\<close> and \<open>TestCase\<close>, \<open>TEST\<close>, \<open>TEST_F\<close> and
    \<open>RUN_ALL_TESTS\<close> of \<open>gtest.h\<close>, type identifiers and test factories of \<open>gtest-internal.h\<close>. A translation unit compiles exactly when its
    tests have classes of their own, and then registers each of them once; the counts of a test case add up.
  \<^descr> \<open>List_Test\<close>: \<open>tftp/list_test.cc\<close>, the unit test program, on top of \<open>Session_List\<close>, \<open>Gtest_Assertions\<close> and
    \<open>Gtest_Tests\<close>: statement by statement, from the static initialisers to the value \<open>main\<close> returns, which is 0.
  \<^descr> \<open>Gtest_Death_Tests\<close>: the macros of \<open>gtest-death-test.h\<close> and \<open>gtest-death-test-internal.h\<close> in the two
    processes they run in, with all the ways a statement can end. A failure is reported exactly when the
    statement does not end its process as required.
  \<^descr> \<open>Gtest_Spi\<close>: \<open>TestPartResult\<close> of \<open>gtest-test-part.h\<close> and the macros of \<open>gtest-spi.h\<close>, with the order in
    which their local objects are destroyed, applied to the bodies of \<open>Gtest_Assertions\<close>.
  \<^descr> \<open>Gmock_Internal_Utils\<close>: the kinds of types and the lossless conversions of \<open>gmock-internal-utils.h\<close>, with
    \<open>SafeMatcherCast\<close> of \<open>gmock-matchers.h\<close>. The sizes and the signedness of the types are an argument; between integer
    types the compile-time test is true exactly when no value is lost.
  \<^descr> \<open>Gmock_Matchers\<close>, \<open>Gmock_Containers\<close>: \<open>gmock-matchers.h\<close>. The locale \<open>matcher_interface\<close> says that a
    listener never changes a verdict and is only appended to; the collection \<open>good_intros\<close>
    establishes it for the matchers of the two theories and \<open>matches_simps\<close> says what each matches.
  \<^descr> \<open>Gmock_Generated_Matchers\<close>: \<open>gmock-generated-matchers.h\<close>: \<open>Args\<close>, the \<open>MATCHER\<close> macros, and the
    balanced trees of \<open>AllOf\<close> and \<open>AnyOf\<close>, which agree with the lists of \<open>gmock-matchers.h\<close>.
  \<^descr> \<open>Gmock_Actions\<close>: \<open>gmock-actions.h\<close>, \<open>gmock-more-actions.h\<close> and the combinators of
    \<open>gmock-generated-actions.h\<close>: an action maps arguments and world to a result or a fault.
  \<^descr> \<open>Gmock_Action_Macros\<close>: the \<open>ACTION\<close> macros of \<open>gmock-generated-actions.h\<close>: what the body of a user-defined action
    sees, and that the actions the library defines by them are those of \<open>Gmock_Actions\<close>.
  \<^descr> \<open>Gmock_Spec_Builders\<close>: \<open>gmock-spec-builders.h\<close>, with the interface of
    \<open>gmock-cardinalities.h\<close>: clauses and their order, the search for an expectation, the choice of
    an action, retirement of prerequisites, default actions and all messages.
  \<^descr> \<open>Gmock_Function_Mockers\<close>: \<open>gmock-generated-function-mockers.h\<close>, \<open>InvokeWith\<close> and the result holders of
    \<open>gmock-spec-builders.h\<close>, \<open>EXPECT_CALL\<close> and \<open>ON_CALL\<close>. A call of a mock method performs the next action of the newest expectation that
    handles it, returns what the action returned and frees the holder; the action of a new expectation is the one the next matching call performs.
  \<^descr> \<open>Gmock_Nice_Strict\<close>: \<open>gmock-generated-nice-strict.h\<close>. Over every history of mocks created and destroyed, a live mock has the
    reaction of its class and a dead one leaves none behind.

  \<^bold>\<open>Faults, undefined behaviour and words\<close>

  Dereferencing NULL or a freed block, freeing twice, leaving a buffer, overflowing a signed
  counter, \<open>front()\<close> on an empty queue and a library call without defined meaning are values of \<open>c_fault\<close>, as are \<open>exit\<close>, \<open>abort\<close>, a failed
  assertion and an uncaught exception. A theorem that a function returns \<open>Inr\<close> therefore says that none
  of them occurs. Block numbers, flags and bytes are words of their C width; where the code mixes
  signed and unsigned values (the block number passed to \<open>fseek\<close>, \<open>nwrite\<close> compared with a
  \<open>size_t\<close>) the conversion is written out. The host is little-endian, as the bundled libraries are.

  \<^bold>\<open>Loops and bounds\<close>

  Loops over linked structures and over input are \<open>partial_function (option)\<close>, where \<open>None\<close> is a
  loop that does not end; their theorems prove that a result exists (or, for \<open>read_error_hangs\<close>,
  that none does). The server loops that never end by design, \<open>main_loop\<close> and \<open>ftp_serve\<close>, take
  the number of iterations, and their theorems hold for every number: a run of the program is the
  limit of these prefixes, and no statement depends on a particular bound. The loops of the three
  echo servers are the step relations; \<open>ep_iteration\<close> is the body of the epoll loop.
  \<open>get_list_length\<close> counts in an \<open>int\<close>, and its theorem states the overflow beyond \<open>INT_MAX\<close>. The transfer
  theorem covers files of up to 32767 full blocks, where the signed block number turns negative.

  \<^bold>\<open>Code outside the sources\<close>

  System calls, libevent, Boost and the compiled part of googletest and googlemock are functions in a record
  argument (\<open>tftp_os\<close>, \<open>ep_os\<close>, \<open>ftp_os\<close>, \<open>ev_api\<close>, \<open>gmock_lib\<close>, \<open>mocker_api\<close>, \<open>reaction_api\<close>,
  \<open>unit_test_api\<close>, \<open>death_test_api\<close>, \<open>spi_api\<close>) acting on a world of any type. What a theorem
  relies on is a named predicate from the documentation (\<open>read\<close> returns at most what was asked for,
  \<open>epoll_ctl\<close> with \<open>EPOLL_CTL_ADD\<close> refuses a registered descriptor, \<open>Exactly(n)\<close> is saturated from
  n calls on, \<open>bufferevent_write_buffer\<close> moves one evbuffer behind the output), and the witness
  instantiates it with a concrete function.

  \<^bold>\<open>What is not modelled\<close>

  The libevent headers only declare a library shipped in binary form. The Go and Python files are
  single calls into libraries, in other languages. Of the googletest headers, the event listeners and environments are
  interfaces with empty bodies, and counting, filtering and running tests, \<open>UntypedInvokeWith\<close> and the tables of mock
  objects are compiled code, of which only the documented behaviour is used. The macros that list the parameters of an action
  template, those that paste a calling convention into a mock method, the
  Windows branches of the platform layer and everything on wide characters are left out. Where the
  headers repeat a class for the arities 0 to 10 or 50, one definition on lists stands for all of them, and the declarations that only name a
  type for the compiler have no definition. The two threads of
  the libevent client share nothing and are not interleaved with each other, and googlemock serialises its
  operations by a global mutex. Destruction of mock objects and the check of unsatisfied expectations
  live in the compiled library.

  \<^bold>\<open>Plan\<close>

  What could still be added: the remaining type traits of \<open>gmock-internal-utils.h\<close> and \<open>gtest-internal.h\<close> as functions on types, and the printers and
  \<open>Args\<close> on the tuples of \<open>Gtest_Tuple\<close>.
\<close>

end
